(* ===== verification/Prelude.thy ===== *)
theory Prelude
  imports Main "HOL-Library.Word" "HOL-Library.AList" "HOL-Library.Multiset"
begin

text \<open>
  Shared vocabulary of the development: the machine integers of the Go code, Go's
  \<open>error\<close> values, a run-time panic as an outcome, and the generic lemmas on lists, maps
  and words that several components use. Nothing here models a particular source file.
\<close>

unbundle bit_operations_syntax

section \<open>Machine types\<close>

type_synonym byte = "8 word"
type_synonym u16 = "16 word"
type_synonym u32 = "32 word"
type_synonym u64 = "64 word"

section \<open>Go errors and panics\<close>

text \<open>
  Go's \<open>error\<close> is an interface whose zero value \<open>nil\<close> means success; a function
  that returns \<open>error\<close> is modelled with \<open>go_error option\<close>, \<open>None\<close> for \<open>nil\<close>.
  The constructors are the sentinel values the code compares or returns, the
  \<open>configError\<close> struct with its two fields, an error wrapped by \<open>fmt.Errorf\<close> with a
  prefix, and one constructor for errors that come from outside the repository.
\<close>

datatype go_error =
    ErrClosedPipe            \<comment> \<open>\<open>io.ErrClosedPipe\<close>\<close>
  | ErrNetClosed             \<comment> \<open>\<open>net.ErrClosed\<close>\<close>
  | ErrEOF                   \<comment> \<open>\<open>io.EOF\<close>\<close>
  | ErrUnexpectedEOF         \<comment> \<open>\<open>io.ErrUnexpectedEOF\<close>\<close>
  | ErrDeadlineExceeded      \<comment> \<open>\<open>os.ErrDeadlineExceeded\<close>\<close>
  | ErrNotExist              \<comment> \<open>an error for which \<open>os.IsNotExist\<close> holds\<close>
  | ErrRemote "byte list"    \<comment> \<open>\<open>fmt.Errorf("remote: %s", ...)\<close>\<close>
  | ErrConfig string go_error \<comment> \<open>\<open>configError{Field, Err}\<close>\<close>
  | ErrWrap string go_error  \<comment> \<open>\<open>fmt.Errorf("prefix: %w", err)\<close>\<close>
  | ErrMsg string            \<comment> \<open>\<open>errors.New(msg)\<close>\<close>
  | ErrExt nat               \<comment> \<open>an error value of code outside the repository\<close>

text \<open>
  A Go statement can panic (slice bounds, nil dereference). Where it can, the model
  returns \<open>None\<close> of this type synonym and a theorem shows when that does not happen.
\<close>

type_synonym 'a panics = "'a option"

text \<open>A statement that can also block on a channel has three outcomes.\<close>

datatype 'a outcome = Ret 'a | Block | Panic

section \<open>Lemma collections\<close>

named_theorems wire_simps \<open>byte-level encoders and decoders\<close>
named_theorems go_simps \<open>string and number routines of the Go library\<close>

section \<open>Lists\<close>

lemma append_take_drop_assoc: "acc @ take n xs @ drop n xs @ ys = acc @ xs @ ys"
  by (metis append.assoc append_take_drop_id)

lemma take_drop_append_eq [simp]: "take n xs @ drop n xs @ ys = xs @ ys"
  by (metis append.assoc append_take_drop_id)

lemma concat_snoc: "concat (xs @ [x]) = concat xs @ x"
  by simp

lemma map_of_eqI_distinct:
  assumes "distinct (map fst xs)" and "distinct (map fst ys)" and "set xs = set ys"
  shows "map_of xs = map_of ys"
proof
  fix k
  show "map_of xs k = map_of ys k"
    using assms by (cases "map_of xs k"; cases "map_of ys k")
      (metis map_of_eq_None_iff map_of_eq_Some_iff image_iff not_Some_eq)+
qed

lemma map_of_rev: "distinct (map fst xs) \<Longrightarrow> map_of (rev xs) = map_of xs"
  by (rule map_of_eqI_distinct) (simp_all add: rev_map [symmetric])

lemma set_takeWhile_subset: "x \<in> set (takeWhile P xs) \<Longrightarrow> x \<in> set xs"
  by (auto dest: set_takeWhileD)

lemma sum_list_map_update:
  fixes f :: "'a \<Rightarrow> 'b::comm_monoid_add"
  assumes "distinct (map fst al)" and "map_of al k = Some v"
  shows "sum_list (map (f \<circ> snd) (AList.update k w al)) + f v =
         sum_list (map (f \<circ> snd) al) + f w"
  using assms
proof (induction al)
  case Nil
  then show ?case by simp
next
  case (Cons a al)
  obtain k' v' where a: "a = (k', v')" by (cases a)
  show ?case
  proof (cases "k' = k")
    case True
    with Cons.prems a show ?thesis by (simp add: ac_simps)
  next
    case False
    with Cons.prems a have IH: "sum_list (map (f \<circ> snd) (AList.update k w al)) + f v =
         sum_list (map (f \<circ> snd) al) + f w"
      by (intro Cons.IH) auto
    have "sum_list (map (f \<circ> snd) (AList.update k w (a # al))) + f v =
          f v' + (sum_list (map (f \<circ> snd) (AList.update k w al)) + f v)"
      using False a by (simp add: add.assoc)
    also have "\<dots> = sum_list (map (f \<circ> snd) (a # al)) + f w"
      using a by (simp only: IH) (simp add: add.assoc)
    finally show ?thesis .
  qed
qed

lemma AList_update_set: "x \<in> set (AList.update k v al) \<Longrightarrow> x = (k, v) \<or> x \<in> set al"
  by (induction al) (auto split: if_splits)

lemma map_of_AList_update: "map_of (AList.update k v al) = (map_of al)(k \<mapsto> v)"
  by (simp add: update_conv' fun_upd_def)

lemma map_of_AList_delete: "map_of (AList.delete k al) = (map_of al)(k := None)"
  by (simp add: delete_conv' fun_upd_def)

lemma removeAll_empty: "removeAll x xs = [] \<longleftrightarrow> set xs \<subseteq> {x}"
  by (induction xs) auto

section \<open>Words\<close>

lemma unat_of_nat_lt: "n < 2 ^ LENGTH('a) \<Longrightarrow> unat (of_nat n :: 'a::len word) = n"
  by (simp add: unat_of_nat take_bit_nat_eq_self)

lemma unat_of_nat_u16 [wire_simps]: "n < 65536 \<Longrightarrow> unat (of_nat n :: u16) = n"
  by (rule unat_of_nat_lt) simp

lemma unat_less_pow: "unat (w :: 'a::len word) < 2 ^ LENGTH('a)"
  by (rule unsigned_less)

lemma unat_u8_lt [simp]: "unat (w :: byte) < 256"
  using unat_less_pow [of w] by simp

lemma unat_u16_lt [simp]: "unat (w :: u16) < 65536"
  using unat_less_pow [of w] by simp

section \<open>Numbers\<close>

lemma int_le_two_power: "x \<le> 2 ^ k \<Longrightarrow> int x \<le> 2 ^ k"
  by (metis of_nat_le_iff of_nat_numeral of_nat_power)

lemma int_less_two_power: "x < 2 ^ k \<Longrightarrow> int x < 2 ^ k"
  by (metis of_nat_less_iff of_nat_numeral of_nat_power)

end
