(* ===== verification/GoStd.thy ===== *)
theory GoStd
  imports Prelude
begin

text \<open>
  The parts of Go's standard library the repository calls on data it computes with:
  \<open>strings.Split\<close>, \<open>SplitN\<close>, \<open>Join\<close>, \<open>ToLower\<close>, \<open>Contains\<close>; \<open>strconv.Atoi\<close>,
  \<open>ParseInt\<close>, \<open>ParseUint\<close>; \<open>encoding/binary\<close>'s big-endian accessors;
  \<open>encoding/hex.EncodeToString\<close>; \<open>net.SplitHostPort\<close>. A Go string is a sequence of
  bytes and is modelled as \<open>string\<close> (one \<open>char\<close> per byte); \<open>[]byte\<close> is \<open>byte list\<close>.
\<close>

section \<open>Conversions between strings and byte slices\<close>

definition bytes_of_string :: "string \<Rightarrow> byte list" where
  "bytes_of_string s = map of_char s"

definition string_of_bytes :: "byte list \<Rightarrow> string" where
  "string_of_bytes bs = map (\<lambda>b. char_of (unat b)) bs"

lemma unat_of_char_byte [simp]: "unat (of_char c :: byte) = of_char c"
proof -
  have "(of_char c :: byte) = of_nat (of_char c)" by (simp only: of_nat_of_char)
  moreover have "(of_char c :: nat) < 2 ^ LENGTH(8)" by simp
  ultimately show ?thesis by (metis unat_of_nat_lt)
qed

lemma of_char_char_of_byte [simp]: "of_char (char_of (unat b)) = (b :: byte)"
proof -
  have "of_char (char_of (unat b)) = unat b" by simp
  then show ?thesis by (metis of_nat_of_char of_nat_unat ucast_id)
qed

lemma string_of_bytes_of_string [simp]: "string_of_bytes (bytes_of_string s) = s"
  by (induction s) (simp_all add: string_of_bytes_def bytes_of_string_def)

lemma bytes_of_string_of_bytes [simp]: "bytes_of_string (string_of_bytes bs) = bs"
  by (simp add: string_of_bytes_def bytes_of_string_def comp_def)

lemma length_bytes_of_string [simp]: "length (bytes_of_string s) = length s"
  by (simp add: bytes_of_string_def)

section \<open>Package strings\<close>

text \<open>\<open>strings.Split(s, sep)\<close> for a one-byte separator.\<close>

fun Split :: "char \<Rightarrow> string \<Rightarrow> string list" where
  "Split sep [] = [[]]"
| "Split sep (c # cs) =
     (if c = sep then [] # Split sep cs
      else (case Split sep cs of [] \<Rightarrow> [[c]] | w # ws \<Rightarrow> (c # w) # ws))"

text \<open>\<open>strings.SplitN(s, sep, 2)\<close>: at most two parts, cut at the first separator.\<close>

definition SplitN2 :: "char \<Rightarrow> string \<Rightarrow> string list" where
  "SplitN2 sep s =
     (if sep \<in> set s
      then [takeWhile (\<lambda>c. c \<noteq> sep) s, tl (dropWhile (\<lambda>c. c \<noteq> sep) s)]
      else [s])"

text \<open>\<open>strings.Join(elems, sep)\<close> for a one-byte separator.\<close>

fun Join :: "char \<Rightarrow> string list \<Rightarrow> string" where
  "Join sep [] = []"
| "Join sep [w] = w"
| "Join sep (w # v # ws) = w @ sep # Join sep (v # ws)"

text \<open>\<open>strings.Contains(s, substr)\<close>.\<close>

fun Contains :: "string \<Rightarrow> string \<Rightarrow> bool" where
  "Contains [] sub = (sub = [])"
| "Contains (c # cs) sub = (take (length sub) (c # cs) = sub \<or> Contains cs sub)"

text \<open>
  \<open>strings.ToLower\<close>: byte-wise on ASCII strings. On a string with a non-ASCII byte Go
  applies the Unicode case tables, which are the parameter \<open>unicode_lower\<close>.
\<close>

definition is_ascii :: "char \<Rightarrow> bool" where
  "is_ascii c \<longleftrightarrow> (of_char c :: nat) < 128"

definition lower_char :: "char \<Rightarrow> char" where
  "lower_char c =
     (let n = (of_char c :: nat) in if 65 \<le> n \<and> n \<le> 90 then char_of (n + 32) else c)"

definition ToLower :: "(string \<Rightarrow> string) \<Rightarrow> string \<Rightarrow> string" where
  "ToLower unicode_lower s =
     (if list_all is_ascii s then map lower_char s else unicode_lower s)"

lemma Split_not_Nil [simp]: "Split sep s \<noteq> []"
  by (induction s) (auto split: list.splits)

lemma Split_single: "sep \<notin> set s \<Longrightarrow> Split sep s = [s]"
  by (induction s) auto

lemma Split_append_sep: "sep \<notin> set w \<Longrightarrow> Split sep (w @ sep # s) = w # Split sep s"
  by (induction w) auto

lemma Split_Join:
  "ws \<noteq> [] \<Longrightarrow> (\<And>w. w \<in> set ws \<Longrightarrow> sep \<notin> set w) \<Longrightarrow> Split sep (Join sep ws) = ws"
  by (induction ws rule: Join.induct[where ?a0.0 = sep, simplified])
     (auto simp: Split_single Split_append_sep)

lemma Join_Split [go_simps]: "Join sep (Split sep s) = s"
proof (induction s)
  case Nil
  then show ?case by simp
next
  case (Cons c s)
  then show ?case
    by (cases "Split sep s"; cases "tl (Split sep s)") auto
qed

lemma Split_parts_no_sep: "w \<in> set (Split sep s) \<Longrightarrow> sep \<notin> set w"
  by (induction s arbitrary: w) (auto split: if_splits list.splits)

lemma SplitN2_cut [go_simps]: "sep \<notin> set k \<Longrightarrow> SplitN2 sep (k @ sep # v) = [k, v]"
  by (induction k) (auto simp: SplitN2_def)

lemma SplitN2_none: "sep \<notin> set s \<Longrightarrow> SplitN2 sep s = [s]"
  by (simp add: SplitN2_def)

section \<open>Package strconv\<close>

definition digit_val :: "char \<Rightarrow> nat option" where
  "digit_val c = (let n = (of_char c :: nat) in if 48 \<le> n \<and> n \<le> 57 then Some (n - 48) else None)"

fun parse_digits :: "nat \<Rightarrow> string \<Rightarrow> nat option" where
  "parse_digits acc [] = Some acc"
| "parse_digits acc (c # cs) =
     (case digit_val c of None \<Rightarrow> None | Some d \<Rightarrow> parse_digits (10 * acc + d) cs)"

text \<open>
  \<open>strconv.ParseUint(s, 10, bits)\<close>; \<open>None\<close> is a non-nil error (syntax or range). The
  Go loop reports a range error as soon as the value leaves the range, which gives the
  same outcome as checking the range of the whole numeral.
\<close>

definition ParseUint :: "string \<Rightarrow> nat \<Rightarrow> nat option" where
  "ParseUint s bits =
     (if s = [] then None
      else (case parse_digits 0 s of
              None \<Rightarrow> None
            | Some n \<Rightarrow> if n < 2 ^ bits then Some n else None))"

text \<open>\<open>strconv.ParseInt(s, 10, bits)\<close>.\<close>

definition ParseInt :: "string \<Rightarrow> nat \<Rightarrow> int option" where
  "ParseInt s bits =
     (case s of
        [] \<Rightarrow> None
      | c # cs \<Rightarrow>
          (let neg = (c = CHR ''-'');
               digits = (if c = CHR ''+'' \<or> c = CHR ''-'' then cs else s)
           in case ParseUint digits 64 of
                None \<Rightarrow> None
              | Some un \<Rightarrow>
                  if \<not> neg \<and> un \<ge> 2 ^ (bits - 1) then None
                  else if neg \<and> un > 2 ^ (bits - 1) then None
                  else Some (if neg then - int un else int un)))"

text \<open>\<open>strconv.Atoi(s)\<close> on a 64-bit platform.\<close>

definition Atoi :: "string \<Rightarrow> int option" where
  "Atoi s = ParseInt s 64"

lemma ParseUint_bound: "ParseUint s bits = Some n \<Longrightarrow> n < 2 ^ bits"
  by (auto simp: ParseUint_def split: if_splits option.splits)

lemma ParseInt_bounds:
  "ParseInt s bits = Some i \<Longrightarrow> - (2 ^ (bits - 1)) \<le> i \<and> i < 2 ^ (bits - 1)"
  by (auto simp: ParseInt_def Let_def not_le not_less
      dest!: int_le_two_power int_less_two_power
      intro: order.trans [of _ 0] order.strict_trans1 [of _ 0]
      split: list.splits option.splits if_splits)

section \<open>Package encoding/binary, big endian\<close>

definition PutUint16 :: "u16 \<Rightarrow> byte list" where
  "PutUint16 v = [ucast (drop_bit 8 v), ucast v]"

definition Uint16 :: "byte list \<Rightarrow> u16" where
  "Uint16 b = ucast (b ! 1) OR push_bit 8 (ucast (b ! 0))"

definition PutUint32 :: "u32 \<Rightarrow> byte list" where
  "PutUint32 v = [ucast (drop_bit 24 v), ucast (drop_bit 16 v), ucast (drop_bit 8 v), ucast v]"

definition Uint32 :: "byte list \<Rightarrow> u32" where
  "Uint32 b = ucast (b ! 3) OR push_bit 8 (ucast (b ! 2)) OR
              push_bit 16 (ucast (b ! 1)) OR push_bit 24 (ucast (b ! 0))"

lemma length_PutUint16 [simp]: "length (PutUint16 v) = 2"
  by (simp add: PutUint16_def)

lemma length_PutUint32 [simp]: "length (PutUint32 v) = 4"
  by (simp add: PutUint32_def)

lemma Uint16_PutUint16 [wire_simps]: "Uint16 (PutUint16 v @ rest) = v"
proof (rule bit_word_eqI)
  fix n assume n: "n < LENGTH(16)"
  show "bit (Uint16 (PutUint16 v @ rest)) n = bit v n"
    using n by (cases "n < 8") (auto simp: Uint16_def PutUint16_def bit_simps)
qed

lemma Uint32_PutUint32 [wire_simps]: "Uint32 (PutUint32 v @ rest) = v"
proof (rule bit_word_eqI)
  fix n assume n: "n < LENGTH(32)"
  then consider "n < 8" | "8 \<le> n \<and> n < 16" | "16 \<le> n \<and> n < 24" | "24 \<le> n \<and> n < 32"
    by fastforce
  then show "bit (Uint32 (PutUint32 v @ rest)) n = bit v n"
    by cases (use n in \<open>auto simp: Uint32_def PutUint32_def bit_simps\<close>)
qed

lemma byte_high_bits: "bit (b :: byte) n \<Longrightarrow> n < 8"
  using bit_imp_le_length [of b n] by simp

lemma PutUint16_Uint16: "PutUint16 (Uint16 [f, g]) = [f, g]"
  unfolding PutUint16_def Uint16_def list.inject
  by (intro conjI bit_word_eqI) (auto simp: bit_simps dest: byte_high_bits)

lemma PutUint32_Uint32: "PutUint32 (Uint32 ([b, c, d, e] @ rest)) = [b, c, d, e]"
  unfolding PutUint32_def Uint32_def list.inject
  by (intro conjI bit_word_eqI) (auto simp: bit_simps dest: byte_high_bits)

section \<open>Package encoding/hex\<close>

definition hex_digit :: "nat \<Rightarrow> char" where
  "hex_digit n = (if n < 10 then char_of (48 + n) else char_of (87 + n))"

definition hex_EncodeToString :: "byte list \<Rightarrow> string" where
  "hex_EncodeToString bs =
     concat (map (\<lambda>b. [hex_digit (unat b div 16), hex_digit (unat b mod 16)]) bs)"

lemma length_hex_EncodeToString: "length (hex_EncodeToString bs) = 2 * length bs"
  by (induction bs) (auto simp: hex_EncodeToString_def)

section \<open>Package net\<close>

definition index_of :: "'a \<Rightarrow> 'a list \<Rightarrow> nat option" where
  "index_of x xs = (if x \<in> set xs then Some (length (takeWhile (\<lambda>y. y \<noteq> x) xs)) else None)"

definition last_index_of :: "'a \<Rightarrow> 'a list \<Rightarrow> nat option" where
  "last_index_of x xs =
     (if x \<in> set xs then Some (length xs - 1 - length (takeWhile (\<lambda>y. y \<noteq> x) (rev xs))) else None)"

text \<open>
  \<open>net.SplitHostPort\<close>: the port follows the last colon; a bracketed host must end with
  \<open>]\<close> right before that colon; an unbracketed host has no colon.
\<close>

definition SplitHostPort :: "string \<Rightarrow> go_error + (string \<times> string)" where
  "SplitHostPort hostport =
     (case last_index_of (CHR '':'') hostport of
        None \<Rightarrow> Inl (ErrMsg ''missing port in address'')
      | Some i \<Rightarrow>
          (let finish = (\<lambda>host j k.
                 if CHR ''['' \<in> set (drop j hostport) then Inl (ErrMsg ''unexpected '[' in address'')
                 else if CHR '']'' \<in> set (drop k hostport) then Inl (ErrMsg ''unexpected ']' in address'')
                 else Inr (host, drop (i + 1) hostport))
           in if hostport ! 0 = CHR ''['' then
                (case index_of (CHR '']'') hostport of
                   None \<Rightarrow> Inl (ErrMsg ''missing ']' in address'')
                 | Some end \<Rightarrow>
                     if end + 1 = length hostport then Inl (ErrMsg ''missing port in address'')
                     else if end + 1 = i then finish (drop 1 (take end hostport)) 1 (end + 1)
                     else if hostport ! (end + 1) = CHR '':'' then Inl (ErrMsg ''too many colons in address'')
                     else Inl (ErrMsg ''missing port in address''))
              else if CHR '':'' \<in> set (take i hostport) then Inl (ErrMsg ''too many colons in address'')
              else finish (take i hostport) 0 0))"

end
