(* ===== verification/StringMap.thy ===== *)
theory StringMap
  imports GoStd
begin

text \<open>
  \<open>internal/pkg/util/string_map.go\<close>: the \<open>key=value\<close> line format of the settings
  frames and of padding schemes. A Go map is an association list with distinct keys;
  where the code ranges over a map, the list's order stands for the iteration order the
  runtime happens to choose, and the theorems quantify over it.
\<close>

type_synonym StringMap = "(string \<times> string) list"

abbreviation newline :: char where
  "newline \<equiv> CHR 0x0A"

section \<open>The code\<close>

definition kv_line :: "string \<times> string \<Rightarrow> string" where
  "kv_line kv = fst kv @ ''='' @ snd kv"

text \<open>\<open>ToBytes\<close>; the argument lists the map's entries in iteration order.\<close>

definition ToBytes :: "StringMap \<Rightarrow> byte list" where
  "ToBytes s = bytes_of_string (Join newline (map kv_line s))"

text \<open>One round of the loop of \<open>StringMapFromBytes\<close>.\<close>

definition add_line :: "StringMap \<Rightarrow> string \<Rightarrow> StringMap" where
  "add_line m line =
     (let v = SplitN2 (CHR ''='') line
      in if length v = 2 then AList.update (v ! 0) (v ! 1) m else m)"

definition StringMapFromBytes :: "byte list \<Rightarrow> StringMap" where
  "StringMapFromBytes b = foldl add_line [] (Split newline (string_of_bytes b))"

text \<open>Indexing a Go map with a missing key gives the zero value.\<close>

definition sm_get :: "StringMap \<Rightarrow> string \<Rightarrow> string" where
  "sm_get m k = (case map_of m k of None \<Rightarrow> '''' | Some v \<Rightarrow> v)"

section \<open>Lookup in a parsed map\<close>

text \<open>The reference reading of one line: its key and value, if it has a \<open>=\<close>.\<close>

definition line_entry :: "string \<Rightarrow> (string \<times> string) option" where
  "line_entry line =
     (if CHR ''='' \<in> set line
      then Some (takeWhile (\<lambda>c. c \<noteq> CHR ''='') line, tl (dropWhile (\<lambda>c. c \<noteq> CHR ''='') line))
      else None)"

lemma add_line_entry:
  "add_line m line = (case line_entry line of None \<Rightarrow> m | Some (k, v) \<Rightarrow> AList.update k v m)"
  by (simp add: add_line_def line_entry_def SplitN2_def)

lemma line_entry_kv_line: "CHR ''='' \<notin> set (fst kv) \<Longrightarrow> line_entry (kv_line kv) = Some kv"
  using SplitN2_cut [of "CHR ''=''" "fst kv" "snd kv"]
  by (cases kv) (auto simp: line_entry_def kv_line_def SplitN2_def)

lemma distinct_foldl_add_line:
  "distinct (map fst m) \<Longrightarrow> distinct (map fst (foldl add_line m lines))"
  by (induction lines arbitrary: m)
     (auto simp: add_line_entry distinct_update split: option.splits)

lemma distinct_StringMapFromBytes: "distinct (map fst (StringMapFromBytes b))"
  by (simp add: StringMapFromBytes_def distinct_foldl_add_line)

lemma map_of_foldl_add_line:
  "map_of (foldl add_line m lines) = map_of m ++ map_of (rev (List.map_filter line_entry lines))"
proof (induction lines arbitrary: m)
  case Nil
  then show ?case by (simp add: List.map_filter_simps)
next
  case (Cons l ls)
  show ?case
  proof (cases "line_entry l")
    case None
    with Cons show ?thesis by (simp add: add_line_entry List.map_filter_simps)
  next
    case (Some kv)
    obtain k v where kv: "kv = (k, v)" by (cases kv)
    have "map_of (foldl add_line m (l # ls)) =
          (map_of m)(k \<mapsto> v) ++ map_of (rev (List.map_filter line_entry ls))"
      using Cons [of "AList.update k v m"] Some kv by (simp add: add_line_entry [of m l] update_conv' fun_upd_def)
    then show ?thesis
      using Some kv by (simp add: List.map_filter_simps)
  qed
qed

lemma map_of_StringMapFromBytes:
  "map_of (StringMapFromBytes b) =
     map_of (rev (List.map_filter line_entry (Split newline (string_of_bytes b))))"
  by (simp add: StringMapFromBytes_def map_of_foldl_add_line)

section \<open>Round trip\<close>

definition sm_clean :: "StringMap \<Rightarrow> bool" where
  "sm_clean m \<longleftrightarrow> (\<forall>kv \<in> set m. CHR ''='' \<notin> set (fst kv) \<and> newline \<notin> set (fst kv) \<and> newline \<notin> set (snd kv))"

lemma map_filter_kv_lines:
  "sm_clean m \<Longrightarrow> List.map_filter line_entry (map kv_line m) = m"
  by (induction m) (auto simp: List.map_filter_simps line_entry_kv_line sm_clean_def)

lemma newline_not_in_kv_line:
  "sm_clean m \<Longrightarrow> kv \<in> set m \<Longrightarrow> newline \<notin> set (kv_line kv)"
  by (auto simp: sm_clean_def kv_line_def)

lemma StringMapFromBytes_ToBytes:
  assumes "sm_clean m" and "distinct (map fst m)"
  shows "map_of (StringMapFromBytes (ToBytes m)) = map_of m"
proof (cases "m = []")
  case True
  then show ?thesis
    by (simp add: map_of_StringMapFromBytes ToBytes_def bytes_of_string_def string_of_bytes_def
        List.map_filter_simps line_entry_def)
next
  case False
  have "Split newline (Join newline (map kv_line m)) = map kv_line m"
    using False newline_not_in_kv_line [OF assms(1)] by (intro Split_Join) auto
  then show ?thesis
    using assms by (simp add: map_of_StringMapFromBytes ToBytes_def map_filter_kv_lines map_of_rev)
qed

text \<open>C23: whatever order the runtime iterates the map in, the receiver of the serialised
  settings reads back exactly the map that was sent, provided no key has \<open>=\<close> or a line
  break and no value has a line break.\<close>

theorem string_map_roundtrip:
  assumes "sm_clean m" and "distinct (map fst m)" and "mset it = mset m"
  shows "map_of (StringMapFromBytes (ToBytes it)) = map_of m"
proof -
  have set_eq: "set it = set m" using assms(3) by (rule mset_eq_setD)
  have "distinct (map fst it)"
    using assms(2,3) by (metis mset_map mset_eq_imp_distinct_iff)
  moreover have "sm_clean it" using assms(1) set_eq by (simp add: sm_clean_def)
  ultimately have "map_of (StringMapFromBytes (ToBytes it)) = map_of it"
    by (intro StringMapFromBytes_ToBytes)
  also have "\<dots> = map_of m"
    using \<open>distinct (map fst it)\<close> assms(2) set_eq by (rule map_of_eqI_distinct)
  finally show ?thesis .
qed

theorem string_map_roundtrip_witness:
  "map_of (StringMapFromBytes (ToBytes [(''padding-md5'', ''ab=c''), (''v'', ''2'')])) ''padding-md5''
     = Some ''ab=c''"
proof -
  have "map_of (StringMapFromBytes (ToBytes [(''padding-md5'', ''ab=c''), (''v'', ''2'')])) =
        map_of [(''v'', ''2''), (''padding-md5'', ''ab=c'')]"
    by (rule string_map_roundtrip) (simp_all add: sm_clean_def)
  then show ?thesis by simp
qed

end
