(* ===== verification/Padding.thy ===== *)
theory Padding
  imports StringMap
begin

text \<open>
  \<open>internal/pkg/proxy/padding/padding.go\<close>: the padding scheme, a text of
  \<open>packet=ranges\<close> lines, parsed into a factory that yields the record sizes of each
  packet. \<open>crypto/md5\<close> with hexadecimal formatting is the parameter \<open>md5hex\<close>;
  \<open>math/rand\<close> is a supply of raw random numbers from which each call takes the next.
\<close>

section \<open>Data\<close>

definition CheckMark :: int where
  "CheckMark = - 1"

definition maxPaddingSize :: int where
  "maxPaddingSize = 65535"

text \<open>\<open>min\<close> and \<open>max\<close> are \<open>int64\<close>; the parser keeps them between 1 and 65535.\<close>

record paddingRange =
  isCheck :: bool
  range_min :: int
  range_max :: int

record PaddingFactory =
  parsedRanges :: "u32 \<rightharpoonup> paddingRange list"
  RawScheme :: "byte list"
  Stop :: u32
  Md5 :: string

definition defaultPaddingScheme :: "byte list" where
  "defaultPaddingScheme = bytes_of_string (Join newline
     [''stop=8'',
      ''0=30-30'',
      ''1=100-400'',
      ''2=400-500,c,500-1000,c,500-1000,c,500-1000,c,500-1000'',
      ''3=9-9,500-1000'',
      ''4=500-1000'',
      ''5=500-1000'',
      ''6=500-1000'',
      ''7=500-1000''])"

section \<open>Parsing a scheme\<close>

text \<open>One round of the inner loop; \<open>None\<close> is \<open>continue\<close> without an append.\<close>

definition parse_range :: "string \<Rightarrow> paddingRange option" where
  "parse_range sRange =
     (if sRange = ''c'' then Some \<lparr>isCheck = True, range_min = 0, range_max = 0\<rparr>
      else
        (let sRangeMinMax = Split (CHR ''-'') sRange
         in if length sRangeMinMax = 2 then
              (case ParseInt (sRangeMinMax ! 0) 64 of
                 None \<Rightarrow> None
               | Some mn \<Rightarrow>
                   (case ParseInt (sRangeMinMax ! 1) 64 of
                      None \<Rightarrow> None
                    | Some mx \<Rightarrow>
                        (let lo = min mn mx; hi = max mn mx
                         in if lo \<le> 0 \<or> hi \<le> 0 then None
                            else Some \<lparr>isCheck = False, range_min = min lo maxPaddingSize,
                                       range_max = min hi maxPaddingSize\<rparr>)))
            else None))"

definition parse_ranges :: "string \<Rightarrow> paddingRange list" where
  "parse_ranges val = List.map_filter parse_range (Split (CHR '','') val)"

text \<open>One round of the outer loop over the entries of the scheme.\<close>

definition add_entry :: "(u32 \<rightharpoonup> paddingRange list) \<Rightarrow> string \<times> string \<Rightarrow> (u32 \<rightharpoonup> paddingRange list)" where
  "add_entry rs kv =
     (case Atoi (fst kv) of
        None \<Rightarrow> rs
      | Some pkt \<Rightarrow> rs(word_of_int pkt \<mapsto> parse_ranges (snd kv)))"

text \<open>
  \<open>order\<close> is the runtime's iteration order over the parsed map: it lists the entries in
  some permutation.
\<close>

definition NewPaddingFactory ::
  "(byte list \<Rightarrow> string) \<Rightarrow> (StringMap \<Rightarrow> StringMap) \<Rightarrow> byte list \<Rightarrow> PaddingFactory option" where
  "NewPaddingFactory md5hex order rawScheme =
     (let scheme = StringMapFromBytes rawScheme
      in if length scheme = 0 then None
         else (case Atoi (sm_get scheme ''stop'') of
                 None \<Rightarrow> None
               | Some stop \<Rightarrow>
                   Some \<lparr>parsedRanges = foldl add_entry Map.empty (order scheme),
                         RawScheme = rawScheme,
                         Stop = word_of_int stop,
                         Md5 = md5hex rawScheme\<rparr>))"

text \<open>
  \<open>UpdatePaddingScheme\<close> stores into the global \<open>DefaultPaddingFactory\<close>, passed and
  returned here; the Boolean is the function's result.
\<close>

definition UpdatePaddingScheme ::
  "(byte list \<Rightarrow> string) \<Rightarrow> (StringMap \<Rightarrow> StringMap) \<Rightarrow> byte list \<Rightarrow>
   PaddingFactory option \<Rightarrow> bool \<times> PaddingFactory option" where
  "UpdatePaddingScheme md5hex order rawScheme DefaultPaddingFactory =
     (case NewPaddingFactory md5hex order rawScheme of
        Some p \<Rightarrow> (True, Some p)
      | None \<Rightarrow> (False, DefaultPaddingFactory))"

text \<open>The package's \<open>init\<close>: the global factory is \<open>None\<close> before it.\<close>

definition padding_init :: "(byte list \<Rightarrow> string) \<Rightarrow> (StringMap \<Rightarrow> StringMap) \<Rightarrow> PaddingFactory option" where
  "padding_init md5hex order = snd (UpdatePaddingScheme md5hex order defaultPaddingScheme None)"

section \<open>Drawing the sizes of a packet\<close>

text \<open>
  A random source: the numbers the next calls will draw, in order. \<open>rand.Int64N(n)\<close>
  panics when \<open>n \<le> 0\<close> and otherwise returns a number of \<open>[0, n)\<close>; every such
  number is the outcome of some raw draw.
\<close>

type_synonym rng = "nat \<Rightarrow> nat"

definition rng_next :: "rng \<Rightarrow> rng" where
  "rng_next r = (\<lambda>i. r (Suc i))"

definition Int64N :: "rng \<Rightarrow> int \<Rightarrow> (int \<times> rng) panics" where
  "Int64N r n = (if n \<le> 0 then None else Some (int (r 0) mod n, rng_next r))"

fun append_sizes :: "paddingRange list \<Rightarrow> int list \<Rightarrow> rng \<Rightarrow> (int list \<times> rng) panics" where
  "append_sizes [] buf rg = Some (buf, rg)"
| "append_sizes (r # rs) buf rg =
     (if isCheck r then append_sizes rs (buf @ [CheckMark]) rg
      else if range_min r = range_max r then append_sizes rs (buf @ [range_min r]) rg
      else (case Int64N rg (range_max r - range_min r) of
              None \<Rightarrow> None
            | Some (k, rg') \<Rightarrow> append_sizes rs (buf @ [k + range_min r]) rg'))"

definition AppendRecordPayloadSizes ::
  "PaddingFactory \<Rightarrow> u32 \<Rightarrow> int list \<Rightarrow> rng \<Rightarrow> (int list \<times> rng) panics" where
  "AppendRecordPayloadSizes p pkt buf rg =
     (case parsedRanges p pkt of
        None \<Rightarrow> Some (buf, rg)
      | Some ranges \<Rightarrow> append_sizes ranges buf rg)"

definition GenerateRecordPayloadSizes ::
  "PaddingFactory \<Rightarrow> u32 \<Rightarrow> rng \<Rightarrow> (int list \<times> rng) panics" where
  "GenerateRecordPayloadSizes p pkt rg = AppendRecordPayloadSizes p pkt [] rg"

section \<open>Well-formed factories\<close>

definition range_ok :: "paddingRange \<Rightarrow> bool" where
  "range_ok r \<longleftrightarrow> isCheck r \<or> (1 \<le> range_min r \<and> range_min r \<le> range_max r \<and> range_max r \<le> 65535)"

definition size_ok :: "int \<Rightarrow> bool" where
  "size_ok l \<longleftrightarrow> l = CheckMark \<or> (1 \<le> l \<and> l \<le> 65535)"

lemma parse_range_ok: "parse_range s = Some r \<Longrightarrow> range_ok r"
  by (auto simp: parse_range_def range_ok_def maxPaddingSize_def Let_def
      split: if_splits option.splits)

lemma list_all_map_filter:
  "(\<And>x y. f x = Some y \<Longrightarrow> P y) \<Longrightarrow> list_all P (List.map_filter f xs)"
  by (induction xs) (auto simp: List.map_filter_simps split: option.splits)

lemma parse_ranges_ok: "list_all range_ok (parse_ranges val)"
  unfolding parse_ranges_def by (rule list_all_map_filter) (rule parse_range_ok)

definition ranges_ok :: "(u32 \<rightharpoonup> paddingRange list) \<Rightarrow> bool" where
  "ranges_ok m \<longleftrightarrow> (\<forall>pkt rs. m pkt = Some rs \<longrightarrow> list_all range_ok rs)"

lemma ranges_ok_empty [simp]: "ranges_ok Map.empty"
  by (simp add: ranges_ok_def)

lemma add_entry_ok: "ranges_ok m \<Longrightarrow> ranges_ok (add_entry m kv)"
  by (auto simp: ranges_ok_def add_entry_def parse_ranges_ok split: option.splits)

lemma foldl_add_entry_ok: "ranges_ok m \<Longrightarrow> ranges_ok (foldl add_entry m kvs)"
  by (induction kvs arbitrary: m) (auto simp: add_entry_ok)

definition factory_ok :: "PaddingFactory \<Rightarrow> bool" where
  "factory_ok p \<longleftrightarrow> ranges_ok (parsedRanges p)"

lemma NewPaddingFactory_ok: "NewPaddingFactory md5hex order raw = Some p \<Longrightarrow> factory_ok p"
  by (auto simp: NewPaddingFactory_def factory_ok_def Let_def foldl_add_entry_ok
      split: if_splits option.splits)

lemma factory_okD: "factory_ok p \<Longrightarrow> parsedRanges p pkt = Some rs \<Longrightarrow> list_all range_ok rs"
  by (auto simp: factory_ok_def ranges_ok_def)

lemma append_sizes_ok:
  assumes "list_all range_ok rs"
  shows "\<exists>szs rg'. append_sizes rs buf rg = Some (buf @ szs, rg') \<and> length szs = length rs \<and>
           list_all2 (\<lambda>r l. if isCheck r then l = CheckMark
              else range_min r \<le> l \<and> l \<le> range_max r \<and> (range_min r < range_max r \<longrightarrow> l < range_max r)) rs szs"
  using assms
proof (induction rs arbitrary: buf rg)
  case Nil
  then show ?case by simp
next
  case (Cons r rs)
  let ?Q = "\<lambda>r l. if isCheck r then l = CheckMark
      else range_min r \<le> l \<and> l \<le> range_max r \<and> (range_min r < range_max r \<longrightarrow> l < range_max r)"
  have draw: "0 \<le> k mod n \<and> k mod n < n" if "0 < n" for k n :: int using that by simp
  have step: "\<exists>l rg'. append_sizes (r # rs) buf rg = append_sizes rs (buf @ [l]) rg' \<and> ?Q r l"
  proof (cases "isCheck r \<or> range_min r = range_max r")
    case True
    then show ?thesis by auto
  next
    case False
    with Cons.prems have "0 < range_max r - range_min r" by (auto simp: range_ok_def)
    then obtain k where k: "int (rg 0) mod (range_max r - range_min r) = k"
      and kb: "0 \<le> k" "k < range_max r - range_min r"
      using draw by blast
    show ?thesis
      using False kb by (intro exI [of _ "k + range_min r"] exI [of _ "rng_next rg"])
        (auto simp: Int64N_def k)
  qed
  then obtain l rg1 where l: "append_sizes (r # rs) buf rg = append_sizes rs (buf @ [l]) rg1" "?Q r l"
    by blast
  have "list_all range_ok rs" using Cons.prems by simp
  from Cons.IH [OF this, of "buf @ [l]" rg1] obtain szs rg' where
    "append_sizes rs (buf @ [l]) rg1 = Some (buf @ l # szs, rg')" "length szs = length rs"
    "list_all2 ?Q rs szs" by auto
  with l show ?case by (intro exI [of _ "l # szs"] exI [of _ rg']) auto
qed

lemma append_sizes_sizes_ok:
  assumes "list_all range_ok rs" and "append_sizes rs buf rg = Some (szs, rg')" and "list_all size_ok buf"
  shows "list_all size_ok szs"
proof -
  obtain ls where ls: "szs = buf @ ls" and
    q: "list_all2 (\<lambda>r l. if isCheck r then l = CheckMark
      else range_min r \<le> l \<and> l \<le> range_max r \<and> (range_min r < range_max r \<longrightarrow> l < range_max r)) rs ls"
    using append_sizes_ok [OF assms(1), of buf rg] assms(2) by auto
  have "list_all size_ok ls"
    using q assms(1)
    by (induction rule: list_all2_induct) (auto simp: size_ok_def range_ok_def split: if_splits)
  then show ?thesis using ls assms(3) by simp
qed

lemma AppendRecordPayloadSizes_total:
  assumes "factory_ok p"
  shows "\<exists>szs rg'. AppendRecordPayloadSizes p pkt buf rg = Some (buf @ szs, rg')"
proof (cases "parsedRanges p pkt")
  case None
  then show ?thesis by (simp add: AppendRecordPayloadSizes_def)
next
  case (Some rs)
  with append_sizes_ok [OF factory_okD [OF assms Some], of buf rg]
  show ?thesis by (auto simp: AppendRecordPayloadSizes_def)
qed

lemma append_sizes_acc:
  "append_sizes rs buf rg = map_option (\<lambda>(szs, rg'). (buf @ szs, rg')) (append_sizes rs [] rg)"
proof (induction rs arbitrary: buf rg)
  case Nil
  then show ?case by simp
next
  case (Cons r rs)
  show ?case
    by (auto simp: Cons [of "buf @ _"] Cons [of "[_]"] option.map_comp comp_def split_beta
        split: option.splits)
qed

lemma AppendRecordPayloadSizes_acc:
  "AppendRecordPayloadSizes p pkt buf rg =
     map_option (\<lambda>(szs, rg'). (buf @ szs, rg')) (AppendRecordPayloadSizes p pkt [] rg)"
  by (auto simp: AppendRecordPayloadSizes_def append_sizes_acc [of _ buf] split: option.splits)

lemma AppendRecordPayloadSizes_ok:
  assumes "factory_ok p" and "AppendRecordPayloadSizes p pkt buf rg = Some (szs, rg')"
    and "list_all size_ok buf"
  shows "list_all size_ok szs"
  using assms append_sizes_sizes_ok [OF factory_okD]
  by (auto simp: AppendRecordPayloadSizes_def split: option.splits)

text \<open>Equations that evaluate the parser on a concrete scheme.\<close>

lemmas number_eval = Atoi_def ParseInt_def ParseUint_def digit_val_def

lemmas ranges_eval = number_eval parse_ranges_def parse_range_def maxPaddingSize_def
  List.map_filter_simps

lemmas scheme_eval = ranges_eval NewPaddingFactory_def StringMapFromBytes_def add_line_entry
  line_entry_def sm_get_def add_entry_def

section \<open>Properties\<close>

text \<open>C18: a scheme that parses gives a factory whose draws never panic; every size drawn for
  a packet is the check mark or lies between 1 and 65535, so that a waste frame of that
  size fits its 16-bit length field and the zero buffer.\<close>

theorem padding_sizes_bounded:
  assumes "NewPaddingFactory md5hex order raw = Some p"
  shows "\<exists>szs rg'. AppendRecordPayloadSizes p pkt buf rg = Some (buf @ szs, rg') \<and> list_all size_ok szs"
proof -
  have ok: "factory_ok p" using assms by (rule NewPaddingFactory_ok)
  obtain szs rg' where szs: "AppendRecordPayloadSizes p pkt [] rg = Some (szs, rg')"
    using AppendRecordPayloadSizes_total [OF ok, of pkt "[]" rg] by auto
  then show ?thesis
    using AppendRecordPayloadSizes_ok [OF ok szs] by (simp add: AppendRecordPayloadSizes_acc [of p pkt buf])
qed

theorem padding_sizes_bounded_witness:
  "\<exists>p. NewPaddingFactory (\<lambda>_. '''') id (bytes_of_string ''stop=2'') = Some p \<and>
     (\<exists>szs rg'. AppendRecordPayloadSizes p 1 [] (\<lambda>_. 7) = Some ([] @ szs, rg') \<and> list_all size_ok szs)"
proof -
  obtain p where p: "NewPaddingFactory (\<lambda>_. '''') id (bytes_of_string ''stop=2'') = Some p"
    by (simp add: scheme_eval)
  with padding_sizes_bounded [OF p, of 1 "[]" "\<lambda>_. 7"] show ?thesis by blast
qed

text \<open>The entry of a packet, when the packet number is written once in the scheme.\<close>

definition entry_pkt :: "string \<times> string \<Rightarrow> u32 option" where
  "entry_pkt kv = map_option word_of_int (Atoi (fst kv))"

lemma foldl_add_entry_absent:
  "(\<And>kv. kv \<in> set kvs \<Longrightarrow> entry_pkt kv \<noteq> Some pkt) \<Longrightarrow> foldl add_entry m kvs pkt = m pkt"
proof (induction kvs arbitrary: m)
  case Nil
  then show ?case by simp
next
  case (Cons a kvs)
  then have "foldl add_entry (add_entry m a) kvs pkt = add_entry m a pkt" by simp
  moreover have "add_entry m a pkt = m pkt"
    using Cons.prems [of a] by (auto simp: add_entry_def entry_pkt_def split: option.splits)
  ultimately show ?case by simp
qed

lemma foldl_add_entry_unique:
  assumes "kv \<in> set kvs" and "entry_pkt kv = Some pkt"
    and "\<And>kv'. kv' \<in> set kvs \<Longrightarrow> entry_pkt kv' = Some pkt \<Longrightarrow> kv' = kv"
  shows "foldl add_entry m kvs pkt = Some (parse_ranges (snd kv))"
  using assms
proof (induction kvs arbitrary: m)
  case Nil
  then show ?case by simp
next
  case (Cons a kvs)
  show ?case
  proof (cases "kv \<in> set kvs")
    case True
    have "foldl add_entry (add_entry m a) kvs pkt = Some (parse_ranges (snd kv))"
      by (rule Cons.IH [OF True Cons.prems(2)]) (simp add: Cons.prems(3))
    then show ?thesis by simp
  next
    case False
    with Cons.prems have a: "a = kv" and "\<And>kv'. kv' \<in> set kvs \<Longrightarrow> entry_pkt kv' \<noteq> Some pkt" by auto
    then have "foldl add_entry (add_entry m a) kvs pkt = add_entry m a pkt"
      by (intro foldl_add_entry_absent)
    moreover have "add_entry m a pkt = Some (parse_ranges (snd kv))"
      using Cons.prems(2) a by (auto simp: add_entry_def entry_pkt_def)
    ultimately show ?thesis by simp
  qed
qed

text \<open>when a packet number is written by one key of the scheme only, its ranges are those
  of that line, in whatever order the runtime iterates over the parsed map.\<close>

theorem padding_entry_order_independent:
  assumes "NewPaddingFactory md5hex order raw = Some p"
    and "mset (order (StringMapFromBytes raw)) = mset (StringMapFromBytes raw)"
    and "map_of (StringMapFromBytes raw) k = Some v" and "Atoi k = Some i"
    and "\<And>k' v' j. map_of (StringMapFromBytes raw) k' = Some v' \<Longrightarrow> Atoi k' = Some j \<Longrightarrow>
            (word_of_int j :: u32) = word_of_int i \<Longrightarrow> k' = k"
  shows "parsedRanges p (word_of_int i) = Some (parse_ranges v)"
proof -
  let ?scheme = "StringMapFromBytes raw"
  have set_eq: "set (order ?scheme) = set ?scheme" using assms(2) by (rule mset_eq_setD)
  have p: "parsedRanges p = foldl add_entry Map.empty (order ?scheme)"
    using assms(1) by (auto simp: NewPaddingFactory_def Let_def split: if_splits option.splits)
  have lookup: "map_of ?scheme k' = Some v' \<longleftrightarrow> (k', v') \<in> set ?scheme" for k' v'
    using distinct_StringMapFromBytes by (rule map_of_eq_Some_iff)
  have "foldl add_entry Map.empty (order ?scheme) (word_of_int i) = Some (parse_ranges (snd (k, v)))"
  proof (rule foldl_add_entry_unique)
    show "(k, v) \<in> set (order ?scheme)" using assms(3) set_eq lookup by simp
    show "entry_pkt (k, v) = Some (word_of_int i)" using assms(4) by (simp add: entry_pkt_def)
  next
    fix kv assume kv: "kv \<in> set (order ?scheme)" "entry_pkt kv = Some (word_of_int i :: u32)"
    obtain k' v' where kv_eq: "kv = (k', v')" by (cases kv)
    then have look: "map_of ?scheme k' = Some v'" using kv(1) set_eq lookup by simp
    then have "k' = k" using kv(2) kv_eq assms(5) by (auto simp: entry_pkt_def)
    then show "kv = (k, v)" using look assms(3) kv_eq by simp
  qed
  then show ?thesis using p by simp
qed


theorem padding_entry_order_independent_witness:
  "\<exists>p. NewPaddingFactory (\<lambda>_. '''') rev (bytes_of_string (Join newline [''stop=3'', ''1=5-6''])) = Some p \<and>
     parsedRanges p 1 = Some (parse_ranges ''5-6'')"
proof -
  let ?raw = "bytes_of_string (Join newline [''stop=3'', ''1=5-6''])"
  have sm: "StringMapFromBytes ?raw = [(''stop'', ''3''), (''1'', ''5-6'')]"
    by (simp add: scheme_eval)
  obtain p where p: "NewPaddingFactory (\<lambda>_. '''') rev ?raw = Some p"
    by (simp add: scheme_eval)
  have "parsedRanges p (word_of_int 1) = Some (parse_ranges ''5-6'')"
  proof (rule padding_entry_order_independent [OF p, of "''1''" "''5-6''" 1], unfold sm)
    have "Atoi ''stop'' = None" by (simp add: number_eval)
    then show "k' = ''1''"
      if "map_of [(''stop'', ''3''), (''1'', ''5-6'')] k' = Some v'" "Atoi k' = Some j" for k' v' j
      using that by (auto split: if_splits)
  qed (simp_all add: number_eval)
  with p show ?thesis by auto
qed

lemma foldl_add_entry_perm:
  assumes "set kvs' = set kvs"
    and "\<And>kv kv'. kv \<in> set kvs \<Longrightarrow> kv' \<in> set kvs \<Longrightarrow> entry_pkt kv \<noteq> None \<Longrightarrow>
           entry_pkt kv = entry_pkt kv' \<Longrightarrow> kv = kv'"
  shows "foldl add_entry m kvs' = foldl add_entry m kvs"
proof
  fix pkt
  show "foldl add_entry m kvs' pkt = foldl add_entry m kvs pkt"
  proof (cases "\<exists>kv \<in> set kvs. entry_pkt kv = Some pkt")
    case True
    then obtain kv where kv: "kv \<in> set kvs" "entry_pkt kv = Some pkt" by blast
    have uniq: "kv' = kv" if "kv' \<in> set kvs" "entry_pkt kv' = Some pkt" for kv'
      using assms(2) [OF that(1) kv(1)] kv(2) that(2) by simp
    have "foldl add_entry m kvs' pkt = Some (parse_ranges (snd kv))"
      by (rule foldl_add_entry_unique) (use kv assms(1) uniq in blast)+
    moreover have "foldl add_entry m kvs pkt = Some (parse_ranges (snd kv))"
      by (rule foldl_add_entry_unique) (use kv uniq in blast)+
    ultimately show ?thesis by simp
  next
    case False
    then have "foldl add_entry m kvs' pkt = m pkt" "foldl add_entry m kvs pkt = m pkt"
      using assms(1) by (auto intro!: foldl_add_entry_absent)
    then show ?thesis by simp
  qed
qed

definition size_range :: "int \<Rightarrow> int \<Rightarrow> paddingRange" where
  "size_range lo hi = \<lparr>isCheck = False, range_min = lo, range_max = hi\<rparr>"

definition check_mark :: paddingRange where
  "check_mark = \<lparr>isCheck = True, range_min = 0, range_max = 0\<rparr>"

lemma default_scheme_map:
  "StringMapFromBytes defaultPaddingScheme =
     [(''stop'', ''8''), (''0'', ''30-30''), (''1'', ''100-400''),
      (''2'', ''400-500,c,500-1000,c,500-1000,c,500-1000,c,500-1000''),
      (''3'', ''9-9,500-1000''), (''4'', ''500-1000''), (''5'', ''500-1000''),
      (''6'', ''500-1000''), (''7'', ''500-1000'')]"
  by code_simp

lemma default_scheme_entries:
  "map entry_pkt (StringMapFromBytes defaultPaddingScheme) =
     [None, Some 0, Some 1, Some 2, Some 3, Some 4, Some 5, Some 6, Some 7]"
  by (simp add: default_scheme_map entry_pkt_def number_eval)

lemma parse_ranges_eval:
  "parse_ranges ''30-30'' = [size_range 30 30]"
  "parse_ranges ''100-400'' = [size_range 100 400]"
  "parse_ranges ''500-1000'' = [size_range 500 1000]"
  "parse_ranges ''9-9,500-1000'' = [size_range 9 9, size_range 500 1000]"
  "parse_ranges ''400-500,c,500-1000,c,500-1000,c,500-1000,c,500-1000'' =
     [size_range 400 500, check_mark, size_range 500 1000, check_mark, size_range 500 1000,
      check_mark, size_range 500 1000, check_mark, size_range 500 1000]"
  by (simp_all add: ranges_eval size_range_def check_mark_def)

lemma default_scheme_ranges:
  "foldl add_entry Map.empty (StringMapFromBytes defaultPaddingScheme) =
     [0 \<mapsto> [size_range 30 30], 1 \<mapsto> [size_range 100 400],
      2 \<mapsto> [size_range 400 500, check_mark, size_range 500 1000, check_mark, size_range 500 1000,
            check_mark, size_range 500 1000, check_mark, size_range 500 1000],
      3 \<mapsto> [size_range 9 9, size_range 500 1000], 4 \<mapsto> [size_range 500 1000],
      5 \<mapsto> [size_range 500 1000], 6 \<mapsto> [size_range 500 1000], 7 \<mapsto> [size_range 500 1000]]"
  by (simp add: default_scheme_map add_entry_def parse_ranges_eval number_eval)

text \<open>the built-in scheme parses, in every iteration order, to a factory that pads packets
  0 to 7 with exactly the ranges written in the source and stops at packet 8.\<close>

theorem default_scheme_factory:
  assumes "mset (order (StringMapFromBytes defaultPaddingScheme)) =
           mset (StringMapFromBytes defaultPaddingScheme)"
  shows "NewPaddingFactory md5hex order defaultPaddingScheme = Some
     \<lparr>parsedRanges =
        [0 \<mapsto> [size_range 30 30], 1 \<mapsto> [size_range 100 400],
         2 \<mapsto> [size_range 400 500, check_mark, size_range 500 1000, check_mark, size_range 500 1000,
               check_mark, size_range 500 1000, check_mark, size_range 500 1000],
         3 \<mapsto> [size_range 9 9, size_range 500 1000], 4 \<mapsto> [size_range 500 1000],
         5 \<mapsto> [size_range 500 1000], 6 \<mapsto> [size_range 500 1000], 7 \<mapsto> [size_range 500 1000]],
      RawScheme = defaultPaddingScheme, Stop = 8, Md5 = md5hex defaultPaddingScheme\<rparr>"
proof -
  let ?m = "StringMapFromBytes defaultPaddingScheme"
  have set_eq: "set (order ?m) = set ?m" using assms by (rule mset_eq_setD)
  have "distinct (map entry_pkt ?m)"
    unfolding default_scheme_entries by simp
  then have inj: "inj_on entry_pkt (set ?m)" by (simp add: distinct_map)
  have "foldl add_entry Map.empty (order ?m) = foldl add_entry Map.empty ?m"
    using set_eq by (rule foldl_add_entry_perm) (rule inj_onD [OF inj])
  moreover have "length ?m \<noteq> 0" "Atoi (sm_get ?m ''stop'') = Some 8"
    by (simp_all add: default_scheme_map number_eval sm_get_def)
  ultimately show ?thesis
    unfolding NewPaddingFactory_def Let_def by (simp add: default_scheme_ranges)
qed

theorem default_scheme_factory_witness:
  "map_option (\<lambda>p. parsedRanges p 4) (NewPaddingFactory (\<lambda>_. '''') rev defaultPaddingScheme) =
     Some (Some [size_range 500 1000])"
proof -
  have "mset (rev (StringMapFromBytes defaultPaddingScheme)) = mset (StringMapFromBytes defaultPaddingScheme)"
    by simp
  from default_scheme_factory [where order = rev, OF this, of "\<lambda>_. ''''"] show ?thesis by simp
qed

text \<open>the packet numbers \<open>1\<close> and \<open>01\<close> are two keys of the scheme and one key of the parsed
  ranges, so the iteration order of the runtime decides which line takes effect.\<close>

theorem padding_order_dependent:
  "map_option (\<lambda>p. parsedRanges p 1)
      (NewPaddingFactory md5hex id (bytes_of_string (Join newline [''stop=2'', ''1=10-10'', ''01=20-20'']))) =
    Some (Some [size_range 20 20]) \<and>
   map_option (\<lambda>p. parsedRanges p 1)
      (NewPaddingFactory md5hex rev (bytes_of_string (Join newline [''stop=2'', ''1=10-10'', ''01=20-20'']))) =
    Some (Some [size_range 10 10])"
  by (simp add: scheme_eval size_range_def)

text \<open>a scheme that does not parse leaves the current factory in force; one that parses
  replaces it by a factory that carries the raw scheme and its digest.\<close>

theorem UpdatePaddingScheme_cases:
  "UpdatePaddingScheme md5hex order raw cur =
     (case NewPaddingFactory md5hex order raw of None \<Rightarrow> (False, cur) | Some p \<Rightarrow> (True, Some p)) \<and>
   (case NewPaddingFactory md5hex order raw of
      None \<Rightarrow> StringMapFromBytes raw = [] \<or> Atoi (sm_get (StringMapFromBytes raw) ''stop'') = None
    | Some p \<Rightarrow> RawScheme p = raw \<and> Md5 p = md5hex raw \<and>
        map_option word_of_int (Atoi (sm_get (StringMapFromBytes raw) ''stop'')) = Some (Stop p))"
  by (auto simp: UpdatePaddingScheme_def NewPaddingFactory_def Let_def split: option.splits if_splits)

text \<open>From the start of the program on there is a factory, whatever schemes come in: the pointer
  the sessions load is never nil.\<close>

theorem padding_factory_present:
  assumes "\<And>m. mset (order m) = mset m"
  shows "foldl (\<lambda>cur raw. snd (UpdatePaddingScheme md5hex order raw cur)) (padding_init md5hex order) raws \<noteq> None"
proof (induction raws rule: rev_induct)
  case Nil
  show ?case using default_scheme_factory [where order = order, OF assms] by (simp add: padding_init_def UpdatePaddingScheme_def)
next
  case (snoc raw raws)
  then show ?case by (auto simp: UpdatePaddingScheme_def split: option.splits)
qed

end
