(* ===== verification/Deadline.thy ===== *)
theory Deadline
  imports Prelude
begin

text \<open>
  \<open>internal/pkg/proxy/pipe/deadline.go\<close>: the resettable deadline of a pipe end. A
  channel is a number; \<open>dl_closed\<close> lists the channels that have been closed and
  \<open>dl_next\<close> is the next fresh one. The time is an integer, \<open>None\<close> the zero time.
  The mutex makes \<open>Set\<close> atomic against other calls of \<open>Set\<close>; the timer's expiry and
  its callback, which take no lock, are steps of their own.
\<close>

section \<open>State\<close>

text \<open>
  The timer behind \<open>d.timer\<close>: running until its time, expired with the callback's
  goroutine not yet run, or expired with the callback done. \<open>time.Timer.Stop\<close> returns
  true in the first case only.
\<close>

datatype timer = Pending int | Fired | Ran

record PipeDeadline =
  dl_timer :: "timer option"
  dl_cancel :: nat
  dl_next :: nat
  dl_closed :: "nat list"

definition MakePipeDeadline :: PipeDeadline where
  "MakePipeDeadline = \<lparr>dl_timer = None, dl_cancel = 0, dl_next = 1, dl_closed = []\<rparr>"

definition isClosedChan :: "PipeDeadline \<Rightarrow> nat \<Rightarrow> bool" where
  "isClosedChan d c \<longleftrightarrow> c \<in> set (dl_closed d)"

text \<open>\<open>close(ch)\<close> panics on a closed channel.\<close>

definition close_chan :: "nat \<Rightarrow> PipeDeadline \<Rightarrow> PipeDeadline outcome" where
  "close_chan c d = (if isClosedChan d c then Panic else Ret (d\<lparr>dl_closed := c # dl_closed d\<rparr>))"

text \<open>\<open>ch := make(chan struct{}); d.cancel.Store(&ch)\<close>.\<close>

definition fresh_cancel :: "PipeDeadline \<Rightarrow> PipeDeadline" where
  "fresh_cancel d = d\<lparr>dl_cancel := dl_next d, dl_next := Suc (dl_next d)\<rparr>"

section \<open>Operations\<close>

definition timer_Stop :: "timer \<Rightarrow> bool" where
  "timer_Stop t = (case t of Pending _ \<Rightarrow> True | Fired \<Rightarrow> False | Ran \<Rightarrow> False)"

text \<open>
  \<open>Set\<close> at time \<open>now\<close>. If the old timer can no longer be stopped the call waits for its
  callback to close the channel (\<open>Block\<close> while that has not happened).
\<close>

definition deadline_Set :: "int \<Rightarrow> int option \<Rightarrow> PipeDeadline \<Rightarrow> PipeDeadline outcome" where
  "deadline_Set now t d0 =
     (let cancel = dl_cancel d0
      in if (case dl_timer d0 of None \<Rightarrow> False | Some tm \<Rightarrow> \<not> timer_Stop tm) \<and> \<not> isClosedChan d0 cancel
         then Block
         else
           (let d = d0\<lparr>dl_timer := None\<rparr>;
                closed = isClosedChan d cancel
            in case t of
                 None \<Rightarrow> Ret (if closed then fresh_cancel d else d)
               | Some t' \<Rightarrow>
                   if t' - now > 0
                   then Ret ((if closed then fresh_cancel d else d)\<lparr>dl_timer := Some (Pending t')\<rparr>)
                   else if \<not> closed then close_chan cancel d
                   else Ret d))"

text \<open>The function given to \<open>time.AfterFunc\<close>: \<open>close(*d.cancel.Load())\<close>.\<close>

definition timer_callback :: "PipeDeadline \<Rightarrow> PipeDeadline outcome" where
  "timer_callback d =
     (case close_chan (dl_cancel d) d of
        Ret d' \<Rightarrow> Ret (d'\<lparr>dl_timer := Some Ran\<rparr>)
      | Block \<Rightarrow> Block
      | Panic \<Rightarrow> Panic)"

definition deadline_Wait :: "PipeDeadline \<Rightarrow> nat" where
  "deadline_Wait d = dl_cancel d"

text \<open>The non-blocking receive \<open>case <-d.Wait():\<close> is ready.\<close>

definition deadline_passed :: "PipeDeadline \<Rightarrow> bool" where
  "deadline_passed d = isClosedChan d (deadline_Wait d)"

section \<open>Steps\<close>

inductive dl_step :: "PipeDeadline \<Rightarrow> PipeDeadline \<Rightarrow> bool" where
  dl_set: "deadline_Set now t d = Ret d' \<Longrightarrow> dl_step d d'"
| dl_expire: "dl_timer d = Some (Pending t) \<Longrightarrow> dl_step d (d\<lparr>dl_timer := Some Fired\<rparr>)"
| dl_callback: "dl_timer d = Some Fired \<Longrightarrow> timer_callback d = Ret d' \<Longrightarrow> dl_step d d'"

inductive dl_reachable :: "PipeDeadline \<Rightarrow> bool" where
  dl_init: "dl_reachable MakePipeDeadline"
| dl_next: "dl_reachable d \<Longrightarrow> dl_step d d' \<Longrightarrow> dl_reachable d'"

inductive_cases dl_stepE: "dl_step d d'"

section \<open>Invariant\<close>

text \<open>
  Channels are closed in the order they are made: all before the current one, and the
  current one too once the deadline has passed. A timer that has not run its callback
  goes with an open channel, one that has run it with a closed channel.
\<close>

definition dl_inv :: "PipeDeadline \<Rightarrow> bool" where
  "dl_inv d \<longleftrightarrow> dl_next d = Suc (dl_cancel d) \<and>
     (dl_closed d = rev [0..<dl_cancel d] \<and> dl_timer d \<noteq> Some Ran \<or>
      dl_closed d = rev [0..<Suc (dl_cancel d)] \<and> (dl_timer d = None \<or> dl_timer d = Some Ran))"

lemmas dl_defs = deadline_passed_def deadline_Wait_def isClosedChan_def close_chan_def
  fresh_cancel_def timer_callback_def deadline_Set_def timer_Stop_def Let_def

lemma dl_invE:
  assumes "dl_inv d"
  obtains (Open) "dl_closed d = rev [0..<dl_cancel d]" "dl_timer d \<noteq> Some Ran"
      "dl_next d = Suc (dl_cancel d)"
  | (Passed) "dl_closed d = rev [0..<Suc (dl_cancel d)]" "dl_timer d = None \<or> dl_timer d = Some Ran"
      "dl_next d = Suc (dl_cancel d)"
  using assms by (auto simp: dl_inv_def)

lemma dl_inv_init: "dl_inv MakePipeDeadline"
  by (simp add: dl_inv_def MakePipeDeadline_def dl_defs)

lemma dl_inv_Set: "dl_inv d \<Longrightarrow> deadline_Set now t d = Ret d' \<Longrightarrow> dl_inv d'"
  by (erule dl_invE) (auto simp: dl_inv_def dl_defs split: option.splits timer.splits if_splits)

lemma dl_inv_callback: "dl_inv d \<Longrightarrow> timer_callback d = Ret d' \<Longrightarrow> dl_inv d'"
  by (erule dl_invE) (auto simp: dl_inv_def dl_defs split: option.splits timer.splits if_splits)

lemma dl_inv_step: "dl_step d d' \<Longrightarrow> dl_inv d \<Longrightarrow> dl_inv d'"
proof (erule dl_stepE)
  fix t assume "dl_inv d" and "d' = d\<lparr>dl_timer := Some Fired\<rparr>" and "dl_timer d = Some (Pending t)"
  then show "dl_inv d'" by (auto simp: dl_inv_def)
qed (blast intro: dl_inv_Set dl_inv_callback)+

lemma dl_reachable_inv: "dl_reachable d \<Longrightarrow> dl_inv d"
  by (induction rule: dl_reachable.induct) (auto intro: dl_inv_init dl_inv_step)

section \<open>Properties\<close>


text \<open>A timer that has gone off while its callback has not run yet.\<close>

lemma dl_reach_fired:
  "dl_reachable \<lparr>dl_timer = Some Fired, dl_cancel = 0, dl_next = 1, dl_closed = []\<rparr>"
proof -
  let ?d1 = "MakePipeDeadline\<lparr>dl_timer := Some (Pending 5)\<rparr>"
  have "dl_step MakePipeDeadline ?d1"
    using dl_set [of 0 "Some 5" MakePipeDeadline ?d1] by (simp add: dl_defs MakePipeDeadline_def)
  moreover have "dl_step ?d1 (?d1\<lparr>dl_timer := Some Fired\<rparr>)" by (rule dl_expire [of _ 5]) simp
  ultimately have "dl_reachable (?d1\<lparr>dl_timer := Some Fired\<rparr>)" by (blast intro: dl_init dl_next)
  then show ?thesis by (simp add: MakePipeDeadline_def)
qed


text \<open>what a completed \<open>Set\<close> promises: the zero time clears the deadline, a time in the
  future arms one timer for it with the channel open, a time not in the future closes the
  channel at once; and while the deadline has not passed the channel a blocked reader or
  writer holds stays the current one.\<close>

theorem deadline_Set_effect:
  assumes "dl_reachable d" and "deadline_Set now t d = Ret d'"
  shows "(t = None \<longrightarrow> \<not> deadline_passed d' \<and> dl_timer d' = None) \<and>
         (\<forall>t'. t = Some t' \<and> now < t' \<longrightarrow> \<not> deadline_passed d' \<and> dl_timer d' = Some (Pending t')) \<and>
         (\<forall>t'. t = Some t' \<and> t' \<le> now \<longrightarrow> deadline_passed d' \<and> dl_timer d' = None) \<and>
         (\<not> deadline_passed d \<longrightarrow> deadline_Wait d' = deadline_Wait d)"
proof -
  have "dl_inv d" using assms(1) by (rule dl_reachable_inv)
  then show ?thesis using assms(2)
    by (cases rule: dl_invE) (auto simp: dl_defs split: option.splits timer.splits if_splits)
qed

theorem deadline_Set_effect_witness:
  "\<exists>d'. deadline_Set 3 (Some 9) MakePipeDeadline = Ret d' \<and>
     \<not> deadline_passed d' \<and> dl_timer d' = Some (Pending 9)"
proof -
  obtain d' where d': "deadline_Set 3 (Some 9) MakePipeDeadline = Ret d'"
    by (simp add: dl_defs MakePipeDeadline_def)
  with deadline_Set_effect [OF dl_init d'] show ?thesis by auto
qed

end
