(* ===== verification/Pipe.thy ===== *)
theory Pipe
  imports Deadline
begin

text \<open>
  \<open>internal/pkg/proxy/pipe/io_pipe.go\<close>: the buffered pipe behind a stream's receive
  side. This theory has its state and its operations, each as one atomic call that either
  returns or would block; \<open>PipeConc\<close> interleaves their critical sections. The mutex is
  not a field: a critical section is one update of the record. The two signal channels
  have capacity one, so each is a Boolean: a token is in it or not, and a send that finds
  it full is dropped.
\<close>

section \<open>A bounded byte queue, as an interface\<close>

text \<open>
  What a user of the pipe relies on: a queue of bounded capacity that accepts as much of a
  block as fits and gives bytes back in order.
\<close>

locale bounded_fifo =
  fixes contents :: "'q \<Rightarrow> 'a list"
    and capacity :: "'q \<Rightarrow> nat"
    and put :: "'a list \<Rightarrow> 'q \<Rightarrow> nat \<times> 'q"
    and get :: "nat \<Rightarrow> 'q \<Rightarrow> 'a list \<times> 'q"
    and inv :: "'q \<Rightarrow> bool"
  assumes put_count: "inv q \<Longrightarrow> fst (put xs q) = min (length xs) (capacity q - length (contents q))"
    and put_contents: "inv q \<Longrightarrow> contents (snd (put xs q)) = contents q @ take (fst (put xs q)) xs"
    and put_inv: "inv q \<Longrightarrow> inv (snd (put xs q))"
    and put_capacity: "capacity (snd (put xs q)) = capacity q"
    and get_bytes: "inv q \<Longrightarrow> fst (get n q) = take n (contents q)"
    and get_contents: "inv q \<Longrightarrow> contents (snd (get n q)) = drop n (contents q)"
    and get_inv: "inv q \<Longrightarrow> inv (snd (get n q))"
    and get_capacity: "capacity (snd (get n q)) = capacity q"
    and within_capacity: "inv q \<Longrightarrow> length (contents q) \<le> capacity q"
begin

lemmas fifo_laws = put_count put_contents put_inv put_capacity get_bytes get_contents get_inv get_capacity

lemma get_nonempty: "inv q \<Longrightarrow> contents q \<noteq> [] \<Longrightarrow> 0 < n \<Longrightarrow> fst (get n q) \<noteq> []"
  by (simp add: get_bytes)

lemma get_then_rest: "inv q \<Longrightarrow> fst (get n q) @ contents (snd (get n q)) = contents q"
  by (simp add: get_bytes get_contents)

lemma put_all: "inv q \<Longrightarrow> length (contents q) + length xs \<le> capacity q \<Longrightarrow>
    fst (put xs q) = length xs \<and> contents (snd (put xs q)) = contents q @ xs"
  by (simp add: put_count put_contents)

lemma put_progress: "inv q \<Longrightarrow> length (contents q) < capacity q \<Longrightarrow> xs \<noteq> [] \<Longrightarrow> 0 < fst (put xs q)"
  by (simp add: put_count)

lemma put_bounded: "inv q \<Longrightarrow> length (contents (snd (put xs q))) \<le> capacity q"
  using within_capacity [OF put_inv, of q xs] by (simp add: put_capacity)

end

section \<open>State\<close>

record pipe =
  p_buf :: "byte list"
  p_off :: nat
  p_done :: bool
  p_dataReady :: bool
  p_spaceReady :: bool
  p_rerr :: "go_error option"
  p_werr :: "go_error option"
  p_readDeadline :: PipeDeadline
  p_writeDeadline :: PipeDeadline
  p_maxBuf :: nat

definition defaultBufSize :: nat where
  "defaultBufSize = 256 * 1024"

definition Pipe :: pipe where
  "Pipe = \<lparr>p_buf = [], p_off = 0, p_done = False, p_dataReady = False, p_spaceReady = False,
           p_rerr = None, p_werr = None, p_readDeadline = MakePipeDeadline,
           p_writeDeadline = MakePipeDeadline, p_maxBuf = defaultBufSize\<rparr>"

section \<open>Building blocks\<close>

text \<open>\<open>onceError.Store\<close> keeps the first error.\<close>

definition onceError_Store :: "go_error \<Rightarrow> go_error option \<Rightarrow> go_error option" where
  "onceError_Store err a = (if a \<noteq> None then a else Some err)"

definition wakeReader :: "pipe \<Rightarrow> pipe" where
  "wakeReader p = p\<lparr>p_dataReady := True\<rparr>"

definition wakeWriter :: "pipe \<Rightarrow> pipe" where
  "wakeWriter p = p\<lparr>p_spaceReady := True\<rparr>"

definition bufLen :: "pipe \<Rightarrow> nat" where
  "bufLen p = length (p_buf p) - p_off p"

text \<open>\<open>consumeLocked(b)\<close> for a destination of \<open>n\<close> bytes: the bytes copied and the new state.\<close>

definition consumeLocked :: "nat \<Rightarrow> pipe \<Rightarrow> byte list \<times> pipe" where
  "consumeLocked n p =
     (let bytes = take n (drop (p_off p) (p_buf p));
          off' = p_off p + length bytes
      in (bytes,
          if off' = length (p_buf p) then p\<lparr>p_buf := [], p_off := 0\<rparr>
          else if off' > p_maxBuf p div 2 then p\<lparr>p_buf := drop off' (p_buf p), p_off := 0\<rparr>
          else p\<lparr>p_off := off'\<rparr>))"

text \<open>The append of \<open>write\<close>, as much as there is space for.\<close>

definition appendLocked :: "byte list \<Rightarrow> pipe \<Rightarrow> nat \<times> pipe" where
  "appendLocked b p =
     (let space = p_maxBuf p - bufLen p;
          toWrite = min (length b) space
      in (toWrite, p\<lparr>p_buf := p_buf p @ take toWrite b\<rparr>))"

definition readCloseError :: "pipe \<Rightarrow> go_error" where
  "readCloseError p =
     (case p_werr p of
        Some werr \<Rightarrow> if p_rerr p = None then werr else ErrClosedPipe
      | None \<Rightarrow> ErrClosedPipe)"

definition writeCloseError :: "pipe \<Rightarrow> go_error" where
  "writeCloseError p =
     (case p_rerr p of
        Some rerr \<Rightarrow> if p_werr p = None then rerr else ErrClosedPipe
      | None \<Rightarrow> ErrClosedPipe)"

section \<open>Closing\<close>

definition closeRead :: "go_error option \<Rightarrow> pipe \<Rightarrow> pipe" where
  "closeRead err p =
     (let err' = (case err of None \<Rightarrow> ErrClosedPipe | Some e \<Rightarrow> e)
      in wakeWriter (p\<lparr>p_rerr := onceError_Store err' (p_rerr p), p_done := True\<rparr>))"

definition closeWrite :: "go_error option \<Rightarrow> pipe \<Rightarrow> pipe" where
  "closeWrite err p =
     (let err' = (case err of None \<Rightarrow> ErrEOF | Some e \<Rightarrow> e)
      in wakeReader (p\<lparr>p_werr := onceError_Store err' (p_werr p), p_done := True\<rparr>))"

text \<open>\<open>PipeReader.Close\<close> and \<open>PipeWriter.Close\<close>.\<close>

definition PipeReader_Close :: "pipe \<Rightarrow> pipe" where
  "PipeReader_Close p = closeRead None p"

definition PipeWriter_Close :: "pipe \<Rightarrow> pipe" where
  "PipeWriter_Close p = closeWrite None p"

section \<open>Reading and writing\<close>

text \<open>
  \<open>read(b)\<close> for a buffer of \<open>n\<close> bytes, run on its own: the bytes delivered with the
  error, or \<open>Block\<close> when it would wait in its \<open>select\<close> (having taken a left-over token).
\<close>

definition pipe_read :: "nat \<Rightarrow> pipe \<Rightarrow> ((byte list \<times> go_error option) \<times> pipe) outcome" where
  "pipe_read n p =
     (if deadline_passed (p_readDeadline p) then Ret (([], Some ErrDeadlineExceeded), p)
      else if bufLen p > 0 then
        (case consumeLocked n p of (bytes, p') \<Rightarrow> Ret ((bytes, None), wakeWriter p'))
      else if p_done p then Ret (([], Some (readCloseError p)), p)
      else Block)"

text \<open>
  \<open>write(b)\<close> run on its own: the loop appends what fits; with the buffer full it returns
  the close error, or waits. \<open>Inr\<close> is the state in which it waits, with the bytes still
  to be written and the count so far; a wake-up token left over from before is taken by
  the first round of the \<open>select\<close>. The loop is entered again when the wait ends with a
  token.
\<close>

definition write_loop ::
  "byte list \<Rightarrow> nat \<Rightarrow> pipe \<Rightarrow> (nat \<times> go_error option) \<times> pipe + (byte list \<times> nat) \<times> pipe" where
  "write_loop b n p =
     (if b = [] then Inl ((n, None), p)
      else
        (let (k, p1) = (if bufLen p < p_maxBuf p then
                          (let (toWrite, p') = appendLocked b p in (toWrite, wakeReader p'))
                        else (0, p));
             b' = drop k b
         in if b' = [] then Inl ((n + k, None), p1)
            else if p_done p1 then Inl ((n + k, Some (writeCloseError p1)), p1)
            else Inr ((b', n + k), p1\<lparr>p_spaceReady := False\<rparr>)))"

definition pipe_write ::
  "byte list \<Rightarrow> pipe \<Rightarrow> (nat \<times> go_error option) \<times> pipe + (byte list \<times> nat) \<times> pipe" where
  "pipe_write b p =
     (if p_done p then Inl ((0, Some (writeCloseError p)), p)
      else if deadline_passed (p_writeDeadline p) then Inl ((0, Some ErrDeadlineExceeded), p)
      else write_loop b 0 p)"

text \<open>\<open>SetReadDeadline\<close> and \<open>SetWriteDeadline\<close> fail once the pipe is closed.\<close>

definition SetReadDeadline :: "int \<Rightarrow> int option \<Rightarrow> pipe \<Rightarrow> (go_error option \<times> pipe) outcome" where
  "SetReadDeadline now t p =
     (if p_done p then Ret (Some ErrClosedPipe, p)
      else (case deadline_Set now t (p_readDeadline p) of
              Ret d \<Rightarrow> Ret (None, p\<lparr>p_readDeadline := d\<rparr>)
            | Block \<Rightarrow> Block | Panic \<Rightarrow> Panic))"

definition SetWriteDeadline :: "int \<Rightarrow> int option \<Rightarrow> pipe \<Rightarrow> (go_error option \<times> pipe) outcome" where
  "SetWriteDeadline now t p =
     (if p_done p then Ret (Some ErrClosedPipe, p)
      else (case deadline_Set now t (p_writeDeadline p) of
              Ret d \<Rightarrow> Ret (None, p\<lparr>p_writeDeadline := d\<rparr>)
            | Block \<Rightarrow> Block | Panic \<Rightarrow> Panic))"

section \<open>The pipe is a bounded queue\<close>

definition unread :: "pipe \<Rightarrow> byte list" where
  "unread p = drop (p_off p) (p_buf p)"

text \<open>
  The read offset stays within the buffer and within half the limit, so the backing slice
  holds at most one and a half times \<open>maxBuf\<close> bytes.
\<close>

definition pipe_inv :: "pipe \<Rightarrow> bool" where
  "pipe_inv p \<longleftrightarrow> p_off p \<le> length (p_buf p) \<and> p_off p \<le> p_maxBuf p div 2 \<and>
     length (unread p) \<le> p_maxBuf p"

lemma bufLen_unread: "bufLen p = length (unread p)"
  by (simp add: bufLen_def unread_def)

lemma unread_updates [simp]:
  "unread (p\<lparr>p_done := x\<rparr>) = unread p" "unread (p\<lparr>p_dataReady := t\<rparr>) = unread p"
  "unread (p\<lparr>p_spaceReady := t\<rparr>) = unread p" "unread (p\<lparr>p_rerr := e\<rparr>) = unread p"
  "unread (p\<lparr>p_werr := e\<rparr>) = unread p" "unread (p\<lparr>p_readDeadline := d\<rparr>) = unread p"
  "unread (p\<lparr>p_writeDeadline := d\<rparr>) = unread p"
  by (simp_all add: unread_def)

lemma pipe_inv_updates [simp]:
  "pipe_inv (p\<lparr>p_done := x\<rparr>) = pipe_inv p" "pipe_inv (p\<lparr>p_dataReady := t\<rparr>) = pipe_inv p"
  "pipe_inv (p\<lparr>p_spaceReady := t\<rparr>) = pipe_inv p" "pipe_inv (p\<lparr>p_rerr := e\<rparr>) = pipe_inv p"
  "pipe_inv (p\<lparr>p_werr := e\<rparr>) = pipe_inv p" "pipe_inv (p\<lparr>p_readDeadline := d\<rparr>) = pipe_inv p"
  "pipe_inv (p\<lparr>p_writeDeadline := d\<rparr>) = pipe_inv p"
  by (simp_all add: pipe_inv_def)

lemma consumeLocked_bytes: "fst (consumeLocked n p) = take n (unread p)"
  by (simp add: consumeLocked_def unread_def Let_def)

lemma consumeLocked_unread:
  "p_off p \<le> length (p_buf p) \<Longrightarrow> unread (snd (consumeLocked n p)) = drop n (unread p)"
  by (auto simp: consumeLocked_def unread_def Let_def min_def add.commute)

lemma consumeLocked_frame [simp]:
  "p_maxBuf (snd (consumeLocked n p)) = p_maxBuf p"
  "p_done (snd (consumeLocked n p)) = p_done p"
  "p_dataReady (snd (consumeLocked n p)) = p_dataReady p"
  "p_spaceReady (snd (consumeLocked n p)) = p_spaceReady p"
  "p_rerr (snd (consumeLocked n p)) = p_rerr p"
  "p_werr (snd (consumeLocked n p)) = p_werr p"
  "p_readDeadline (snd (consumeLocked n p)) = p_readDeadline p"
  "p_writeDeadline (snd (consumeLocked n p)) = p_writeDeadline p"
  by (simp_all add: consumeLocked_def Let_def)

lemma consumeLocked_inv: "pipe_inv p \<Longrightarrow> pipe_inv (snd (consumeLocked n p))"
  by (auto simp: pipe_inv_def consumeLocked_def unread_def Let_def)

lemma appendLocked_count:
  "fst (appendLocked b p) = min (length b) (p_maxBuf p - length (unread p))"
  by (simp add: appendLocked_def bufLen_unread Let_def)

lemma appendLocked_unread:
  "p_off p \<le> length (p_buf p) \<Longrightarrow>
   unread (snd (appendLocked b p)) = unread p @ take (fst (appendLocked b p)) b"
  by (simp add: appendLocked_def unread_def Let_def)

lemma appendLocked_frame [simp]:
  "p_maxBuf (snd (appendLocked b p)) = p_maxBuf p"
  "p_done (snd (appendLocked b p)) = p_done p"
  "p_dataReady (snd (appendLocked b p)) = p_dataReady p"
  "p_spaceReady (snd (appendLocked b p)) = p_spaceReady p"
  "p_rerr (snd (appendLocked b p)) = p_rerr p"
  "p_werr (snd (appendLocked b p)) = p_werr p"
  "p_readDeadline (snd (appendLocked b p)) = p_readDeadline p"
  "p_writeDeadline (snd (appendLocked b p)) = p_writeDeadline p"
  by (simp_all add: appendLocked_def Let_def)

lemma appendLocked_inv: "pipe_inv p \<Longrightarrow> pipe_inv (snd (appendLocked b p))"
  by (auto simp: pipe_inv_def appendLocked_def unread_def bufLen_def Let_def)

lemma pipe_inv_off: "pipe_inv p \<Longrightarrow> p_off p \<le> length (p_buf p)"
  by (simp add: pipe_inv_def)

interpretation pipeq: bounded_fifo unread p_maxBuf appendLocked consumeLocked pipe_inv
  by unfold_locales
     (auto simp: consumeLocked_bytes consumeLocked_unread appendLocked_count appendLocked_unread
       pipe_inv_off consumeLocked_inv appendLocked_inv, simp add: pipe_inv_def)

lemma pipe_inv_Pipe [simp]: "pipe_inv Pipe"
  by (simp add: pipe_inv_def Pipe_def unread_def)

lemma closeRead_unread [simp]:
  "unread (closeRead e p) = unread p" "unread (closeWrite e p) = unread p"
  "pipe_inv (closeRead e p) = pipe_inv p" "pipe_inv (closeWrite e p) = pipe_inv p"
  "p_done (closeRead e p)" "p_done (closeWrite e p)"
  by (simp_all add: closeRead_def closeWrite_def wakeWriter_def wakeReader_def Let_def)

section \<open>Properties\<close>

text \<open>\<open>consumeLocked\<close> refines taking bytes off the front of a queue on each of its three
  branches (emptied, compacted, advanced), and after every operation the backing slice is
  at most one and a half times the limit.\<close>

theorem consumeLocked_refines_queue:
  assumes "pipe_inv p" and "consumeLocked n p = (bytes, p')"
  shows "bytes = take n (unread p) \<and> unread p' = drop n (unread p) \<and> pipe_inv p' \<and>
         length (p_buf p') \<le> p_maxBuf p + p_maxBuf p div 2"
proof -
  have p': "p' = snd (consumeLocked n p)" and b: "bytes = fst (consumeLocked n p)"
    using assms(2) by simp_all
  have inv: "pipe_inv p'" using pipeq.get_inv [OF assms(1)] p' by simp
  have "length (p_buf p') = p_off p' + length (unread p')"
    using inv by (simp add: pipe_inv_def unread_def)
  then have "length (p_buf p') \<le> p_maxBuf p + p_maxBuf p div 2"
    using inv p' by (simp add: pipe_inv_def)
  then show ?thesis
    using inv p' b assms(1) by (simp add: pipeq.get_bytes pipeq.get_contents)
qed

theorem consumeLocked_refines_queue_witness:
  "unread (snd (consumeLocked 2 (Pipe\<lparr>p_buf := [1, 2, 3], p_maxBuf := 3\<rparr>))) = [3]"
proof -
  let ?p = "Pipe\<lparr>p_buf := [1, 2, 3], p_maxBuf := 3\<rparr>"
  have "pipe_inv ?p" by (simp add: pipe_inv_def unread_def Pipe_def)
  from consumeLocked_refines_queue [OF this surjective_pairing, of 2]
  show ?thesis by (simp add: unread_def Pipe_def)
qed

text \<open>The loop of \<open>write\<close> on an open pipe: all of the data, or as much as fills the buffer.\<close>

lemma write_loop_spec:
  assumes "pipe_inv p" and "\<not> p_done p"
  shows "(\<exists>p'. write_loop b n p = Inl ((n + length b, None), p') \<and> unread p' = unread p @ b \<and> pipe_inv p') \<or>
    (\<exists>k p'. write_loop b n p = Inr ((drop k b, n + k), p') \<and> k < length b \<and>
        unread p' = unread p @ take k b \<and> pipe_inv p' \<and> length (unread p') = p_maxBuf p)"
proof (cases "b = []")
  case True
  then show ?thesis using assms by (simp add: write_loop_def)
next
  case False
  let ?k = "fst (appendLocked b p)" and ?q = "snd (appendLocked b p)"
  have len: "length (unread p) \<le> p_maxBuf p" using assms(1) by (rule pipeq.within_capacity)
  show ?thesis
  proof (cases "length (unread p) < p_maxBuf p")
    case full: False
    then show ?thesis
      using False assms len
      by (intro disjI2 exI [of _ 0] exI [of _ "p\<lparr>p_spaceReady := False\<rparr>"])
         (simp add: write_loop_def bufLen_unread)
  next
    case room: True
    have k: "?k = min (length b) (p_maxBuf p - length (unread p))" by (rule appendLocked_count)
    have cont: "unread ?q = unread p @ take ?k b" "pipe_inv ?q"
      using assms(1) by (simp_all add: pipeq.put_contents pipeq.put_inv)
    show ?thesis
    proof (cases "length b \<le> p_maxBuf p - length (unread p)")
      case True
      then show ?thesis
        using False room assms k cont
        by (intro disjI1 exI [of _ "wakeReader ?q"])
           (simp add: write_loop_def bufLen_unread split_beta wakeReader_def)
    next
      case more: False
      then show ?thesis
        using False room assms k cont
        by (intro disjI2 exI [of _ ?k] exI [of _ "(wakeReader ?q)\<lparr>p_spaceReady := False\<rparr>"])
           (simp add: write_loop_def bufLen_unread split_beta wakeReader_def)
    qed
  qed
qed

text \<open>a write run on its own appends a prefix of its data and returns its length; it
  reports success exactly when everything was written, and it waits or fails only with the
  buffer full (or when the pipe was closed or late before it began).\<close>

theorem pipe_write_spec:
  assumes "pipe_inv p"
  shows "case pipe_write b p of
      Inl ((n, err), p') \<Rightarrow>
        n \<le> length b \<and> unread p' = unread p @ take n b \<and> pipe_inv p' \<and>
        (err = None \<longleftrightarrow> \<not> p_done p \<and> \<not> deadline_passed (p_writeDeadline p)) \<and>
        (if err = None then n = length b else n = 0 \<and> p' = p)
    | Inr ((b', n), p') \<Rightarrow>
        n < length b \<and> b' = drop n b \<and> unread p' = unread p @ take n b \<and> pipe_inv p' \<and>
        length (unread p') = p_maxBuf p"
proof (cases "p_done p \<or> deadline_passed (p_writeDeadline p)")
  case True
  then show ?thesis using assms by (auto simp: pipe_write_def)
next
  case False
  then show ?thesis
    using write_loop_spec [OF assms, of b 0] by (auto simp: pipe_write_def)
qed

theorem pipe_write_spec_witness:
  "case pipe_write [1, 2, 3] (Pipe\<lparr>p_maxBuf := 2\<rparr>) of
      Inl _ \<Rightarrow> False
    | Inr ((b', n), p') \<Rightarrow> n < 3 \<and> b' = drop n [1, 2, 3] \<and> length (unread p') = 2"
proof -
  have "pipe_inv (Pipe\<lparr>p_maxBuf := 2\<rparr>)" by (simp add: pipe_inv_def unread_def Pipe_def)
  from pipe_write_spec [OF this, of "[1, 2, 3]"] show ?thesis
    by (auto simp: pipe_write_def write_loop_def appendLocked_def wakeReader_def Pipe_def Let_def
        bufLen_def deadline_passed_def isClosedChan_def MakePipeDeadline_def deadline_Wait_def
        split: sum.splits)
qed

text \<open>closing never loses buffered data: after either end is closed, reads deliver what
  was buffered, in order, before any read reports the close, and the error is the writer's
  only when the reader's side was not closed.\<close>

theorem pipe_read_after_close:
  assumes "pipe_inv p" and "\<not> deadline_passed (p_readDeadline p)" and "p_done p" and "0 < n"
  shows "\<exists>bytes err p'. pipe_read n p = Ret ((bytes, err), p') \<and>
           bytes @ unread p' = unread p \<and> length bytes = min n (length (unread p)) \<and>
           (err = None \<longleftrightarrow> unread p \<noteq> []) \<and>
           (err \<noteq> None \<longrightarrow> err = Some (case p_werr p of Some e \<Rightarrow> if p_rerr p = None then e else ErrClosedPipe
                                                   | None \<Rightarrow> ErrClosedPipe))"
proof (cases "unread p = []")
  case True
  then show ?thesis using assms by (auto simp: pipe_read_def bufLen_unread readCloseError_def)
next
  case False
  then have "bufLen p > 0" by (simp add: bufLen_unread)
  then show ?thesis using assms False
    by (auto simp: pipe_read_def split_beta wakeWriter_def pipeq.get_bytes pipeq.get_contents)
qed

theorem pipe_read_after_close_witness:
  "\<exists>bytes err p'. pipe_read 4 (closeWrite None (Pipe\<lparr>p_buf := [7, 8]\<rparr>)) = Ret ((bytes, err), p') \<and>
     bytes @ unread p' = [7, 8]"
proof -
  let ?p = "closeWrite None (Pipe\<lparr>p_buf := [7, 8]\<rparr>)"
  have "pipe_inv ?p" "\<not> deadline_passed (p_readDeadline ?p)" "p_done ?p" "0 < (4::nat)"
    by (simp_all add: pipe_inv_def unread_def Pipe_def defaultBufSize_def closeWrite_def wakeReader_def
        Let_def deadline_passed_def isClosedChan_def MakePipeDeadline_def)
  from pipe_read_after_close [OF this] show ?thesis
    by (auto simp: closeWrite_def wakeReader_def Let_def unread_def Pipe_def)
qed

end
