(* ===== verification/PipeConc.thy ===== *)
theory PipeConc
  imports Pipe
begin

text \<open>
  \<open>io_pipe.go\<close> as a concurrent program: one reader, one writer, a closer for each end and
  the deadline timers interleave at the granularity of the code's critical sections,
  channel operations and \<open>onceError\<close> accesses. A thread is a program counter. The reader
  is the stream's user, the writer is the session's receive loop; the repository never has
  two of either on one pipe.
\<close>

section \<open>Threads\<close>

text \<open>
  The reader in \<open>read(b)\<close> with \<open>n = len(b)\<close>. \<open>RSelect\<close> holds the deadline channel it
  evaluated when it began to wait.
\<close>

datatype rpc =
    RIdle
  | RTop nat                        \<comment> \<open>the non-blocking look at the deadline\<close>
  | RLock nat                       \<comment> \<open>the critical section\<close>
  | RWake "byte list"               \<comment> \<open>\<open>wakeWriterLocked\<close> after the unlock\<close>
  | RSelect nat nat                 \<comment> \<open>the blocking \<open>select\<close>\<close>
  | RDrain nat                      \<comment> \<open>woken by \<open>done\<close>\<close>
  | RErr                            \<comment> \<open>\<open>readCloseError\<close>, before \<open>rerr.Load\<close>\<close>
  | RErr2 "go_error option"         \<comment> \<open>before \<open>werr.Load\<close>\<close>
  | RRet "byte list" "go_error option"

text \<open>The writer in \<open>write(b)\<close>: the bytes left, the count so far.\<close>

datatype wpc =
    WIdle
  | WStart "byte list"
  | WTop "byte list" nat
  | WWake "byte list" nat           \<comment> \<open>\<open>wakeReaderLocked\<close> after the unlock\<close>
  | WSelect "byte list" nat nat
  | WErr nat
  | WErr2 nat "go_error option"
  | WRet nat "go_error option"

text \<open>A closer: about to store its error, about to close \<open>done\<close>, about to wake the other side.\<close>

datatype cpc = CIdle | CStored | CClosed

inductive reader_step :: "pipe \<Rightarrow> rpc \<Rightarrow> pipe \<Rightarrow> rpc \<Rightarrow> bool" where
  r_late: "deadline_passed (p_readDeadline p) \<Longrightarrow>
     reader_step p (RTop n) p (RRet [] (Some ErrDeadlineExceeded))"
| r_enter: "\<not> deadline_passed (p_readDeadline p) \<Longrightarrow> reader_step p (RTop n) p (RLock n)"
| r_data: "bufLen p > 0 \<Longrightarrow> consumeLocked n p = (bytes, p') \<Longrightarrow>
     reader_step p (RLock n) p' (RWake bytes)"
| r_closed: "bufLen p = 0 \<Longrightarrow> p_done p \<Longrightarrow> reader_step p (RLock n) p RErr"
| r_wait: "bufLen p = 0 \<Longrightarrow> \<not> p_done p \<Longrightarrow>
     reader_step p (RLock n) p (RSelect n (deadline_Wait (p_readDeadline p)))"
| r_wake: "reader_step p (RWake bytes) (wakeWriter p) (RRet bytes None)"
| r_sel_data: "p_dataReady p \<Longrightarrow> reader_step p (RSelect n c) (p\<lparr>p_dataReady := False\<rparr>) (RTop n)"
| r_sel_done: "p_done p \<Longrightarrow> reader_step p (RSelect n c) p (RDrain n)"
| r_sel_late: "isClosedChan (p_readDeadline p) c \<Longrightarrow>
     reader_step p (RSelect n c) p (RRet [] (Some ErrDeadlineExceeded))"
| r_drain: "bufLen p > 0 \<Longrightarrow> consumeLocked n p = (bytes, p') \<Longrightarrow>
     reader_step p (RDrain n) p' (RRet bytes None)"
| r_drained: "bufLen p = 0 \<Longrightarrow> reader_step p (RDrain n) p RErr"
| r_err: "reader_step p RErr p (RErr2 (p_rerr p))"
| r_err2: "reader_step p (RErr2 rerr) p
     (RRet [] (Some (case p_werr p of Some werr \<Rightarrow> if rerr = None then werr else ErrClosedPipe
                                    | None \<Rightarrow> ErrClosedPipe)))"

inductive writer_step :: "pipe \<Rightarrow> wpc \<Rightarrow> pipe \<Rightarrow> wpc \<Rightarrow> bool" where
  w_start_done: "p_done p \<Longrightarrow> writer_step p (WStart b) p (WErr 0)"
| w_start_late: "deadline_passed (p_writeDeadline p) \<Longrightarrow>
     writer_step p (WStart b) p (WRet 0 (Some ErrDeadlineExceeded))"
| w_start: "\<not> p_done p \<Longrightarrow> \<not> deadline_passed (p_writeDeadline p) \<Longrightarrow>
     writer_step p (WStart b) p (WTop b 0)"
| w_end: "writer_step p (WTop [] n) p (WRet n None)"
| w_put: "b \<noteq> [] \<Longrightarrow> bufLen p < p_maxBuf p \<Longrightarrow> appendLocked b p = (k, p') \<Longrightarrow>
     writer_step p (WTop b n) p' (WWake (drop k b) (n + k))"
| w_full_done: "b \<noteq> [] \<Longrightarrow> \<not> bufLen p < p_maxBuf p \<Longrightarrow> p_done p \<Longrightarrow> writer_step p (WTop b n) p (WErr n)"
| w_full: "b \<noteq> [] \<Longrightarrow> \<not> bufLen p < p_maxBuf p \<Longrightarrow> \<not> p_done p \<Longrightarrow>
     writer_step p (WTop b n) p (WSelect b n (deadline_Wait (p_writeDeadline p)))"
| w_wake: "writer_step p (WWake b n) (wakeReader p) (WTop b n)"
| w_sel_space: "p_spaceReady p \<Longrightarrow> writer_step p (WSelect b n c) (p\<lparr>p_spaceReady := False\<rparr>) (WTop b n)"
| w_sel_done: "p_done p \<Longrightarrow> writer_step p (WSelect b n c) p (WErr n)"
| w_sel_late: "isClosedChan (p_writeDeadline p) c \<Longrightarrow>
     writer_step p (WSelect b n c) p (WRet n (Some ErrDeadlineExceeded))"
| w_err: "writer_step p (WErr n) p (WErr2 n (p_werr p))"
| w_err2: "writer_step p (WErr2 n werr) p
     (WRet n (Some (case p_rerr p of Some rerr \<Rightarrow> if werr = None then rerr else ErrClosedPipe
                                   | None \<Rightarrow> ErrClosedPipe)))"

section \<open>The whole pipe\<close>

text \<open>
  Besides the shared pipe and the threads the state records, for the properties only, the
  bytes ever appended to the buffer, the bytes returned by finished reads, and for the
  current write its data and what had been appended before it.
\<close>

record psys =
  sp :: pipe
  sr :: rpc
  sw :: wpc
  sclR :: cpc
  sclW :: cpc
  g_written :: "byte list"
  g_read :: "byte list"
  g_call :: "byte list"
  g_base :: "byte list"

definition psys_init :: "nat \<Rightarrow> psys" where
  "psys_init m = \<lparr>sp = Pipe\<lparr>p_maxBuf := m\<rparr>, sr = RIdle, sw = WIdle, sclR = CIdle, sclW = CIdle,
                  g_written = [], g_read = [], g_call = [], g_base = []\<rparr>"

text \<open>The bytes a writer step appends: what the unread part grew by.\<close>

definition appended :: "pipe \<Rightarrow> wpc \<Rightarrow> byte list" where
  "appended p w =
     (case w of
        WTop b n \<Rightarrow> if b \<noteq> [] \<and> bufLen p < p_maxBuf p then take (fst (appendLocked b p)) b else []
      | _ \<Rightarrow> [])"

inductive pstep :: "psys \<Rightarrow> psys \<Rightarrow> bool" where
  p_call_read: "sr s = RIdle \<Longrightarrow> pstep s (s\<lparr>sr := RTop n\<rparr>)"
| p_reader: "reader_step (sp s) (sr s) p' r' \<Longrightarrow> pstep s (s\<lparr>sp := p', sr := r'\<rparr>)"
| p_return_read: "sr s = RRet bytes err \<Longrightarrow> pstep s (s\<lparr>sr := RIdle, g_read := g_read s @ bytes\<rparr>)"
| p_call_write: "sw s = WIdle \<Longrightarrow>
     pstep s (s\<lparr>sw := WStart b, g_call := b, g_base := g_written s\<rparr>)"
| p_writer: "writer_step (sp s) (sw s) p' w' \<Longrightarrow>
     pstep s (s\<lparr>sp := p', sw := w', g_written := g_written s @ appended (sp s) (sw s)\<rparr>)"
| p_return_write: "sw s = WRet n err \<Longrightarrow> pstep s (s\<lparr>sw := WIdle\<rparr>)"
| p_closeR_store: "sclR s = CIdle \<Longrightarrow>
     pstep s (s\<lparr>sclR := CStored, sp := (sp s)\<lparr>p_rerr := onceError_Store e (p_rerr (sp s))\<rparr>\<rparr>)"
| p_closeR_done: "sclR s = CStored \<Longrightarrow> pstep s (s\<lparr>sclR := CClosed, sp := (sp s)\<lparr>p_done := True\<rparr>\<rparr>)"
| p_closeR_wake: "sclR s = CClosed \<Longrightarrow> pstep s (s\<lparr>sclR := CIdle, sp := wakeWriter (sp s)\<rparr>)"
| p_closeW_store: "sclW s = CIdle \<Longrightarrow>
     pstep s (s\<lparr>sclW := CStored, sp := (sp s)\<lparr>p_werr := onceError_Store e (p_werr (sp s))\<rparr>\<rparr>)"
| p_closeW_done: "sclW s = CStored \<Longrightarrow> pstep s (s\<lparr>sclW := CClosed, sp := (sp s)\<lparr>p_done := True\<rparr>\<rparr>)"
| p_closeW_wake: "sclW s = CClosed \<Longrightarrow> pstep s (s\<lparr>sclW := CIdle, sp := wakeReader (sp s)\<rparr>)"
| p_readDeadline: "dl_step (p_readDeadline (sp s)) d \<Longrightarrow>
     pstep s (s\<lparr>sp := (sp s)\<lparr>p_readDeadline := d\<rparr>\<rparr>)"
| p_writeDeadline: "dl_step (p_writeDeadline (sp s)) d \<Longrightarrow>
     pstep s (s\<lparr>sp := (sp s)\<lparr>p_writeDeadline := d\<rparr>\<rparr>)"

inductive preach :: "nat \<Rightarrow> psys \<Rightarrow> bool" for m where
  preach_init: "preach m (psys_init m)"
| preach_step: "preach m s \<Longrightarrow> pstep s s' \<Longrightarrow> preach m s'"

inductive_cases reader_stepE: "reader_step p r p' r'"
inductive_cases writer_stepE: "writer_step p w p' w'"
inductive_cases pstepE: "pstep s s'"
inductive_simps reader_select_simps: "reader_step p (RSelect n c) p' r'"
inductive_simps writer_select_simps: "writer_step p (WSelect b n c) p' w'"

section \<open>What one thread's step does to the pipe\<close>

definition in_hand :: "rpc \<Rightarrow> byte list" where
  "in_hand r = (case r of RWake bytes \<Rightarrow> bytes | RRet bytes _ \<Rightarrow> bytes | _ \<Rightarrow> [])"

lemma consumeLockedD:
  assumes "consumeLocked n p = (bytes, p')" and "pipe_inv p"
  shows "bytes = take n (unread p) \<and> unread p' = drop n (unread p) \<and> pipe_inv p' \<and>
    p_maxBuf p' = p_maxBuf p \<and> p_done p' = p_done p \<and> p_dataReady p' = p_dataReady p \<and>
    p_spaceReady p' = p_spaceReady p \<and> p_rerr p' = p_rerr p \<and> p_werr p' = p_werr p"
proof -
  have p': "p' = snd (consumeLocked n p)" and b: "bytes = fst (consumeLocked n p)"
    using assms(1) by simp_all
  show ?thesis
    unfolding p' b using assms(2) by (simp add: pipeq.get_bytes pipeq.get_contents pipeq.get_inv)
qed

lemma appendLockedD:
  assumes "appendLocked b p = (k, p')" and "pipe_inv p"
  shows "k = min (length b) (p_maxBuf p - length (unread p)) \<and> unread p' = unread p @ take k b \<and> pipe_inv p' \<and>
    p_maxBuf p' = p_maxBuf p \<and> p_done p' = p_done p \<and> p_dataReady p' = p_dataReady p \<and>
    p_spaceReady p' = p_spaceReady p \<and> p_rerr p' = p_rerr p \<and> p_werr p' = p_werr p"
proof -
  have p': "p' = snd (appendLocked b p)" and k: "k = fst (appendLocked b p)"
    using assms(1) by simp_all
  show ?thesis
    unfolding p' k using assms(2) by (simp add: pipeq.put_count pipeq.put_contents pipeq.put_inv)
qed

lemma reader_step_queue:
  assumes "reader_step p r p' r'" and "pipe_inv p"
  shows "pipe_inv p' \<and> in_hand r' @ unread p' = in_hand r @ unread p \<and> p_maxBuf p' = p_maxBuf p"
  using assms by (cases rule: reader_step.cases)
    (auto simp: in_hand_def wakeWriter_def dest: consumeLockedD)

lemma writer_step_queue:
  assumes "writer_step p w p' w'" and "pipe_inv p"
  shows "pipe_inv p' \<and> unread p' = unread p @ appended p w \<and> p_maxBuf p' = p_maxBuf p"
  using assms by (cases rule: writer_step.cases)
    (auto simp: appended_def wakeReader_def dest: appendLockedD)

section \<open>Invariants\<close>

text \<open>Data: nothing is lost, duplicated or reordered, and the buffer stays within its bounds.\<close>

definition data_inv :: "nat \<Rightarrow> psys \<Rightarrow> bool" where
  "data_inv m s \<longleftrightarrow> pipe_inv (sp s) \<and> p_maxBuf (sp s) = m \<and>
     g_written s = g_read s @ in_hand (sr s) @ unread (sp s)"

lemma data_inv_step: "pstep s s' \<Longrightarrow> data_inv m s \<Longrightarrow> data_inv m s'"
proof (erule pstepE)
  fix p' r' assume "s' = s\<lparr>sp := p', sr := r'\<rparr>" and "reader_step (sp s) (sr s) p' r'" and "data_inv m s"
  then show "data_inv m s'" using reader_step_queue by (simp add: data_inv_def)
next
  fix p' w' assume "s' = s\<lparr>sp := p', sw := w', g_written := g_written s @ appended (sp s) (sw s)\<rparr>"
    and "writer_step (sp s) (sw s) p' w'" and "data_inv m s"
  then show "data_inv m s'" using writer_step_queue by (simp add: data_inv_def)
qed (simp_all add: data_inv_def in_hand_def wakeReader_def wakeWriter_def)

lemma preach_data_inv: "preach m s \<Longrightarrow> data_inv m s"
proof (induction rule: preach.induct)
  case preach_init
  then show ?case by (simp add: data_inv_def psys_init_def in_hand_def pipe_inv_def unread_def Pipe_def)
next
  case (preach_step s s')
  then show ?case by (blast intro: data_inv_step)
qed

text \<open>
  Wake-ups: a reader about to wait, or waiting, with data in the buffer has a token in its
  channel or a writer about to put one there; and dually for the writer. \<open>RLock\<close> and
  \<open>WTop\<close> re-check the buffer themselves.
\<close>

definition wake_inv :: "psys \<Rightarrow> bool" where
  "wake_inv s \<longleftrightarrow>
     ((\<exists>n c. sr s = RSelect n c) \<and> unread (sp s) \<noteq> [] \<longrightarrow>
        p_dataReady (sp s) \<or> (\<exists>b n. sw s = WWake b n)) \<and>
     ((\<exists>b n c. sw s = WSelect b n c) \<and> length (unread (sp s)) < p_maxBuf (sp s) \<longrightarrow>
        p_spaceReady (sp s) \<or> p_done (sp s) \<or> (\<exists>bytes. sr s = RWake bytes)) \<and>
     ((\<exists>n. sr s = RDrain n) \<longrightarrow> p_done (sp s))"

lemma wake_inv_step:
  assumes "pstep s s'" and "data_inv m s" and "wake_inv s"
  shows "wake_inv s'"
proof -
  have inv: "pipe_inv (sp s)" using assms(2) by (simp add: data_inv_def)
  show ?thesis
    using assms(1)
  proof (cases rule: pstep.cases)
    case (p_reader p' r')
    then show ?thesis using assms(3) inv
      by (cases rule: reader_step.cases [OF p_reader(2)])
         (auto simp: wake_inv_def wakeWriter_def bufLen_unread dest: consumeLockedD)
  next
    case (p_writer p' w')
    then show ?thesis using assms(3) inv
      by (cases rule: writer_step.cases [OF p_writer(2)])
         (auto simp: wake_inv_def wakeReader_def bufLen_unread dest: appendLockedD)
  qed (use assms(3) in \<open>auto simp: wake_inv_def wakeReader_def wakeWriter_def\<close>)
qed

lemma preach_wake_inv: "preach m s \<Longrightarrow> wake_inv s"
proof (induction rule: preach.induct)
  case preach_init
  then show ?case by (simp add: wake_inv_def psys_init_def)
next
  case (preach_step s s')
  then show ?case using preach_data_inv wake_inv_step by blast
qed

text \<open>The current write: what it has appended is the prefix it will report.\<close>

fun write_ok :: "wpc \<Rightarrow> byte list \<Rightarrow> byte list \<Rightarrow> byte list \<Rightarrow> bool" where
  "write_ok WIdle call base written = True"
| "write_ok (WStart b) call base written = (b = call \<and> written = base)"
| "write_ok (WTop b n) call base written =
     (n \<le> length call \<and> b = drop n call \<and> written = base @ take n call)"
| "write_ok (WWake b n) call base written =
     (n \<le> length call \<and> b = drop n call \<and> written = base @ take n call)"
| "write_ok (WSelect b n c) call base written =
     (n \<le> length call \<and> b = drop n call \<and> written = base @ take n call)"
| "write_ok (WErr n) call base written = (n \<le> length call \<and> written = base @ take n call)"
| "write_ok (WErr2 n werr) call base written = (n \<le> length call \<and> written = base @ take n call)"
| "write_ok (WRet n err) call base written =
     (n \<le> length call \<and> written = base @ take n call \<and> (err = None \<longrightarrow> n = length call))"

definition write_inv :: "psys \<Rightarrow> bool" where
  "write_inv s \<longleftrightarrow> write_ok (sw s) (g_call s) (g_base s) (g_written s)"

lemma write_inv_step:
  assumes "pstep s s'" and "data_inv m s" and "write_inv s"
  shows "write_inv s'"
proof -
  have inv: "pipe_inv (sp s)" using assms(2) by (simp add: data_inv_def)
  show ?thesis
    using assms(1)
  proof (cases rule: pstep.cases)
    case (p_writer p' w')
    show ?thesis
      using p_writer(2)
    proof (cases rule: writer_step.cases)
      case (w_put b k n)
      then have k: "fst (appendLocked b (sp s)) = k" "k \<le> length b"
        using appendLocked_count [of b "sp s"] by simp_all
      have call: "n \<le> length (g_call s)" "b = drop n (g_call s)" "g_written s = g_base s @ take n (g_call s)"
        using assms(3) w_put(1) by (simp_all add: write_inv_def)
      have app: "appended (sp s) (sw s) = take k b" using w_put k(1) by (simp add: appended_def)
      have "take n (g_call s) @ take k b = take (n + k) (g_call s)"
        using call(2) by (simp add: take_add)
      then show ?thesis
        using w_put(2) k(2) call app by (simp add: p_writer(1) write_inv_def add.commute)
    qed (use assms(3) p_writer(1) in \<open>auto simp: write_inv_def appended_def\<close>)
  qed (use assms(3) in \<open>simp_all add: write_inv_def\<close>)
qed

lemma preach_write_inv: "preach m s \<Longrightarrow> write_inv s"
proof (induction rule: preach.induct)
  case preach_init
  then show ?case by (simp add: write_inv_def psys_init_def)
next
  case (preach_step s s')
  then show ?case using preach_data_inv write_inv_step by blast
qed

text \<open>A closed pipe has an error stored.\<close>

definition close_inv :: "psys \<Rightarrow> bool" where
  "close_inv s \<longleftrightarrow>
     (p_done (sp s) \<longrightarrow> p_rerr (sp s) \<noteq> None \<or> p_werr (sp s) \<noteq> None) \<and>
     (sclR s \<noteq> CIdle \<longrightarrow> p_rerr (sp s) \<noteq> None) \<and> (sclW s \<noteq> CIdle \<longrightarrow> p_werr (sp s) \<noteq> None)"

lemma reader_step_close: "reader_step p r p' r' \<Longrightarrow>
    p_done p' = p_done p \<and> p_rerr p' = p_rerr p \<and> p_werr p' = p_werr p"
  by (erule reader_stepE) (auto simp: wakeWriter_def consumeLocked_def Let_def split: if_splits)

lemma writer_step_close: "writer_step p w p' w' \<Longrightarrow>
    p_done p' = p_done p \<and> p_rerr p' = p_rerr p \<and> p_werr p' = p_werr p"
  by (erule writer_stepE) (auto simp: wakeReader_def appendLocked_def Let_def)

lemma close_inv_step: "pstep s s' \<Longrightarrow> close_inv s \<Longrightarrow> close_inv s'"
  by (erule pstepE)
     (auto simp: close_inv_def wakeReader_def wakeWriter_def onceError_Store_def
       dest!: reader_step_close writer_step_close)

lemma preach_close_inv: "preach m s \<Longrightarrow> close_inv s"
proof (induction rule: preach.induct)
  case preach_init
  then show ?case by (simp add: close_inv_def psys_init_def Pipe_def)
next
  case (preach_step s s')
  then show ?case by (blast intro: close_inv_step)
qed

section \<open>The atomic operations are the threads run alone\<close>

definition rstep :: "pipe \<times> rpc \<Rightarrow> pipe \<times> rpc \<Rightarrow> bool" where
  "rstep x y = reader_step (fst x) (snd x) (fst y) (snd y)"

definition wstep :: "pipe \<times> wpc \<Rightarrow> pipe \<times> wpc \<Rightarrow> bool" where
  "wstep x y = writer_step (fst x) (snd x) (fst y) (snd y)"

lemma rstep_into: "reader_step p r p' r' \<Longrightarrow> rstep\<^sup>*\<^sup>* (p', r') y \<Longrightarrow> rstep\<^sup>*\<^sup>* (p, r) y"
  by (rule converse_rtranclp_into_rtranclp) (auto simp: rstep_def)

lemma wstep_into: "writer_step p w p' w' \<Longrightarrow> wstep\<^sup>*\<^sup>* (p', w') y \<Longrightarrow> wstep\<^sup>*\<^sup>* (p, w) y"
  by (rule converse_rtranclp_into_rtranclp) (auto simp: wstep_def)

lemma rstep_err: "rstep\<^sup>*\<^sup>* (p, RErr) (p, RRet [] (Some (readCloseError p)))"
  by (rule rstep_into, rule r_err, rule rstep_into, rule r_err2)
     (simp add: readCloseError_def split: option.split)

lemma wstep_err: "wstep\<^sup>*\<^sup>* (p, WErr n) (p, WRet n (Some (writeCloseError p)))"
  by (rule wstep_into, rule w_err, rule wstep_into, rule w_err2)
     (simp add: writeCloseError_def split: option.split)

lemma no_token [simp]:
  "\<not> p_dataReady p \<Longrightarrow> p\<lparr>p_dataReady := False\<rparr> = p"
  "\<not> p_spaceReady p \<Longrightarrow> p\<lparr>p_spaceReady := False\<rparr> = p"
  by (cases p; simp)+

lemma rstep_wait:
  assumes "bufLen p = 0" "\<not> p_done p" "\<not> deadline_passed (p_readDeadline p)"
  shows "rstep\<^sup>*\<^sup>* (p, RTop n) (p\<lparr>p_dataReady := False\<rparr>, RSelect n (deadline_Wait (p_readDeadline p)))"
proof -
  have once: "rstep\<^sup>*\<^sup>* (q, RTop n) (q, RSelect n (deadline_Wait (p_readDeadline q)))"
    if "bufLen q = 0" "\<not> p_done q" "\<not> deadline_passed (p_readDeadline q)" for q
    by (rule rstep_into [OF r_enter], fact, rule rstep_into [OF r_wait], fact+) simp
  show ?thesis
  proof (cases "p_dataReady p")
    case False
    then show ?thesis using once [OF assms] by simp
  next
    case True
    let ?q = "p\<lparr>p_dataReady := False\<rparr>"
    have "rstep\<^sup>*\<^sup>* (p, RSelect n (deadline_Wait (p_readDeadline p)))
            (?q, RSelect n (deadline_Wait (p_readDeadline p)))"
      using once [of ?q] assms
      by (intro rstep_into [OF r_sel_data [OF True]]) (simp add: bufLen_def)
    with once [OF assms] show ?thesis by (rule rtranclp_trans)
  qed
qed

lemma wstep_wait:
  assumes "b \<noteq> []" "\<not> bufLen p < p_maxBuf p" "\<not> p_done p"
  shows "wstep\<^sup>*\<^sup>* (p, WTop b n) (p\<lparr>p_spaceReady := False\<rparr>, WSelect b n (deadline_Wait (p_writeDeadline p)))"
proof -
  have once: "wstep\<^sup>*\<^sup>* (q, WTop b n) (q, WSelect b n (deadline_Wait (p_writeDeadline q)))"
    if "\<not> bufLen q < p_maxBuf q" "\<not> p_done q" for q
    by (rule wstep_into [OF w_full [OF assms(1)]], fact+) simp
  show ?thesis
  proof (cases "p_spaceReady p")
    case False
    then show ?thesis using once [OF assms(2,3)] by simp
  next
    case True
    let ?q = "p\<lparr>p_spaceReady := False\<rparr>"
    have "wstep\<^sup>*\<^sup>* (p, WSelect b n (deadline_Wait (p_writeDeadline p)))
            (?q, WSelect b n (deadline_Wait (p_writeDeadline p)))"
      using once [of ?q] assms
      by (intro wstep_into [OF w_sel_space [OF True]]) (simp add: bufLen_def)
    with once [OF assms(2,3)] show ?thesis by (rule rtranclp_trans)
  qed
qed

lemma write_loop_steps:
  assumes "pipe_inv p" and "\<not> p_done p"
  shows "case write_loop b n p of
      Inl ((k, err), p') \<Rightarrow> wstep\<^sup>*\<^sup>* (p, WTop b n) (p', WRet k err)
    | Inr ((b', k), p') \<Rightarrow> wstep\<^sup>*\<^sup>* (p, WTop b n) (p', WSelect b' k (deadline_Wait (p_writeDeadline p))) \<and>
        \<not> p_spaceReady p' \<and> \<not> p_done p' \<and> p_writeDeadline p' = p_writeDeadline p"
proof (cases "b = []")
  case True
  then show ?thesis by (auto simp: write_loop_def intro: wstep_into w_end)
next
  case False
  show ?thesis
  proof (cases "bufLen p < p_maxBuf p")
    case full: False
    then show ?thesis
      using False assms wstep_wait [OF False full assms(2), of n] by (simp add: write_loop_def)
  next
    case room: True
    obtain k q where q: "appendLocked b p = (k, q)" by (cases "appendLocked b p")
    note qD = appendLockedD [OF q assms(1)]
    have dl: "p_writeDeadline q = p_writeDeadline p" using q by (auto simp: appendLocked_def Let_def)
    have steps: "wstep\<^sup>*\<^sup>* (p, WTop b n) (wakeReader q, WTop (drop k b) (n + k))"
      by (rule wstep_into [OF w_put [OF False room q]], rule wstep_into [OF w_wake]) simp
    show ?thesis
    proof (cases "drop k b = []")
      case True
      have "wstep\<^sup>*\<^sup>* (wakeReader q, WTop (drop k b) (n + k)) (wakeReader q, WRet (n + k) None)"
        unfolding True by (rule wstep_into [OF w_end]) simp
      with steps have "wstep\<^sup>*\<^sup>* (p, WTop b n) (wakeReader q, WRet (n + k) None)"
        by (rule rtranclp_trans)
      then show ?thesis using False room q True by (simp add: write_loop_def)
    next
      case more: False
      then have "\<not> bufLen (wakeReader q) < p_maxBuf (wakeReader q)"
        using qD by (auto simp: wakeReader_def bufLen_unread)
      from wstep_wait [OF more this, of "n + k"] have
        "wstep\<^sup>*\<^sup>* (p, WTop b n) ((wakeReader q)\<lparr>p_spaceReady := False\<rparr>,
           WSelect (drop k b) (n + k) (deadline_Wait (p_writeDeadline p)))"
        using steps qD assms(2) dl by (auto simp: wakeReader_def intro: rtranclp_trans)
      then show ?thesis using False room q more qD assms(2) dl
        by (simp add: write_loop_def wakeReader_def)
    qed
  qed
qed

section \<open>Properties\<close>

text \<open>C4: in every interleaving of one reader, one writer, closers and deadlines, the bytes
  the reader has received, then those in its hands, then those in the buffer are exactly
  the bytes written, in order; and the buffer never exceeds its limit, nor its backing
  slice one and a half times the limit.\<close>

theorem pipe_fifo:
  assumes "preach m s"
  shows "g_written s = g_read s @ in_hand (sr s) @ unread (sp s) \<and>
         length (unread (sp s)) \<le> m \<and> length (p_buf (sp s)) \<le> m + m div 2"
proof -
  have inv: "data_inv m s" using assms by (rule preach_data_inv)
  then have "length (p_buf (sp s)) = p_off (sp s) + length (unread (sp s))"
    by (simp add: data_inv_def pipe_inv_def unread_def)
  then show ?thesis using inv by (auto simp: data_inv_def pipe_inv_def)
qed

text \<open>C7: no wake-up is lost. A reader waiting while there is data can move, now or as soon as
  the writer has sent the token it is about to send; a writer waiting while there is space
  likewise; so the two are never both stuck, and closing the pipe frees whoever waits.\<close>

theorem pipe_no_lost_wakeup:
  assumes "preach m s" and "0 < m"
  shows "(\<forall>n c. sr s = RSelect n c \<and> unread (sp s) \<noteq> [] \<longrightarrow>
            (\<exists>p' r'. reader_step (sp s) (sr s) p' r') \<or> (\<exists>b k. sw s = WWake b k)) \<and>
         (\<forall>b k c. sw s = WSelect b k c \<and> length (unread (sp s)) < m \<longrightarrow>
            (\<exists>p' w'. writer_step (sp s) (sw s) p' w') \<or> (\<exists>bytes. sr s = RWake bytes)) \<and>
         (\<forall>n c b k c'. sr s = RSelect n c \<and> sw s = WSelect b k c' \<longrightarrow>
            (\<exists>p' r'. reader_step (sp s) (sr s) p' r') \<or> (\<exists>p' w'. writer_step (sp s) (sw s) p' w'))"
proof -
  have max: "p_maxBuf (sp s) = m" and wake: "wake_inv s"
    using preach_data_inv [OF assms(1)] preach_wake_inv [OF assms(1)] by (simp_all add: data_inv_def)
  have reader: "(\<exists>p' r'. reader_step (sp s) (sr s) p' r') \<or> (\<exists>b k. sw s = WWake b k)"
    if "sr s = RSelect n c" "unread (sp s) \<noteq> []" for n c
    using that wake reader_step.r_sel_data [of "sp s" n c] by (auto simp: wake_inv_def)
  have writer: "(\<exists>p' w'. writer_step (sp s) (sw s) p' w') \<or> (\<exists>bytes. sr s = RWake bytes)"
    if "sw s = WSelect b k c" "length (unread (sp s)) < m" for b k c
    using that wake max writer_step.w_sel_space [of "sp s" b k c] writer_step.w_sel_done [of "sp s" b k c]
    by (auto simp: wake_inv_def)
  have "(\<exists>p' r'. reader_step (sp s) (sr s) p' r') \<or> (\<exists>p' w'. writer_step (sp s) (sw s) p' w')"
    if "sr s = RSelect n c" "sw s = WSelect b k c'" for n c b k c'
    using reader [OF that(1)] writer [OF that(2)] that assms(2) by (cases "unread (sp s)") auto
  with reader writer show ?thesis by blast
qed

text \<open>a write returns the number of bytes it put into the pipe, which are a prefix of its
  data, and it returns without an error only if that is all of it.\<close>

theorem pipe_write_count:
  assumes "preach m s" and "sw s = WRet n err"
  shows "g_written s = g_base s @ take n (g_call s) \<and> n \<le> length (g_call s) \<and>
         (err = None \<longrightarrow> n = length (g_call s))"
  using preach_write_inv [OF assms(1)] assms(2) by (simp add: write_inv_def)

text \<open>the atomic read is the reader thread run with nobody interfering: where it returns,
  the thread's steps lead to that return and that state; where it would block, they lead
  to the \<open>select\<close> with none of its cases ready.\<close>

theorem pipe_read_refined:
  "case pipe_read n p of
      Ret ((bytes, err), p') \<Rightarrow> rstep\<^sup>*\<^sup>* (p, RTop n) (p', RRet bytes err)
    | Block \<Rightarrow> (\<exists>c. rstep\<^sup>*\<^sup>* (p, RTop n) (p\<lparr>p_dataReady := False\<rparr>, RSelect n c) \<and>
                   (\<nexists>y. rstep (p\<lparr>p_dataReady := False\<rparr>, RSelect n c) y))
    | Panic \<Rightarrow> False"
proof (cases "deadline_passed (p_readDeadline p)")
  case True
  then show ?thesis by (auto simp: pipe_read_def intro: rstep_into r_late)
next
  case open_dl: False
  consider (data) "bufLen p > 0" | (closed) "bufLen p = 0" "p_done p" | (empty) "bufLen p = 0" "\<not> p_done p"
    by blast
  then show ?thesis
  proof cases
    case data
    obtain bytes q where q: "consumeLocked n p = (bytes, q)" by (cases "consumeLocked n p")
    have "rstep\<^sup>*\<^sup>* (p, RTop n) (wakeWriter q, RRet bytes None)"
      by (rule rstep_into [OF r_enter [OF open_dl]], rule rstep_into [OF r_data [OF data q]],
          rule rstep_into [OF r_wake]) simp
    then show ?thesis using data open_dl q by (simp add: pipe_read_def)
  next
    case closed
    have "rstep\<^sup>*\<^sup>* (p, RTop n) (p, RRet [] (Some (readCloseError p)))"
      by (rule rstep_into [OF r_enter [OF open_dl]], rule rstep_into [OF r_closed [OF closed]]) (rule rstep_err)
    then show ?thesis using closed open_dl by (simp add: pipe_read_def)
  next
    case empty
    let ?c = "deadline_Wait (p_readDeadline p)"
    have "\<nexists>y. rstep (p\<lparr>p_dataReady := False\<rparr>, RSelect n ?c) y"
      using empty open_dl by (simp add: rstep_def reader_select_simps deadline_passed_def)
    then show ?thesis
      using empty open_dl rstep_wait [OF empty open_dl, of n] by (auto simp: pipe_read_def)
  qed
qed


text \<open>Reachable states for the witnesses: a write of one byte, run to its return.\<close>

lemma preach_example: "\<exists>s. preach 4 s \<and> sw s = WRet 1 None \<and> unread (sp s) = [9]"
proof -
  let ?p = "Pipe\<lparr>p_maxBuf := 4\<rparr>" and ?p1 = "Pipe\<lparr>p_maxBuf := 4, p_buf := [9]\<rparr>"
  let ?s0 = "psys_init 4"
  let ?s1 = "?s0\<lparr>sw := WStart [9], g_call := [9], g_base := []\<rparr>"
  let ?s2 = "?s1\<lparr>sw := WTop [9] 0\<rparr>"
  let ?s3 = "?s2\<lparr>sp := ?p1, sw := WWake [] 1, g_written := [9]\<rparr>"
  let ?s4 = "?s3\<lparr>sp := wakeReader ?p1, sw := WTop [] 1\<rparr>"
  let ?s5 = "?s4\<lparr>sw := WRet 1 None\<rparr>"
  have put: "appendLocked [9] ?p = (1, ?p1)"
    by (simp add: appendLocked_def bufLen_def Pipe_def Let_def)
  have "pstep ?s0 ?s1" using pstep.p_call_write [of ?s0 "[9]"] by (simp add: psys_init_def)
  moreover have "pstep ?s1 ?s2"
    using pstep.p_writer [of ?s1 ?p "WTop [9] 0"] writer_step.w_start [of ?p "[9]"]
    by (simp add: psys_init_def appended_def Pipe_def deadline_passed_def isClosedChan_def
        MakePipeDeadline_def)
  moreover have "pstep ?s2 ?s3"
    using pstep.p_writer [of ?s2 ?p1 "WWake [] 1"] writer_step.w_put [of "[9]" ?p 1 ?p1 0] put
    by (simp add: psys_init_def appended_def bufLen_def Pipe_def)
  moreover have "pstep ?s3 ?s4"
    using pstep.p_writer [of ?s3 "wakeReader ?p1" "WTop [] 1"] writer_step.w_wake [of ?p1 "[]" 1]
    by (simp add: psys_init_def appended_def)
  moreover have "pstep ?s4 ?s5"
    using pstep.p_writer [of ?s4 "wakeReader ?p1" "WRet 1 None"] writer_step.w_end [of "wakeReader ?p1" 1]
    by (simp add: psys_init_def appended_def)
  ultimately have "preach 4 ?s5" by (meson preach.intros)
  then show ?thesis by (intro exI [of _ ?s5]) (simp add: wakeReader_def unread_def Pipe_def)
qed

theorem pipe_fifo_witness:
  "\<exists>s. preach 4 s \<and> unread (sp s) = [9] \<and> g_written s = g_read s @ in_hand (sr s) @ [9]"
  using preach_example pipe_fifo by metis

theorem pipe_write_count_witness:
  "\<exists>s. preach 4 s \<and> sw s = WRet 1 None \<and> g_written s = g_base s @ take 1 (g_call s)"
  using preach_example pipe_write_count by metis

text \<open>A reader that found the pipe empty and went to sleep, and a writer that has put a byte
  there since and has not sent the token yet.\<close>

lemma preach_sleeping_reader:
  "\<exists>s. preach 4 s \<and> sr s = RSelect 1 0 \<and> unread (sp s) = [9] \<and> sw s = WWake [] 1 \<and>
     \<not> p_dataReady (sp s)"
proof -
  let ?p = "Pipe\<lparr>p_maxBuf := 4\<rparr>" and ?p1 = "Pipe\<lparr>p_maxBuf := 4, p_buf := [9]\<rparr>"
  let ?s0 = "psys_init 4"
  let ?s1 = "?s0\<lparr>sr := RTop 1\<rparr>"
  let ?s2 = "?s1\<lparr>sr := RLock 1\<rparr>"
  let ?s3 = "?s2\<lparr>sr := RSelect 1 0\<rparr>"
  let ?s4 = "?s3\<lparr>sw := WStart [9], g_call := [9], g_base := []\<rparr>"
  let ?s5 = "?s4\<lparr>sw := WTop [9] 0\<rparr>"
  let ?s6 = "?s5\<lparr>sp := ?p1, sw := WWake [] 1, g_written := [9]\<rparr>"
  note open_pipe = psys_init_def Pipe_def deadline_passed_def isClosedChan_def MakePipeDeadline_def
  have put: "appendLocked [9] ?p = (1, ?p1)"
    by (simp add: appendLocked_def bufLen_def Pipe_def Let_def)
  have "pstep ?s0 ?s1" by (rule pstep.p_call_read) (simp add: psys_init_def)
  moreover have "pstep ?s1 ?s2"
    using pstep.p_reader [of ?s1 ?p "RLock 1"] reader_step.r_enter [of ?p 1] by (simp add: open_pipe)
  moreover have "pstep ?s2 ?s3"
    using pstep.p_reader [of ?s2 ?p "RSelect 1 0"] reader_step.r_wait [of ?p 1]
    by (simp add: open_pipe bufLen_def deadline_Wait_def)
  moreover have "pstep ?s3 ?s4" using pstep.p_call_write [of ?s3 "[9]"] by (simp add: psys_init_def)
  moreover have "pstep ?s4 ?s5"
    using pstep.p_writer [of ?s4 ?p "WTop [9] 0"] writer_step.w_start [of ?p "[9]"]
    by (simp add: open_pipe appended_def)
  moreover have "pstep ?s5 ?s6"
    using pstep.p_writer [of ?s5 ?p1 "WWake [] 1"] writer_step.w_put [of "[9]" ?p 1 ?p1 0] put
    by (simp add: psys_init_def appended_def bufLen_def Pipe_def)
  ultimately have "preach 4 ?s6" by (meson preach.intros)
  then show ?thesis by (intro exI [of _ ?s6]) (simp add: unread_def Pipe_def)
qed

theorem pipe_no_lost_wakeup_witness:
  "\<exists>s. preach 4 s \<and> sr s = RSelect 1 0 \<and> unread (sp s) = [9] \<and> \<not> p_dataReady (sp s) \<and>
     ((\<exists>p' r'. reader_step (sp s) (sr s) p' r') \<or> (\<exists>b k. sw s = WWake b k))"
proof -
  obtain s where s: "preach 4 s" "sr s = RSelect 1 0" "unread (sp s) = [9]" "\<not> p_dataReady (sp s)"
    using preach_sleeping_reader by blast
  have "(\<exists>p' r'. reader_step (sp s) (sr s) p' r') \<or> (\<exists>b k. sw s = WWake b k)"
    using pipe_no_lost_wakeup [OF s(1)] s(2,3) by fastforce
  with s show ?thesis by blast
qed


end
