(* ===== verification/Simulation.thy ===== *)
theory Simulation
  imports Main
begin

text \<open>
  Refinement between step relations, stated once: a detailed machine whose steps keep an
  invariant and show, through an abstraction function, as a step of an abstract machine or
  as nothing. \<open>PipeQueue\<close> and \<open>NodeTraffic\<close> provide instances.
\<close>

locale forward_simulation =
  fixes conc :: "'c \<Rightarrow> 'c \<Rightarrow> bool"
    and inv :: "'c \<Rightarrow> bool"
    and abst :: "'a \<Rightarrow> 'a \<Rightarrow> bool"
    and abs :: "'c \<Rightarrow> 'a"
  assumes inv_step: "inv s \<Longrightarrow> conc s s' \<Longrightarrow> inv s'"
    and simulates: "inv s \<Longrightarrow> conc s s' \<Longrightarrow> abs s' = abs s \<or> abst (abs s) (abs s')"
begin

lemma inv_run: "conc\<^sup>*\<^sup>* s s' \<Longrightarrow> inv s \<Longrightarrow> inv s'"
  by (induction rule: rtranclp_induct) (auto intro: inv_step)

lemma run: "conc\<^sup>*\<^sup>* s s' \<Longrightarrow> inv s \<Longrightarrow> abst\<^sup>*\<^sup>* (abs s) (abs s')"
proof (induction rule: rtranclp_induct)
  case base
  show ?case by simp
next
  case (step t u)
  have "abs u = abs t \<or> abst (abs t) (abs u)"
    using step.hyps inv_run [OF step.hyps(1) step.prems] by (intro simulates)
  with step show ?case by (auto intro: rtranclp.rtrancl_into_rtrancl)
qed

text \<open>A property of the abstract machine's runs holds of the detailed machine's.\<close>

lemma transfer:
  assumes "conc\<^sup>*\<^sup>* s s'" and "inv s" and "P (abs s)"
    and "\<And>a a'. abst a a' \<Longrightarrow> P a \<Longrightarrow> P a'"
  shows "P (abs s')"
  using run [OF assms(1,2)] assms(3)
  by (induction rule: rtranclp_induct) (auto intro: assms(4))

end

end
