(* ===== verification/PipeQueue.thy ===== *)
theory PipeQueue
  imports PipeConc Simulation
begin

text \<open>
  What the pipe promises its reader and its writer, as a machine without lock, tokens and
  channels: a bounded queue with a closed flag and two close errors, on which a read and a
  write are a pending call that takes effect in one step. \<open>io_pipe.go\<close> as \<open>PipeConc\<close>
  interleaves it refines this machine.
\<close>

section \<open>The abstract pipe\<close>

text \<open>
  A read is pending until it takes bytes, times out, or finds the closed queue empty; the
  error it then reports is determined in a step of its own, as the queue may be closed
  from the other end in between.
\<close>

datatype qreader = QRIdle | QReading nat | QRFailing | QRGot "byte list" "go_error option"

datatype qwriter = QWIdle | QStarting "byte list" | QWriting "byte list" nat | QWFailing nat
  | QWDone nat "go_error option"

record queue =
  q_buf :: "byte list"
  q_max :: nat
  q_closed :: bool
  q_rerr :: "go_error option"
  q_werr :: "go_error option"
  q_closingR :: bool
  q_closingW :: bool
  q_readDeadline :: PipeDeadline
  q_writeDeadline :: PipeDeadline
  q_reader :: qreader
  q_writer :: qwriter

definition queue_init :: "nat \<Rightarrow> queue" where
  "queue_init m = \<lparr>q_buf = [], q_max = m, q_closed = False, q_rerr = None, q_werr = None,
     q_closingR = False, q_closingW = False, q_readDeadline = MakePipeDeadline,
     q_writeDeadline = MakePipeDeadline, q_reader = QRIdle, q_writer = QWIdle\<rparr>"

text \<open>The error of an end: the other end's close error unless this end was closed too.\<close>

definition end_error :: "go_error option \<Rightarrow> go_error option \<Rightarrow> go_error" where
  "end_error own other =
     (case other of Some e \<Rightarrow> if own = None then e else ErrClosedPipe | None \<Rightarrow> ErrClosedPipe)"

inductive qstep :: "queue \<Rightarrow> queue \<Rightarrow> bool" where
  q_read: "q_reader q = QRIdle \<Longrightarrow> qstep q (q\<lparr>q_reader := QReading n\<rparr>)"
| q_take: "q_reader q = QReading n \<Longrightarrow> q_buf q \<noteq> [] \<Longrightarrow>
     qstep q (q\<lparr>q_reader := QRGot (take n (q_buf q)) None, q_buf := drop n (q_buf q)\<rparr>)"
| q_read_late: "q_reader q = QReading n \<Longrightarrow> dl_closed (q_readDeadline q) \<noteq> [] \<Longrightarrow>
     qstep q (q\<lparr>q_reader := QRGot [] (Some ErrDeadlineExceeded)\<rparr>)"
| q_empty: "q_reader q = QReading n \<Longrightarrow> q_buf q = [] \<Longrightarrow> q_closed q \<Longrightarrow>
     qstep q (q\<lparr>q_reader := QRFailing\<rparr>)"
| q_read_fails: "q_reader q = QRFailing \<Longrightarrow> q_closed q \<Longrightarrow>
     qstep q (q\<lparr>q_reader := QRGot [] (Some (end_error (q_rerr q) (q_werr q)))\<rparr>)"
| q_read_returns: "q_reader q = QRGot bytes err \<Longrightarrow> qstep q (q\<lparr>q_reader := QRIdle\<rparr>)"
| q_write: "q_writer q = QWIdle \<Longrightarrow> qstep q (q\<lparr>q_writer := QStarting b\<rparr>)"
| q_start: "q_writer q = QStarting b \<Longrightarrow> \<not> q_closed q \<Longrightarrow> \<not> deadline_passed (q_writeDeadline q) \<Longrightarrow>
     qstep q (q\<lparr>q_writer := QWriting b 0\<rparr>)"
| q_start_closed: "q_writer q = QStarting b \<Longrightarrow> q_closed q \<Longrightarrow> qstep q (q\<lparr>q_writer := QWFailing 0\<rparr>)"
| q_start_late: "q_writer q = QStarting b \<Longrightarrow> deadline_passed (q_writeDeadline q) \<Longrightarrow>
     qstep q (q\<lparr>q_writer := QWDone 0 (Some ErrDeadlineExceeded)\<rparr>)"
| q_put: "q_writer q = QWriting b n \<Longrightarrow> b \<noteq> [] \<Longrightarrow> length (q_buf q) < q_max q \<Longrightarrow>
     k = min (length b) (q_max q - length (q_buf q)) \<Longrightarrow>
     qstep q (q\<lparr>q_writer := QWriting (drop k b) (n + k), q_buf := q_buf q @ take k b\<rparr>)"
| q_written: "q_writer q = QWriting [] n \<Longrightarrow> qstep q (q\<lparr>q_writer := QWDone n None\<rparr>)"
| q_write_closed: "q_writer q = QWriting b n \<Longrightarrow> b \<noteq> [] \<Longrightarrow> q_closed q \<Longrightarrow>
     qstep q (q\<lparr>q_writer := QWFailing n\<rparr>)"
| q_write_late: "q_writer q = QWriting b n \<Longrightarrow> b \<noteq> [] \<Longrightarrow> dl_closed (q_writeDeadline q) \<noteq> [] \<Longrightarrow>
     qstep q (q\<lparr>q_writer := QWDone n (Some ErrDeadlineExceeded)\<rparr>)"
| q_write_fails: "q_writer q = QWFailing n \<Longrightarrow> q_closed q \<Longrightarrow>
     qstep q (q\<lparr>q_writer := QWDone n (Some (end_error (q_werr q) (q_rerr q)))\<rparr>)"
| q_write_returns: "q_writer q = QWDone n err \<Longrightarrow> qstep q (q\<lparr>q_writer := QWIdle\<rparr>)"
| q_closeR: "\<not> q_closingR q \<Longrightarrow>
     qstep q (q\<lparr>q_closingR := True, q_rerr := onceError_Store e (q_rerr q)\<rparr>)"
| q_closedR: "q_closingR q \<Longrightarrow> qstep q (q\<lparr>q_closingR := False, q_closed := True\<rparr>)"
| q_closeW: "\<not> q_closingW q \<Longrightarrow>
     qstep q (q\<lparr>q_closingW := True, q_werr := onceError_Store e (q_werr q)\<rparr>)"
| q_closedW: "q_closingW q \<Longrightarrow> qstep q (q\<lparr>q_closingW := False, q_closed := True\<rparr>)"
| q_read_deadline: "dl_step (q_readDeadline q) d \<Longrightarrow> qstep q (q\<lparr>q_readDeadline := d\<rparr>)"
| q_write_deadline: "dl_step (q_writeDeadline q) d \<Longrightarrow> qstep q (q\<lparr>q_writeDeadline := d\<rparr>)"

inductive_cases qstepE: "qstep q q'"

section \<open>Abstraction\<close>

fun abs_reader :: "pipe \<Rightarrow> rpc \<Rightarrow> qreader" where
  "abs_reader p RIdle = QRIdle"
| "abs_reader p (RTop n) = QReading n"
| "abs_reader p (RLock n) = QReading n"
| "abs_reader p (RWake bytes) = QRGot bytes None"
| "abs_reader p (RSelect n c) = QReading n"
| "abs_reader p (RDrain n) = QReading n"
| "abs_reader p RErr = QRFailing"
| "abs_reader p (RErr2 rerr) = QRGot [] (Some (end_error rerr (p_werr p)))"
| "abs_reader p (RRet bytes err) = QRGot bytes err"

fun abs_writer :: "pipe \<Rightarrow> wpc \<Rightarrow> qwriter" where
  "abs_writer p WIdle = QWIdle"
| "abs_writer p (WStart b) = QStarting b"
| "abs_writer p (WTop b n) = QWriting b n"
| "abs_writer p (WWake b n) = QWriting b n"
| "abs_writer p (WSelect b n c) = QWriting b n"
| "abs_writer p (WErr n) = QWFailing n"
| "abs_writer p (WErr2 n werr) = QWDone n (Some (end_error werr (p_rerr p)))"
| "abs_writer p (WRet n err) = QWDone n err"

definition queue_of :: "psys \<Rightarrow> queue" where
  "queue_of s =
     (let p = sp s
      in \<lparr>q_buf = unread p, q_max = p_maxBuf p, q_closed = p_done p, q_rerr = p_rerr p, q_werr = p_werr p,
          q_closingR = (sclR s = CStored), q_closingW = (sclW s = CStored),
          q_readDeadline = p_readDeadline p, q_writeDeadline = p_writeDeadline p,
          q_reader = abs_reader p (sr s), q_writer = abs_writer p (sw s)\<rparr>)"

section \<open>Invariant\<close>

text \<open>
  A thread that is about to load the second error is on a closed pipe, and if it found its
  own end's error unset then the other end's is set for good.
\<close>

definition fail_inv :: "psys \<Rightarrow> bool" where
  "fail_inv s \<longleftrightarrow>
     (case sr s of RErr \<Rightarrow> p_done (sp s)
      | RErr2 rerr \<Rightarrow> p_done (sp s) \<and> (rerr = None \<longrightarrow> p_werr (sp s) \<noteq> None)
      | RDrain n \<Rightarrow> p_done (sp s) | _ \<Rightarrow> True) \<and>
     (case sw s of WErr n \<Rightarrow> p_done (sp s)
      | WErr2 n werr \<Rightarrow> p_done (sp s) \<and> (werr = None \<longrightarrow> p_rerr (sp s) \<noteq> None)
      | WSelect b n c \<Rightarrow> b \<noteq> [] | _ \<Rightarrow> True)"

definition refine_inv :: "psys \<Rightarrow> bool" where
  "refine_inv s \<longleftrightarrow> pipe_inv (sp s) \<and> close_inv s \<and> fail_inv s"

lemma refine_inv_init: "refine_inv (psys_init m)"
  by (simp add: refine_inv_def close_inv_def fail_inv_def psys_init_def pipe_inv_def unread_def Pipe_def)

lemma pipe_inv_step: "pstep s s' \<Longrightarrow> pipe_inv (sp s) \<Longrightarrow> pipe_inv (sp s')"
  by (erule pstepE) (auto simp: wakeReader_def wakeWriter_def dest: reader_step_queue writer_step_queue)

lemma fail_inv_step:
  assumes "pstep s s'" and "close_inv s" and "fail_inv s"
  shows "fail_inv s'"
  using assms(1)
proof (cases rule: pstep.cases)
  case (p_reader p' r')
  note keep = reader_step_close [OF p_reader(2)]
  have "case sr s' of RErr \<Rightarrow> p_done (sp s')
      | RErr2 rerr \<Rightarrow> p_done (sp s') \<and> (rerr = None \<longrightarrow> p_werr (sp s') \<noteq> None)
      | RDrain n \<Rightarrow> p_done (sp s') | _ \<Rightarrow> True"
    using p_reader(2) assms(2,3) unfolding p_reader(1)
    by (cases rule: reader_step.cases) (auto simp: fail_inv_def close_inv_def)
  then show ?thesis using assms(3) keep p_reader(1) by (auto simp: fail_inv_def split: wpc.splits)
next
  case (p_writer p' w')
  note keep = writer_step_close [OF p_writer(2)]
  have "case sw s' of WErr n \<Rightarrow> p_done (sp s')
      | WErr2 n werr \<Rightarrow> p_done (sp s') \<and> (werr = None \<longrightarrow> p_rerr (sp s') \<noteq> None)
      | WSelect b n c \<Rightarrow> b \<noteq> [] | _ \<Rightarrow> True"
    using p_writer(2) assms(2,3) unfolding p_writer(1)
    by (cases rule: writer_step.cases) (auto simp: fail_inv_def close_inv_def)
  then show ?thesis using assms(3) keep p_writer(1) by (auto simp: fail_inv_def split: rpc.splits)
qed (use assms(3) in \<open>auto simp: fail_inv_def onceError_Store_def wakeReader_def wakeWriter_def
       split: rpc.splits wpc.splits\<close>)

lemma refine_inv_step: "refine_inv s \<Longrightarrow> pstep s s' \<Longrightarrow> refine_inv s'"
  by (auto simp: refine_inv_def intro: pipe_inv_step close_inv_step fail_inv_step)

section \<open>The simulation\<close>

lemma consumeLocked_deadlines: "consumeLocked n p = (bytes, p') \<Longrightarrow>
    p_readDeadline p' = p_readDeadline p \<and> p_writeDeadline p' = p_writeDeadline p"
  by (metis consumeLocked_frame(7,8) snd_conv)

lemma appendLocked_deadlines: "appendLocked b p = (k, p') \<Longrightarrow>
    p_readDeadline p' = p_readDeadline p \<and> p_writeDeadline p' = p_writeDeadline p"
  by (metis appendLocked_frame(7,8) snd_conv)

lemma isClosedChan_some: "isClosedChan d c \<Longrightarrow> dl_closed d \<noteq> []"
  by (auto simp: isClosedChan_def)

lemma abs_cong:
  "p_werr p' = p_werr p \<Longrightarrow> abs_reader p' r = abs_reader p r"
  "p_rerr p' = p_rerr p \<Longrightarrow> abs_writer p' w = abs_writer p w"
  by (cases r; simp) (cases w; simp)

lemma abs_updates [simp]:
  "abs_reader (p\<lparr>p_dataReady := t\<rparr>) r = abs_reader p r" "abs_writer (p\<lparr>p_dataReady := t\<rparr>) w = abs_writer p w"
  "abs_reader (p\<lparr>p_spaceReady := t\<rparr>) r = abs_reader p r" "abs_writer (p\<lparr>p_spaceReady := t\<rparr>) w = abs_writer p w"
  "abs_reader (p\<lparr>p_done := d\<rparr>) r = abs_reader p r" "abs_writer (p\<lparr>p_done := d\<rparr>) w = abs_writer p w"
  "abs_reader (p\<lparr>p_readDeadline := l\<rparr>) r = abs_reader p r" "abs_writer (p\<lparr>p_readDeadline := l\<rparr>) w = abs_writer p w"
  "abs_reader (p\<lparr>p_writeDeadline := l\<rparr>) r = abs_reader p r" "abs_writer (p\<lparr>p_writeDeadline := l\<rparr>) w = abs_writer p w"
  "abs_reader (p\<lparr>p_rerr := e\<rparr>) r = abs_reader p r" "abs_writer (p\<lparr>p_werr := e\<rparr>) w = abs_writer p w"
  by (rule abs_cong; simp)+

lemma queue_of_sel [simp]:
  "q_buf (queue_of s) = unread (sp s)" "q_max (queue_of s) = p_maxBuf (sp s)" "q_closed (queue_of s) = p_done (sp s)"
  "q_rerr (queue_of s) = p_rerr (sp s)" "q_werr (queue_of s) = p_werr (sp s)"
  "q_readDeadline (queue_of s) = p_readDeadline (sp s)" "q_writeDeadline (queue_of s) = p_writeDeadline (sp s)"
  "q_reader (queue_of s) = abs_reader (sp s) (sr s)" "q_writer (queue_of s) = abs_writer (sp s) (sw s)"
  by (simp_all add: queue_of_def Let_def)

text \<open>A step of the reader that leaves the pipe as it is moves the abstract reader only, and one that
  consumes bytes is the abstract \<open>q_take\<close>.\<close>

lemma queue_of_moved:
  "queue_of (s\<lparr>sr := r'\<rparr>) = (queue_of s)\<lparr>q_reader := abs_reader (sp s) r'\<rparr>"
  "queue_of (s\<lparr>sw := w', g_written := g\<rparr>) = (queue_of s)\<lparr>q_writer := abs_writer (sp s) w'\<rparr>"
  by (simp_all add: queue_of_def Let_def)

lemma take_simulates:
  assumes "refine_inv s" and "consumeLocked n (sp s) = (bytes, p')" and "bufLen (sp s) > 0"
    and "abs_reader (sp s) (sr s) = QReading n" and "abs_reader p' r' = QRGot bytes None"
    and "p_rerr p' = p_rerr (sp s)" and "p_werr p' = p_werr (sp s)" and "p_done p' = p_done (sp s)"
  shows "qstep (queue_of s) (queue_of (s\<lparr>sp := p', sr := r'\<rparr>))"
proof -
  have inv: "pipe_inv (sp s)" using assms(1) by (simp add: refine_inv_def)
  have "queue_of (s\<lparr>sp := p', sr := r'\<rparr>) =
      (queue_of s)\<lparr>q_reader := QRGot (take n (q_buf (queue_of s))) None, q_buf := drop n (q_buf (queue_of s))\<rparr>"
    using consumeLockedD [OF assms(2) inv] consumeLocked_deadlines [OF assms(2)] assms(5-8)
      abs_cong(2) [of p' "sp s"]
    by (simp add: queue_of_def Let_def)
  moreover have "q_buf (queue_of s) \<noteq> []" using assms(3) by (simp add: bufLen_unread)
  ultimately show ?thesis using q_take [of "queue_of s" n] assms(4) by simp
qed

lemma put_simulates:
  assumes "refine_inv s" and "appendLocked b (sp s) = (k, p')" and "b \<noteq> []" and "bufLen (sp s) < p_maxBuf (sp s)"
    and "sw s = WTop b n"
  shows "qstep (queue_of s) (queue_of (s\<lparr>sp := p', sw := WWake (drop k b) (n + k), g_written := g\<rparr>))"
proof -
  have inv: "pipe_inv (sp s)" using assms(1) by (simp add: refine_inv_def)
  note app = appendLockedD [OF assms(2) inv] appendLocked_deadlines [OF assms(2)]
  have "queue_of (s\<lparr>sp := p', sw := WWake (drop k b) (n + k), g_written := g\<rparr>) =
      (queue_of s)\<lparr>q_writer := QWriting (drop k b) (n + k), q_buf := q_buf (queue_of s) @ take k b\<rparr>"
    using app abs_cong(1) [of p' "sp s"] by (simp add: queue_of_def Let_def)
  moreover have "qstep (queue_of s) \<dots>"
    using app assms(3-5) by (intro q_put) (simp_all add: bufLen_unread)
  ultimately show ?thesis by simp
qed

lemma reader_simulates:
  assumes "reader_step (sp s) (sr s) p' r'" and "refine_inv s"
  shows "queue_of (s\<lparr>sp := p', sr := r'\<rparr>) = queue_of s \<or>
         qstep (queue_of s) (queue_of (s\<lparr>sp := p', sr := r'\<rparr>))"
proof -
  have failing: "fail_inv s" using assms(2) by (simp add: refine_inv_def)
  note keep = reader_step_close [OF assms(1)] and late = isClosedChan_some [of "p_readDeadline (sp s)"]
  show ?thesis
    using assms(1)
  proof (cases rule: reader_step.cases)
    case (r_data n bytes)
    with keep show ?thesis using take_simulates [OF assms(2) r_data(4,3)] by simp
  next
    case (r_drain n bytes)
    with keep show ?thesis using take_simulates [OF assms(2) r_drain(4,3)] by simp
  next
    case (r_late n)
    then show ?thesis using q_read_late [of "queue_of s" n] late by (auto simp: queue_of_moved deadline_passed_def)
  next
    case (r_sel_late c n)
    then show ?thesis using q_read_late [of "queue_of s" n] late by (auto simp: queue_of_moved)
  next
    case (r_closed n)
    then show ?thesis using q_empty [of "queue_of s" n] by (simp add: queue_of_moved bufLen_unread)
  next
    case (r_drained n)
    then show ?thesis using q_empty [of "queue_of s" n] failing by (simp add: queue_of_moved bufLen_unread fail_inv_def)
  next
    case r_err
    then show ?thesis using q_read_fails [of "queue_of s"] failing by (simp add: queue_of_moved fail_inv_def)
  qed (simp_all add: queue_of_def wakeWriter_def end_error_def Let_def)
qed

lemma writer_simulates:
  assumes "writer_step (sp s) (sw s) p' w'" and "refine_inv s"
  shows "queue_of (s\<lparr>sp := p', sw := w', g_written := g\<rparr>) = queue_of s \<or>
         qstep (queue_of s) (queue_of (s\<lparr>sp := p', sw := w', g_written := g\<rparr>))"
proof -
  have failing: "fail_inv s" using assms(2) by (simp add: refine_inv_def)
  note late = isClosedChan_some [of "p_writeDeadline (sp s)"]
  show ?thesis
    using assms(1)
  proof (cases rule: writer_step.cases)
    case (w_put b k n)
    then show ?thesis using put_simulates [OF assms(2)] by simp
  next
    case (w_start_done b)
    then show ?thesis using q_start_closed [of "queue_of s" b] by (simp add: queue_of_moved)
  next
    case (w_start_late b)
    then show ?thesis using q_start_late [of "queue_of s" b] by (simp add: queue_of_moved)
  next
    case (w_start b)
    then show ?thesis using q_start [of "queue_of s" b] by (simp add: queue_of_moved)
  next
    case (w_end n)
    then show ?thesis using q_written [of "queue_of s" n] by (simp add: queue_of_moved)
  next
    case (w_full_done b n)
    then show ?thesis using q_write_closed [of "queue_of s" b n] by (simp add: queue_of_moved)
  next
    case (w_sel_done b n c)
    then show ?thesis using q_write_closed [of "queue_of s" b n] failing by (simp add: queue_of_moved fail_inv_def)
  next
    case (w_sel_late c b n)
    then show ?thesis using q_write_late [of "queue_of s" b n] failing late by (auto simp: queue_of_moved fail_inv_def)
  next
    case (w_err n)
    then show ?thesis using q_write_fails [of "queue_of s" n] failing by (simp add: queue_of_moved fail_inv_def)
  qed (simp_all add: queue_of_def wakeReader_def end_error_def Let_def)
qed

lemma pstep_simulates:
  assumes "refine_inv s" and "pstep s s'"
  shows "queue_of s' = queue_of s \<or> qstep (queue_of s) (queue_of s')"
  using assms(2)
proof (cases rule: pstep.cases)
  case (p_reader p' r')
  then show ?thesis using reader_simulates assms(1) by blast
next
  case (p_writer p' w')
  then show ?thesis using writer_simulates assms(1) by blast
next
  case (p_call_read n)
  then show ?thesis using q_read [of "queue_of s" n] by (simp add: queue_of_def Let_def)
next
  case (p_return_read bytes err)
  then show ?thesis using q_read_returns [of "queue_of s" bytes err] by (simp add: queue_of_def Let_def)
next
  case (p_call_write b)
  then show ?thesis using q_write [of "queue_of s" b] by (simp add: queue_of_def Let_def)
next
  case (p_return_write n err)
  then show ?thesis using q_write_returns [of "queue_of s" n err] by (simp add: queue_of_def Let_def)
next
  case (p_closeR_store e)
  have "abs_writer ((sp s)\<lparr>p_rerr := onceError_Store e (p_rerr (sp s))\<rparr>) (sw s) = abs_writer (sp s) (sw s)"
    using assms(1)
    by (cases "sw s") (auto simp: refine_inv_def fail_inv_def onceError_Store_def end_error_def split: option.splits)
  then show ?thesis using p_closeR_store q_closeR [of "queue_of s" e] by (simp add: queue_of_def Let_def)
next
  case (p_closeW_store e)
  have "abs_reader ((sp s)\<lparr>p_werr := onceError_Store e (p_werr (sp s))\<rparr>) (sr s) = abs_reader (sp s) (sr s)"
    using assms(1)
    by (cases "sr s") (auto simp: refine_inv_def fail_inv_def onceError_Store_def end_error_def split: option.splits)
  then show ?thesis using p_closeW_store q_closeW [of "queue_of s" e] by (simp add: queue_of_def Let_def)
next
  case p_closeR_done
  then show ?thesis using q_closedR [of "queue_of s"] by (simp add: queue_of_def Let_def)
next
  case p_closeW_done
  then show ?thesis using q_closedW [of "queue_of s"] by (simp add: queue_of_def Let_def)
next
  case (p_readDeadline d)
  then show ?thesis using q_read_deadline [of "queue_of s" d] by (simp add: queue_of_def Let_def)
next
  case (p_writeDeadline d)
  then show ?thesis using q_write_deadline [of "queue_of s" d] by (simp add: queue_of_def Let_def)
qed (simp_all add: queue_of_def wakeReader_def wakeWriter_def Let_def)

interpretation pq: forward_simulation pstep refine_inv qstep queue_of
  by unfold_locales (blast intro: refine_inv_step, rule pstep_simulates)

lemma preach_run: "preach m s \<Longrightarrow> pstep\<^sup>*\<^sup>* (psys_init m) s"
  by (induction rule: preach.induct) auto

lemma queue_of_init: "queue_of (psys_init m) = queue_init m"
  by (simp add: queue_of_def psys_init_def queue_init_def Pipe_def unread_def Let_def)

section \<open>Errors have a reason\<close>

text \<open>
  In the abstract pipe: an error without bytes comes from an expired deadline, or from a
  closed pipe and is then the other end's close error or \<open>io.ErrClosedPipe\<close>.
\<close>

definition reason :: "PipeDeadline \<Rightarrow> bool \<Rightarrow> go_error option \<Rightarrow> go_error \<Rightarrow> bool" where
  "reason d closed other e \<longleftrightarrow>
     e = ErrDeadlineExceeded \<and> dl_closed d \<noteq> [] \<or> closed \<and> (e = ErrClosedPipe \<or> other = Some e)"

definition queue_ok :: "queue \<Rightarrow> bool" where
  "queue_ok q \<longleftrightarrow>
     length (q_buf q) \<le> q_max q \<and>
     (\<forall>bytes e. q_reader q = QRGot bytes (Some e) \<longrightarrow>
        bytes = [] \<and> reason (q_readDeadline q) (q_closed q) (q_werr q) e) \<and>
     (\<forall>n e. q_writer q = QWDone n (Some e) \<longrightarrow> reason (q_writeDeadline q) (q_closed q) (q_rerr q) e)"

lemma dl_step_closed: "dl_step d d' \<Longrightarrow> dl_closed d \<noteq> [] \<Longrightarrow> dl_closed d' \<noteq> []"
  by (erule dl_stepE) (auto simp: dl_defs split: if_splits option.splits)

lemma reason_mono:
  "reason d c other e \<Longrightarrow> dl_step d d' \<Longrightarrow> reason d' c other e"
  "reason d c other e \<Longrightarrow> reason d True other e"
  "reason d c other e \<Longrightarrow> reason d c (onceError_Store e' other) e"
  by (auto simp: reason_def onceError_Store_def dest: dl_step_closed)

lemma queue_ok_step: "qstep q q' \<Longrightarrow> queue_ok q \<Longrightarrow> queue_ok q'"
  by (erule qstepE)
     (auto simp: queue_ok_def end_error_def intro: reason_mono,
      auto simp: reason_def deadline_passed_def isClosedChan_def split: option.splits)

section \<open>Properties\<close>

text \<open>C3: the pipe under every interleaving of its threads behaves as the abstract queue: the
  state it is in is one the queue can reach, each step being one step of the queue or
  none; and an error a read or a write ends with has its reason.\<close>

theorem pipe_refines_queue:
  assumes "preach m s"
  shows "qstep\<^sup>*\<^sup>* (queue_init m) (queue_of s) \<and>
         (\<forall>s'. pstep s s' \<longrightarrow> queue_of s' = queue_of s \<or> qstep (queue_of s) (queue_of s')) \<and>
         queue_ok (queue_of s)"
proof (intro conjI allI impI)
  note run = preach_run [OF assms]
  show "qstep\<^sup>*\<^sup>* (queue_init m) (queue_of s)"
    using pq.run [OF run refine_inv_init] by (simp add: queue_of_init)
  show "queue_of s' = queue_of s \<or> qstep (queue_of s) (queue_of s')" if "pstep s s'" for s'
    using pq.inv_run [OF run refine_inv_init] that by (rule pq.simulates)
  have "queue_ok (queue_of (psys_init m))"
    by (simp add: queue_of_init queue_init_def queue_ok_def)
  then show "queue_ok (queue_of s)"
    by (rule pq.transfer [OF run refine_inv_init]) (blast intro: queue_ok_step)
qed

theorem pipe_refines_queue_witness:
  "\<exists>s. preach 4 s \<and> sr s = RSelect 1 0 \<and> q_reader (queue_of s) = QReading 1 \<and>
     q_buf (queue_of s) = [9] \<and> qstep\<^sup>*\<^sup>* (queue_init 4) (queue_of s)"
proof -
  obtain s where s: "preach 4 s" "sr s = RSelect 1 0" "unread (sp s) = [9]"
    using preach_sleeping_reader by blast
  then show ?thesis using pipe_refines_queue [OF s(1)] by (auto simp: queue_of_def Let_def)
qed

end
