(* ===== verification/Frame.thy ===== *)
theory Frame
  imports GoStd
begin

text \<open>
  \<open>internal/pkg/proxy/session/frame.go\<close>: the wire format of a session. A frame is a
  header of seven bytes (command, stream id, payload length, big endian) and its payload.
\<close>

section \<open>Commands\<close>

definition cmdWaste :: byte where "cmdWaste = 0"
definition cmdSYN :: byte where "cmdSYN = 1"
definition cmdPSH :: byte where "cmdPSH = 2"
definition cmdFIN :: byte where "cmdFIN = 3"
definition cmdSettings :: byte where "cmdSettings = 4"
definition cmdAlert :: byte where "cmdAlert = 5"
definition cmdUpdatePaddingScheme :: byte where "cmdUpdatePaddingScheme = 6"
definition cmdSYNACK :: byte where "cmdSYNACK = 7"
definition cmdHeartRequest :: byte where "cmdHeartRequest = 8"
definition cmdHeartResponse :: byte where "cmdHeartResponse = 9"
definition cmdServerSettings :: byte where "cmdServerSettings = 10"

lemmas cmd_defs = cmdWaste_def cmdSYN_def cmdPSH_def cmdFIN_def cmdSettings_def cmdAlert_def
  cmdUpdatePaddingScheme_def cmdSYNACK_def cmdHeartRequest_def cmdHeartResponse_def
  cmdServerSettings_def

definition headerOverHeadSize :: nat where
  "headerOverHeadSize = 1 + 4 + 2"

lemma headerOverHeadSize_7 [simp]: "headerOverHeadSize = 7"
  by (simp add: headerOverHeadSize_def)

section \<open>Frames and headers\<close>

record frame =
  frame_cmd :: byte
  frame_sid :: u32
  frame_data :: "byte list"

definition newFrame :: "byte \<Rightarrow> u32 \<Rightarrow> frame" where
  "newFrame cmd sid = \<lparr>frame_cmd = cmd, frame_sid = sid, frame_data = []\<rparr>"

text \<open>\<open>rawHeader\<close> is the array \<open>[7]byte\<close>; its accessors are applied to seven bytes only.\<close>

type_synonym rawHeader = "byte list"

definition Cmd :: "rawHeader \<Rightarrow> byte" where
  "Cmd h = h ! 0"

definition StreamID :: "rawHeader \<Rightarrow> u32" where
  "StreamID h = Uint32 (drop 1 h)"

definition Length :: "rawHeader \<Rightarrow> u16" where
  "Length h = Uint16 (drop 5 h)"

text \<open>The header bytes both writers build: \<open>cmd\<close>, then the two \<open>PutUint\<close> calls.\<close>

definition frame_header :: "byte \<Rightarrow> u32 \<Rightarrow> u16 \<Rightarrow> byte list" where
  "frame_header cmd sid len = cmd # PutUint32 sid @ PutUint16 len"

lemma length_frame_header [simp]: "length (frame_header cmd sid len) = 7"
  by (simp add: frame_header_def)

lemma Cmd_frame_header [wire_simps]: "Cmd (frame_header cmd sid len @ rest) = cmd"
  by (simp add: Cmd_def frame_header_def)

lemma StreamID_frame_header [wire_simps]: "StreamID (frame_header cmd sid len @ rest) = sid"
  by (simp add: StreamID_def frame_header_def Uint32_PutUint32)

lemma Length_frame_header [wire_simps]: "Length (frame_header cmd sid len @ rest) = len"
proof -
  have "drop 5 (frame_header cmd sid len @ rest) = PutUint16 len @ rest"
    by (simp add: frame_header_def PutUint32_def)
  then show ?thesis by (simp add: Length_def Uint16_PutUint16)
qed

lemmas header_rest_Nil = Cmd_frame_header [of _ _ _ "[]", simplified]
  StreamID_frame_header [of _ _ _ "[]", simplified] Length_frame_header [of _ _ _ "[]", simplified]

declare header_rest_Nil [wire_simps]

text \<open>The bytes of a frame as the two writers put them on the wire.\<close>

definition frame_bytes :: "frame \<Rightarrow> byte list" where
  "frame_bytes f =
     frame_header (frame_cmd f) (frame_sid f) (of_nat (length (frame_data f))) @ frame_data f"

lemma frame_header_exhaust:
  assumes "length h = 7"
  shows "h = frame_header (Cmd h) (StreamID h) (Length h)"
proof -
  from assms obtain a b c d e f g where h: "h = [a, b, c, d, e, f, g]"
    by (auto simp: length_Suc_conv numeral_eq_Suc)
  have "PutUint16 (Uint16 [f, g]) = [f, g]" by (rule PutUint16_Uint16)
  moreover have "PutUint32 (Uint32 ([b, c, d, e] @ [f, g])) = [b, c, d, e]" by (rule PutUint32_Uint32)
  ultimately show ?thesis
    by (simp add: h Cmd_def StreamID_def Length_def frame_header_def)
qed

section \<open>Decoding a byte stream into frames\<close>

text \<open>
  The receive loop reads a payload for these commands; for the others it goes straight to
  the next header, whatever length the header announces.
\<close>

definition has_payload :: "byte \<Rightarrow> bool" where
  "has_payload cmd \<longleftrightarrow> cmd = cmdPSH \<or> cmd = cmdSYNACK \<or> cmd = cmdWaste \<or> cmd = cmdSettings \<or>
     cmd = cmdAlert \<or> cmd = cmdUpdatePaddingScheme \<or> cmd = cmdServerSettings"

text \<open>The reference decoder: one frame off the front of the stream, or \<open>None\<close> if it is cut short.\<close>

definition decode_frame :: "byte list \<Rightarrow> (frame \<times> byte list) option" where
  "decode_frame bs =
     (if length bs < headerOverHeadSize then None
      else
        (let h = take headerOverHeadSize bs;
             rest = drop headerOverHeadSize bs;
             len = (if has_payload (Cmd h) then unat (Length h) else 0)
         in if length rest < len then None
            else Some (\<lparr>frame_cmd = Cmd h, frame_sid = StreamID h, frame_data = take len rest\<rparr>,
                       drop len rest)))"

text \<open>Frames that a writer can put on the wire so that they are read back as they are.\<close>

definition frame_ok :: "frame \<Rightarrow> bool" where
  "frame_ok f \<longleftrightarrow> length (frame_data f) < 65536 \<and> (\<not> has_payload (frame_cmd f) \<longrightarrow> frame_data f = [])"

section \<open>Stream codecs as an interface\<close>

text \<open>
  What a stream of encoded items needs of its codec: the decoder undoes the encoder,
  whatever follows, and it always consumes something.
\<close>

fun decode_all :: "('b list \<Rightarrow> ('f \<times> 'b list) option) \<Rightarrow> nat \<Rightarrow> 'b list \<Rightarrow> 'f list \<times> 'b list" where
  "decode_all dec 0 bs = ([], bs)"
| "decode_all dec (Suc fuel) bs =
     (case dec bs of
        None \<Rightarrow> ([], bs)
      | Some (f, rest) \<Rightarrow> (case decode_all dec fuel rest of (fs, end_rest) \<Rightarrow> (f # fs, end_rest)))"

locale stream_codec =
  fixes enc :: "'f \<Rightarrow> 'b list"
    and dec :: "'b list \<Rightarrow> ('f \<times> 'b list) option"
    and ok :: "'f \<Rightarrow> bool"
  assumes dec_enc: "ok f \<Longrightarrow> dec (enc f @ rest) = Some (f, rest)"
    and dec_shrinks: "dec bs = Some (f, rest) \<Longrightarrow> length rest < length bs"
begin

lemma enc_nonempty: "ok f \<Longrightarrow> enc f \<noteq> []"
  using dec_enc [of f "[]"] dec_shrinks [of "enc f" f "[]"] by auto

lemma decode_all_encoded:
  "(\<And>f. f \<in> set fs \<Longrightarrow> ok f) \<Longrightarrow> dec rest = None \<Longrightarrow> length fs < fuel \<Longrightarrow>
   decode_all dec fuel (concat (map enc fs) @ rest) = (fs, rest)"
proof (induction fs arbitrary: fuel)
  case Nil
  then show ?case by (cases fuel) auto
next
  case (Cons f fs)
  then obtain fuel' where fuel: "fuel = Suc fuel'" by (cases fuel) auto
  from Cons fuel have "decode_all dec fuel' (concat (map enc fs) @ rest) = (fs, rest)" by simp
  then show ?case using Cons.prems fuel by (simp add: dec_enc)
qed

lemma length_encoded: "(\<And>f. f \<in> set fs \<Longrightarrow> ok f) \<Longrightarrow> length fs \<le> length (concat (map enc fs))"
proof (induction fs)
  case Nil
  then show ?case by simp
next
  case (Cons f fs)
  then have "Suc 0 \<le> length (enc f)" using enc_nonempty [of f] by (simp add: Suc_le_eq)
  moreover have "length fs \<le> length (concat (map enc fs))" using Cons by simp
  ultimately show ?case by simp
qed

lemma decode_all_fuel_enough: "length bs < fuel \<Longrightarrow> dec (snd (decode_all dec fuel bs)) = None"
proof (induction fuel arbitrary: bs)
  case 0
  then show ?case by simp
next
  case (Suc fuel)
  show ?case
  proof (cases "dec bs")
    case None
    then show ?thesis by simp
  next
    case (Some fr)
    obtain f rest where fr: "fr = (f, rest)" by (cases fr)
    with Some dec_shrinks [of bs f rest] Suc.prems have "length rest < fuel" by simp
    then have "dec (snd (decode_all dec fuel rest)) = None" by (rule Suc.IH)
    then show ?thesis using Some fr by (simp add: split_beta)
  qed
qed

lemma encoded_inj:
  assumes "\<And>f. f \<in> set fs \<Longrightarrow> ok f" and "\<And>g. g \<in> set gs \<Longrightarrow> ok g" and "dec [] = None"
    and "concat (map enc fs) = concat (map enc gs)"
  shows "fs = gs"
proof -
  let ?n = "Suc (length fs + length gs)"
  have "decode_all dec ?n (concat (map enc fs) @ []) = (fs, [])"
    by (rule decode_all_encoded) (use assms in auto)
  moreover have "decode_all dec ?n (concat (map enc gs) @ []) = (gs, [])"
    by (rule decode_all_encoded) (use assms in auto)
  ultimately show ?thesis using assms(4) by simp
qed

end

lemma decode_frame_bytes: "frame_ok f \<Longrightarrow> decode_frame (frame_bytes f @ rest) = Some (f, rest)"
  by (auto simp: decode_frame_def frame_bytes_def frame_ok_def wire_simps Let_def)

lemma decode_frame_shrinks: "decode_frame bs = Some (f, rest) \<Longrightarrow> length rest < length bs"
  by (auto simp: decode_frame_def Let_def split: if_splits)

interpretation wire: stream_codec frame_bytes decode_frame frame_ok
  by unfold_locales (simp_all add: decode_frame_bytes decode_frame_shrinks)

lemma decode_frame_Nil [simp]: "decode_frame [] = None"
  by (simp add: decode_frame_def)

text \<open>The converse: a decoded frame is well formed and, with its length field, gives back the bytes.\<close>

lemma decode_frame_ok: "decode_frame bs = Some (f, rest) \<Longrightarrow> frame_ok f"
  using unat_u16_lt [of "Length (take 7 bs)"]
  by (auto simp: decode_frame_def frame_ok_def Let_def split: if_splits)

lemma decode_frame_payload:
  assumes "decode_frame bs = Some (f, rest)" and "has_payload (frame_cmd f)"
  shows "bs = frame_bytes f @ rest"
proof -
  let ?h = "take 7 bs"
  have len: "length ?h = 7" "length bs \<ge> 7"
    using assms(1) by (auto simp: decode_frame_def split: if_splits)
  have f: "frame_cmd f = Cmd ?h" "frame_sid f = StreamID ?h"
    "frame_data f = take (unat (Length ?h)) (drop 7 bs)" "rest = drop (unat (Length ?h)) (drop 7 bs)"
    "unat (Length ?h) \<le> length (drop 7 bs)"
    using assms by (auto simp: decode_frame_def Let_def split: if_splits)
  then have "of_nat (length (frame_data f)) = Length ?h" by simp
  then have "frame_bytes f = ?h @ frame_data f"
    using frame_header_exhaust [OF len(1)] f(1,2) by (simp add: frame_bytes_def)
  then show ?thesis using f(3,4) by (metis append.assoc append_take_drop_id)
qed

section \<open>Properties\<close>

text \<open>C19: a sequence of well-formed frames written back to back is read back as exactly those
  frames, with what follows left untouched, given fuel for one more frame than there are.\<close>

theorem frames_roundtrip:
  assumes "list_all frame_ok fs" and "decode_frame rest = None" and "length fs < fuel"
  shows "decode_all decode_frame fuel (concat (map frame_bytes fs) @ rest) = (fs, rest)"
  using assms by (intro wire.decode_all_encoded) (auto simp: list_all_iff)

theorem frames_roundtrip_witness:
  "decode_all decode_frame 3
     (concat (map frame_bytes [newFrame cmdSYN 1, \<lparr>frame_cmd = cmdPSH, frame_sid = 1, frame_data = [1, 2]\<rparr>]) @ []) =
   ([newFrame cmdSYN 1, \<lparr>frame_cmd = cmdPSH, frame_sid = 1, frame_data = [1, 2]\<rparr>], [])"
  by (rule frames_roundtrip) (simp_all add: frame_ok_def newFrame_def has_payload_def cmd_defs)

text \<open>the header codec is a bijection on seven bytes: writing the three fields read from a
  header gives the same bytes, and reading what was written gives the same fields.\<close>

theorem header_bijective:
  assumes "length h = 7"
  shows "frame_header (Cmd h) (StreamID h) (Length h) = h \<and>
         Cmd (frame_header cmd sid len) = cmd \<and> StreamID (frame_header cmd sid len) = sid \<and>
         Length (frame_header cmd sid len) = len"
  using frame_header_exhaust [OF assms] by (simp add: wire_simps)

theorem header_bijective_witness:
  "frame_header (Cmd [2, 0, 0, 1, 0, 255, 7]) (StreamID [2, 0, 0, 1, 0, 255, 7])
     (Length [2, 0, 0, 1, 0, 255, 7]) = [2, 0, 0, 1, 0, 255, 7]"
  using header_bijective [of "[2, 0, 0, 1, 0, 255, 7]"] by simp

end
