(* ===== verification/SessionState.thy ===== *)
theory SessionState
  imports Padding Pipe Frame
begin

text \<open>
  The state of \<open>internal/pkg/proxy/session\<close>: the connection as the session sees it, the
  \<open>Stream\<close> objects, the \<open>Session\<close> itself with its constructors, and closing (\<open>Close\<close>,
  \<open>closeLocally\<close>), which the write path needs. A stream object is an index into
  \<open>s_objs\<close>, so that a handler keeps its object after the map has dropped it. Callbacks
  and goroutines the code starts are recorded in \<open>s_events\<close>; the theories of their
  owners say what they do. \<open>paddingBuf\<close> and \<open>pktSizesBuf\<close>, which only recycle memory, are
  left out, and so are the mutexes: an operation under one lock is one update.
\<close>

section \<open>The connection\<close>

text \<open>
  \<open>net.Conn\<close> belongs to the environment. \<open>c_in\<close> is all the peer will ever send, after
  which reads give \<open>c_in_end\<close>; \<open>c_script\<close> lists what the coming calls of \<open>Write\<close> do (an
  exhausted script succeeds); \<open>c_out\<close> records each write that reached the connection with
  the write deadline in force, in seconds, \<open>None\<close> for no deadline.
\<close>

datatype wres = WOk | WFail nat go_error

record conn =
  c_in :: "byte list"
  c_in_end :: go_error
  c_out :: "(byte list \<times> nat option) list"
  c_script :: "wres list"
  c_deadline :: "nat option"
  c_closed :: bool
  c_close_err :: "go_error option"

definition conn_Write :: "byte list \<Rightarrow> conn \<Rightarrow> (nat \<times> go_error option) \<times> conn" where
  "conn_Write b c =
     (if c_closed c then ((0, Some ErrNetClosed), c)
      else (case c_script c of
              WFail n e # rest \<Rightarrow>
                ((min n (length b), Some e),
                 c\<lparr>c_out := c_out c @ [(take n b, c_deadline c)], c_script := rest\<rparr>)
            | rest \<Rightarrow>
                ((length b, None), c\<lparr>c_out := c_out c @ [(b, c_deadline c)], c_script := tl rest\<rparr>)))"

text \<open>\<open>io.ReadFull(conn, buf)\<close> for a buffer of \<open>n > 0\<close> bytes.\<close>

definition conn_ReadFull :: "nat \<Rightarrow> conn \<Rightarrow> (go_error + byte list) \<times> conn" where
  "conn_ReadFull n c =
     (if c_closed c then (Inl ErrNetClosed, c)
      else if n \<le> length (c_in c) then (Inr (take n (c_in c)), c\<lparr>c_in := drop n (c_in c)\<rparr>)
      else (Inl (if c_in c \<noteq> [] \<and> c_in_end c = ErrEOF then ErrUnexpectedEOF else c_in_end c),
            c\<lparr>c_in := []\<rparr>))"

definition conn_Close :: "conn \<Rightarrow> go_error option \<times> conn" where
  "conn_Close c =
     (if c_closed c then (Some ErrNetClosed, c) else (c_close_err c, c\<lparr>c_closed := True\<rparr>))"

section \<open>Streams and sessions\<close>

record Stream =
  str_id :: u32
  str_pipe :: pipe
  str_writeDeadline :: PipeDeadline
  str_dieOnce :: bool
  str_dieErr :: "go_error option"
  str_dieHook :: "nat option"
  str_reportOnce :: bool

text \<open>
  What a session makes others do: run the session's or a stream's die hook (a closure is a
  number), start the handler goroutine of a new stream, arm or disarm the three-second
  watcher of an opened stream.
\<close>

datatype event =
    EvSessionHook nat
  | EvStreamHook nat nat
  | EvNewStream nat
  | EvWatch nat
  | EvUnwatch nat
  | EvAlert "byte list"

record Session =
  s_conn :: conn
  s_streams :: "(u32 \<times> nat) list"
  s_objs :: "Stream list"
  s_streamId :: u32
  s_die :: bool
  s_dieHook :: "nat option"
  s_synDone :: "nat option"
  s_seq :: u64
  s_idleSince :: int
  s_padding :: "PaddingFactory option"
  s_peerVersion :: byte
  s_isClient :: bool
  s_sendPadding :: bool
  s_buffering :: bool
  s_buffer :: "byte list"
  s_pktCounter :: u32
  s_onNewStream :: bool
  s_watches :: nat
  s_rng :: rng
  s_events :: "event list"

definition NewClientSession :: "conn \<Rightarrow> PaddingFactory option \<Rightarrow> rng \<Rightarrow> Session" where
  "NewClientSession c padding rg =
     \<lparr>s_conn = c, s_streams = [], s_objs = [], s_streamId = 0, s_die = False, s_dieHook = None,
      s_synDone = None, s_seq = 0, s_idleSince = 0, s_padding = padding, s_peerVersion = 0,
      s_isClient = True, s_sendPadding = True, s_buffering = False, s_buffer = [],
      s_pktCounter = 0, s_onNewStream = False, s_watches = 0, s_rng = rg, s_events = []\<rparr>"

definition NewServerSession :: "conn \<Rightarrow> bool \<Rightarrow> PaddingFactory option \<Rightarrow> rng \<Rightarrow> Session" where
  "NewServerSession c onNewStream padding rg =
     \<lparr>s_conn = c, s_streams = [], s_objs = [], s_streamId = 0, s_die = False, s_dieHook = None,
      s_synDone = None, s_seq = 0, s_idleSince = 0, s_padding = padding, s_peerVersion = 0,
      s_isClient = False, s_sendPadding = False, s_buffering = False, s_buffer = [],
      s_pktCounter = 0, s_onNewStream = onNewStream, s_watches = 0, s_rng = rg, s_events = []\<rparr>"

definition newStream_obj :: "u32 \<Rightarrow> Stream" where
  "newStream_obj sid =
     \<lparr>str_id = sid, str_pipe = Pipe, str_writeDeadline = MakePipeDeadline, str_dieOnce = False,
      str_dieErr = None, str_dieHook = None, str_reportOnce = False\<rparr>"

text \<open>\<open>newStream\<close>: allocates an object and returns its index.\<close>

definition newStream :: "u32 \<Rightarrow> Session \<Rightarrow> nat \<times> Session" where
  "newStream sid s = (length (s_objs s), s\<lparr>s_objs := s_objs s @ [newStream_obj sid]\<rparr>)"

definition obj :: "Session \<Rightarrow> nat \<Rightarrow> Stream" where
  "obj s ref = s_objs s ! ref"

definition set_obj :: "nat \<Rightarrow> Stream \<Rightarrow> Session \<Rightarrow> Session" where
  "set_obj ref st s = s\<lparr>s_objs := (s_objs s)[ref := st]\<rparr>"

definition emit :: "event \<Rightarrow> Session \<Rightarrow> Session" where
  "emit e s = s\<lparr>s_events := s_events s @ [e]\<rparr>"

section \<open>Closing\<close>

definition IsClosed :: "Session \<Rightarrow> bool" where
  "IsClosed s = s_die s"

definition SetDieHook :: "nat \<Rightarrow> Session \<Rightarrow> Session" where
  "SetDieHook hook s = s\<lparr>s_dieHook := Some hook\<rparr>"

definition closeLocally :: "nat \<Rightarrow> Session \<Rightarrow> Session" where
  "closeLocally ref s =
     (let st = obj s ref
      in if str_dieOnce st then s
         else
           (let st1 = st\<lparr>str_dieOnce := True, str_dieErr := Some ErrNetClosed,
                         str_pipe := PipeReader_Close (str_pipe st)\<rparr>
            in case str_dieHook st1 of
                 Some h \<Rightarrow> emit (EvStreamHook ref h) (set_obj ref (st1\<lparr>str_dieHook := None\<rparr>) s)
               | None \<Rightarrow> set_obj ref st1 s))"

text \<open>
  \<open>Session.Close\<close>: the hook, then every stream in the map's iteration order, then the
  connection; a second call does nothing.
\<close>

definition Session_Close :: "Session \<Rightarrow> go_error option \<times> Session" where
  "Session_Close s =
     (if s_die s then (Some ErrClosedPipe, s)
      else
        (let s1 = s\<lparr>s_die := True\<rparr>;
             s2 = (case s_dieHook s1 of
                     Some h \<Rightarrow> (emit (EvSessionHook h) s1)\<lparr>s_dieHook := None\<rparr>
                   | None \<Rightarrow> s1);
             s3 = foldl (\<lambda>s' ref. closeLocally ref s') s2 (map snd (s_streams s2));
             s4 = s3\<lparr>s_streams := []\<rparr>;
             (err, c) = conn_Close (s_conn s4)
         in (err, s4\<lparr>s_conn := c\<rparr>)))"

section \<open>The object store\<close>

text \<open>Every entry of the stream map points to an object of that id, and ids are distinct.\<close>

definition streams_ok :: "Session \<Rightarrow> bool" where
  "streams_ok s \<longleftrightarrow> distinct (map fst (s_streams s)) \<and>
     (\<forall>(sid, ref) \<in> set (s_streams s). ref < length (s_objs s) \<and> str_id (obj s ref) = sid)"

lemma length_set_obj [simp]: "length (s_objs (set_obj ref st s)) = length (s_objs s)"
  by (simp add: set_obj_def)

lemma set_obj_frame [simp]:
  "s_streams (set_obj ref st s) = s_streams s" "s_conn (set_obj ref st s) = s_conn s"
  "s_die (set_obj ref st s) = s_die s" "s_events (set_obj ref st s) = s_events s"
  "s_dieHook (set_obj ref st s) = s_dieHook s"
  by (simp_all add: set_obj_def)

lemma emit_frame [simp]:
  "s_streams (emit e s) = s_streams s" "s_conn (emit e s) = s_conn s" "s_objs (emit e s) = s_objs s"
  "s_die (emit e s) = s_die s" "s_dieHook (emit e s) = s_dieHook s"
  "s_events (emit e s) = s_events s @ [e]" "obj (emit e s) = obj s"
  by (simp_all add: emit_def obj_def fun_eq_iff)

lemma obj_set_obj: "ref < length (s_objs s) \<Longrightarrow>
    obj (set_obj ref st s) r = (if r = ref then st else obj s r)"
  by (simp add: obj_def set_obj_def)

lemma closeLocally_frame [simp]:
  "s_streams (closeLocally ref s) = s_streams s" "s_conn (closeLocally ref s) = s_conn s"
  "length (s_objs (closeLocally ref s)) = length (s_objs s)" "s_die (closeLocally ref s) = s_die s"
  "s_dieHook (closeLocally ref s) = s_dieHook s"
  by (simp_all add: closeLocally_def Let_def split: option.split)

lemma closeLocally_obj:
  assumes "ref < length (s_objs s)"
  shows "obj (closeLocally ref s) r =
    (if r = ref \<and> \<not> str_dieOnce (obj s ref)
     then (obj s ref)\<lparr>str_dieOnce := True, str_dieErr := Some ErrNetClosed,
            str_pipe := PipeReader_Close (str_pipe (obj s ref)), str_dieHook := None\<rparr>
     else obj s r)"
  using assms by (cases "obj s ref") (auto simp: closeLocally_def Let_def obj_set_obj split: option.split)

lemma closeLocally_dead: "ref < length (s_objs s) \<Longrightarrow> str_dieOnce (obj (closeLocally ref s) ref)"
  by (simp add: closeLocally_obj)

lemma closeLocally_keeps_dead:
  "ref < length (s_objs s) \<Longrightarrow> str_dieOnce (obj s r) \<Longrightarrow> obj (closeLocally ref s) r = obj s r"
  by (auto simp: closeLocally_obj)

lemma close_streams_frame [simp]:
  "s_streams (foldl (\<lambda>s' ref. closeLocally ref s') s refs) = s_streams s"
  "s_conn (foldl (\<lambda>s' ref. closeLocally ref s') s refs) = s_conn s"
  "length (s_objs (foldl (\<lambda>s' ref. closeLocally ref s') s refs)) = length (s_objs s)"
  "s_die (foldl (\<lambda>s' ref. closeLocally ref s') s refs) = s_die s"
  "s_dieHook (foldl (\<lambda>s' ref. closeLocally ref s') s refs) = s_dieHook s"
  by (induction refs arbitrary: s) simp_all

lemma close_streams_obj:
  assumes "\<forall>ref \<in> set refs. ref < length (s_objs s)"
  shows "obj (foldl (\<lambda>s' ref. closeLocally ref s') s refs) r =
    (if r \<in> set refs \<and> \<not> str_dieOnce (obj s r)
     then (obj s r)\<lparr>str_dieOnce := True, str_dieErr := Some ErrNetClosed,
            str_pipe := PipeReader_Close (str_pipe (obj s r)), str_dieHook := None\<rparr>
     else obj s r)"
  using assms
proof (induction refs arbitrary: s)
  case Nil
  then show ?case by simp
next
  case (Cons ref refs)
  then have "obj (foldl (\<lambda>s' ref. closeLocally ref s') (closeLocally ref s) refs) r =
    (if r \<in> set refs \<and> \<not> str_dieOnce (obj (closeLocally ref s) r)
     then (obj (closeLocally ref s) r)\<lparr>str_dieOnce := True, str_dieErr := Some ErrNetClosed,
            str_pipe := PipeReader_Close (str_pipe (obj (closeLocally ref s) r)), str_dieHook := None\<rparr>
     else obj (closeLocally ref s) r)"
    by simp
  then show ?case using Cons.prems by (auto simp: closeLocally_obj)
qed

text \<open>The first half of \<open>Close\<close>: marked closed, the hook taken.\<close>

definition close_begin :: "Session \<Rightarrow> Session" where
  "close_begin s =
     (case s_dieHook s of
        Some h \<Rightarrow> (emit (EvSessionHook h) (s\<lparr>s_die := True\<rparr>))\<lparr>s_dieHook := None\<rparr>
      | None \<Rightarrow> s\<lparr>s_die := True\<rparr>)"

lemma close_begin_frame [simp]:
  "s_streams (close_begin s) = s_streams s" "s_conn (close_begin s) = s_conn s"
  "s_objs (close_begin s) = s_objs s" "obj (close_begin s) = obj s" "s_die (close_begin s)"
  "s_dieHook (close_begin s) = None"
  by (simp_all add: close_begin_def emit_def obj_def fun_eq_iff split: option.split)

lemma Session_Close_open:
  assumes "\<not> s_die s"
  shows "Session_Close s =
    (fst (conn_Close (s_conn s)),
     (foldl (\<lambda>s' ref. closeLocally ref s') (close_begin s) (map snd (s_streams s)))
       \<lparr>s_streams := [], s_conn := snd (conn_Close (s_conn s))\<rparr>)"
  using assms
  by (cases "s_dieHook s") (simp_all add: Session_Close_def close_begin_def Let_def split_beta)

lemma conn_Close_closed [simp]: "c_closed (snd (conn_Close c))"
  by (simp add: conn_Close_def)

lemma obj_updates [simp]:
  "obj (s\<lparr>s_streams := x\<rparr>) = obj s" "obj (s\<lparr>s_conn := c\<rparr>) = obj s" "obj (s\<lparr>s_die := d\<rparr>) = obj s"
  by (simp_all add: obj_def fun_eq_iff)

fun is_session_hook :: "event \<Rightarrow> bool" where
  "is_session_hook (EvSessionHook h) = True"
| "is_session_hook _ = False"

lemma closeLocally_session_hooks [simp]:
  "filter is_session_hook (s_events (closeLocally ref s)) = filter is_session_hook (s_events s)"
  by (simp add: closeLocally_def Let_def split: option.split)

lemma close_streams_session_hooks [simp]:
  "filter is_session_hook (s_events (foldl (\<lambda>s' ref. closeLocally ref s') s refs)) =
   filter is_session_hook (s_events s)"
  by (induction refs arbitrary: s) simp_all

lemma close_begin_session_hooks:
  "filter is_session_hook (s_events (close_begin s)) = filter is_session_hook (s_events s) @
     (case s_dieHook s of Some h \<Rightarrow> [EvSessionHook h] | None \<Rightarrow> [])"
  by (simp add: close_begin_def split: option.split)

lemma streams_ok_refs: "streams_ok s \<Longrightarrow> (sid, ref) \<in> set (s_streams s) \<Longrightarrow>
    ref < length (s_objs s) \<and> str_id (obj s ref) = sid"
  by (auto simp: streams_ok_def)

section \<open>Properties\<close>

text \<open>closing a session: the first call closes the connection, runs the session's hook
  exactly once, empties the map and leaves every stream that was in it dead, its pipe
  closed with the bytes received so far still readable; any later call returns
  \<open>ErrClosedPipe\<close> and changes nothing.\<close>

theorem Session_Close_effect:
  assumes "streams_ok s" and "\<not> s_die s"
  shows "case Session_Close s of (err, s') \<Rightarrow>
      s_die s' \<and> c_closed (s_conn s') \<and> s_streams s' = [] \<and> s_dieHook s' = None \<and>
      filter is_session_hook (s_events s') = filter is_session_hook (s_events s) @
        (case s_dieHook s of Some h \<Rightarrow> [EvSessionHook h] | None \<Rightarrow> []) \<and>
      (\<forall>(sid, ref) \<in> set (s_streams s). str_dieOnce (obj s' ref) \<and>
         (if str_dieOnce (obj s ref) then obj s' ref = obj s ref
          else str_dieErr (obj s' ref) = Some ErrNetClosed \<and> p_done (str_pipe (obj s' ref)) \<and>
               unread (str_pipe (obj s' ref)) = unread (str_pipe (obj s ref)))) \<and>
      Session_Close s' = (Some ErrClosedPipe, s')"
proof -
  let ?refs = "map snd (s_streams s)"
  have refs: "\<forall>ref \<in> set ?refs. ref < length (s_objs (close_begin s))"
    using streams_ok_refs [OF assms(1)] by auto
  note objs = close_streams_obj [OF refs]
  have mem: "ref \<in> snd ` set (s_streams s)" if "(sid, ref) \<in> set (s_streams s)" for sid ref
    using that by force
  show ?thesis
    unfolding Session_Close_open [OF assms(2)]
    by (auto simp: objs mem close_begin_session_hooks Session_Close_def PipeReader_Close_def)
qed

theorem Session_Close_effect_witness:
  "s_streams (snd (Session_Close (snd (newStream 7
     ((NewServerSession \<lparr>c_in = [], c_in_end = ErrEOF, c_out = [], c_script = [], c_deadline = None,
        c_closed = False, c_close_err = None\<rparr> True None (\<lambda>_. 0))\<lparr>s_streams := [(7, 0)]\<rparr>))))) = []"
proof -
  let ?s = "snd (newStream 7
     ((NewServerSession \<lparr>c_in = [], c_in_end = ErrEOF, c_out = [], c_script = [], c_deadline = None,
        c_closed = False, c_close_err = None\<rparr> True None (\<lambda>_. 0))\<lparr>s_streams := [(7, 0)]\<rparr>))"
  have "streams_ok ?s" "\<not> s_die ?s"
    by (simp_all add: streams_ok_def newStream_def NewServerSession_def obj_def newStream_obj_def)
  from Session_Close_effect [OF this] show ?thesis by (auto split: prod.splits)
qed

end
