(* ===== verification/SessionWrite.thy ===== *)
theory SessionWrite
  imports SessionState
begin

text \<open>
  The write path of \<open>internal/pkg/proxy/session/session.go\<close>: \<open>writeDataFrame\<close>,
  \<open>writeControlFrame\<close>, \<open>writeConnWithDeadline\<close>, \<open>writeConn\<close> and \<open>writeConnLocked\<close> with
  its padding. \<open>connLock\<close> makes each \<open>writeConn\<close> atomic. A function that can panic returns
  \<open>None\<close> then.
\<close>

section \<open>The code\<close>

text \<open>
  The loop over the drawn packet sizes: \<open>b\<close> is what is left of the payload, \<open>acc\<close> the
  packet assembled so far; the result has both at the end of the loop. A slice
  expression out of range panics: \<open>b[:l]\<close> with a negative \<open>l\<close>, \<open>zeroBuf[:n]\<close> with \<open>n\<close>
  above its 65536 bytes.
\<close>

definition waste_bytes :: "int \<Rightarrow> byte list" where
  "waste_bytes n = frame_header cmdWaste 0 (of_int n) @ replicate (nat n) 0"

fun assemble :: "int list \<Rightarrow> byte list \<Rightarrow> byte list \<Rightarrow> (byte list \<times> byte list) panics" where
  "assemble [] b acc = Some (acc, b)"
| "assemble (l # ls) b acc =
     (let remaining = int (length b)
      in if l = CheckMark then
           (if remaining = 0 then Some (acc, b) else assemble ls b acc)
         else if remaining > l then
           (if l < 0 then None else assemble ls (drop (nat l) b) (acc @ take (nat l) b))
         else if remaining > 0 then
           (let paddingLen = l - remaining - int headerOverHeadSize
            in if paddingLen > 0 then
                 (if paddingLen > 65536 then None
                  else assemble ls [] (acc @ b @ waste_bytes paddingLen))
               else assemble ls [] (acc @ b))
         else
           (if l > 65536 then None else assemble ls [] (acc @ waste_bytes l)))"

definition s_conn_Write :: "byte list \<Rightarrow> Session \<Rightarrow> (nat \<times> go_error option) \<times> Session" where
  "s_conn_Write b s = (case conn_Write b (s_conn s) of (r, c) \<Rightarrow> (r, s\<lparr>s_conn := c\<rparr>))"

definition writeConnLocked :: "byte list \<Rightarrow> Session \<Rightarrow> ((nat \<times> go_error option) \<times> Session) panics" where
  "writeConnLocked b0 s0 =
     (if s_buffering s0 then Some ((length b0, None), s0\<lparr>s_buffer := s_buffer s0 @ b0\<rparr>)
      else
        (let b = s_buffer s0 @ b0;
             s = s0\<lparr>s_buffer := []\<rparr>
         in if s_sendPadding s then
              (let pkt = s_pktCounter s + 1;
                   s1 = s\<lparr>s_pktCounter := pkt\<rparr>
               in case s_padding s1 of
                    None \<Rightarrow> Some (s_conn_Write b (s1\<lparr>s_sendPadding := False\<rparr>))
                  | Some paddingF \<Rightarrow>
                      if pkt < Stop paddingF then
                        (case AppendRecordPayloadSizes paddingF pkt [] (s_rng s1) of
                           None \<Rightarrow> None
                         | Some (pktSizes, rg) \<Rightarrow>
                             (case assemble pktSizes b [] of
                                None \<Rightarrow> None
                              | Some (assembled, b') \<Rightarrow>
                                  (case s_conn_Write (assembled @ b') (s1\<lparr>s_rng := rg\<rparr>) of
                                     ((n, err), s2) \<Rightarrow>
                                       if err \<noteq> None then Some ((0, err), s2)
                                       else Some ((length b, None), s2))))
                      else Some (s_conn_Write b (s1\<lparr>s_sendPadding := False\<rparr>)))
            else Some (s_conn_Write b s)))"

definition writeConn :: "byte list \<Rightarrow> Session \<Rightarrow> ((nat \<times> go_error option) \<times> Session) panics" where
  "writeConn b s = writeConnLocked b s"

definition set_conn_deadline :: "nat option \<Rightarrow> Session \<Rightarrow> Session" where
  "set_conn_deadline d s = s\<lparr>s_conn := (s_conn s)\<lparr>c_deadline := d\<rparr>\<rparr>"

definition writeConnWithDeadline ::
  "byte list \<Rightarrow> nat \<Rightarrow> Session \<Rightarrow> ((nat \<times> go_error option) \<times> Session) panics" where
  "writeConnWithDeadline b deadline s =
     (case writeConnLocked b (set_conn_deadline (Some deadline) s) of
        None \<Rightarrow> None
      | Some (r, s') \<Rightarrow> Some (r, set_conn_deadline None s'))"

definition writeControlFrame :: "frame \<Rightarrow> Session \<Rightarrow> ((nat \<times> go_error option) \<times> Session) panics" where
  "writeControlFrame f s =
     (let dataLen = length (frame_data f);
          buffer = frame_header (frame_cmd f) (frame_sid f) (of_nat dataLen) @ frame_data f
      in case writeConnWithDeadline buffer 5 s of
           None \<Rightarrow> None
         | Some ((n, err), s') \<Rightarrow>
             if err \<noteq> None then Some ((0, err), snd (Session_Close s'))
             else Some ((dataLen, None), s'))"

definition maxFramePayload :: nat where
  "maxFramePayload = 65536 - headerOverHeadSize"

function write_chunks :: "u32 \<Rightarrow> byte list \<Rightarrow> Session \<Rightarrow> (go_error option \<times> Session) panics" where
  "write_chunks sid data s =
     (if length data > 0 then
        (let chunkLen = min (length data) maxFramePayload;
             frame = frame_header cmdPSH sid (of_nat chunkLen) @ take chunkLen data
         in case writeConn frame s of
              None \<Rightarrow> None
            | Some ((n, err), s') \<Rightarrow>
                if err \<noteq> None then Some (err, s')
                else write_chunks sid (drop chunkLen data) s')
      else Some (None, s))"
  by pat_completeness auto
termination
  by (relation "measure (\<lambda>(sid, data, s). length data)") (auto simp: maxFramePayload_def)

declare write_chunks.simps [simp del]

lemma write_chunks_Nil [simp]: "write_chunks sid [] s = Some (None, s)"
  by (simp add: write_chunks.simps)

definition writeDataFrame ::
  "u32 \<Rightarrow> byte list \<Rightarrow> Session \<Rightarrow> ((nat \<times> go_error option) \<times> Session) panics" where
  "writeDataFrame sid data s =
     (case write_chunks sid data s of
        None \<Rightarrow> None
      | Some (Some err, s') \<Rightarrow> Some ((0, Some err), s')
      | Some (None, s') \<Rightarrow> Some ((length data, None), s'))"

section \<open>Padding leaves the payload alone\<close>

definition waste_frame :: "nat \<Rightarrow> frame" where
  "waste_frame n = \<lparr>frame_cmd = cmdWaste, frame_sid = 0, frame_data = replicate n 0\<rparr>"

lemma waste_bytes_frame: "0 \<le> n \<Longrightarrow> waste_bytes n = frame_bytes (waste_frame (nat n))"
  by (simp add: waste_bytes_def frame_bytes_def waste_frame_def)

lemma waste_frame_ok: "n < 65536 \<Longrightarrow> frame_ok (waste_frame n)"
  by (simp add: frame_ok_def waste_frame_def has_payload_def)

definition wastes :: "nat list \<Rightarrow> byte list" where
  "wastes ws = concat (map (frame_bytes \<circ> waste_frame) ws)"

definition waste_sizes_ok :: "nat list \<Rightarrow> bool" where
  "waste_sizes_ok ws \<longleftrightarrow> list_all (\<lambda>w. 1 \<le> w \<and> w \<le> 65535) ws"

lemma wastes_simps [simp]:
  "wastes [] = []" "wastes (w # ws) = frame_bytes (waste_frame w) @ wastes ws"
  "waste_sizes_ok []" "waste_sizes_ok (w # ws) = (1 \<le> w \<and> w \<le> 65535 \<and> waste_sizes_ok ws)"
  by (simp_all add: wastes_def waste_sizes_ok_def)

lemma assemble_empty:
  "list_all size_ok sizes \<Longrightarrow>
   \<exists>ws. assemble sizes [] acc = Some (acc @ wastes ws, []) \<and> waste_sizes_ok ws"
proof (induction sizes arbitrary: acc)
  case Nil
  then show ?case by (intro exI [of _ "[]"]) simp
next
  case (Cons l sizes)
  show ?case
  proof (cases "l = CheckMark")
    case True
    then show ?thesis by (intro exI [of _ "[]"]) simp
  next
    case False
    with Cons.prems have l: "1 \<le> l" "l \<le> 65535" by (auto simp: size_ok_def)
    obtain ws where "assemble sizes [] (acc @ waste_bytes l) = Some ((acc @ waste_bytes l) @ wastes ws, [])"
      and "waste_sizes_ok ws" using Cons by fastforce
    then show ?thesis using False l
      by (intro exI [of _ "nat l # ws"]) (auto simp: waste_bytes_frame Let_def)
  qed
qed

lemma assemble_total:
  "list_all size_ok sizes \<Longrightarrow>
   \<exists>asm left ws. assemble sizes b acc = Some (asm, left) \<and> asm @ left = acc @ b @ wastes ws \<and>
     waste_sizes_ok ws"
proof (induction sizes arbitrary: b acc)
  case Nil
  then show ?case by (intro exI [of _ acc] exI [of _ b] exI [of _ "[]"]) simp
next
  case (Cons l sizes)
  have rest: "list_all size_ok sizes" using Cons.prems by simp
  show ?case
  proof (cases "b = []")
    case True
    then show ?thesis using assemble_empty [OF Cons.prems, of acc] by fastforce
  next
    case False
    show ?thesis
    proof (cases "l = CheckMark")
      case True
      then show ?thesis using False Cons.IH [OF rest, of b acc] by simp
    next
      case size: False
      with Cons.prems have l: "1 \<le> l" "l \<le> 65535" by (auto simp: size_ok_def)
      show ?thesis
      proof (cases "int (length b) > l")
        case True
        then show ?thesis using size l Cons.IH [OF rest, of "drop (nat l) b" "acc @ take (nat l) b"]
          by simp
      next
        case short: False
        let ?p = "l - int (length b) - 7"
        show ?thesis
        proof (cases "?p > 0")
          case True
          obtain ws where "assemble sizes [] (acc @ b @ waste_bytes ?p) =
              Some ((acc @ b @ waste_bytes ?p) @ wastes ws, [])" "waste_sizes_ok ws"
            using assemble_empty [OF rest] by blast
          then show ?thesis using short size l True False
            by (intro exI [of _ "(acc @ b @ waste_bytes ?p) @ wastes ws"] exI [of _ "[]"] exI [of _ "nat ?p # ws"])
               (auto simp: waste_bytes_frame Let_def)
        next
          case nopad: False
          obtain ws where "assemble sizes [] (acc @ b) = Some ((acc @ b) @ wastes ws, [])" "waste_sizes_ok ws"
            using assemble_empty [OF rest] by blast
          then show ?thesis using short size l nopad False
            by (intro exI [of _ "(acc @ b) @ wastes ws"] exI [of _ "[]"] exI [of _ ws]) (auto simp: Let_def)
        qed
      qed
    qed
  qed
qed

section \<open>What a write leaves unchanged\<close>

text \<open>The fields the write path may change; everything else is as before.\<close>

definition write_changes :: "Session \<Rightarrow> Session \<Rightarrow> bool" where
  "write_changes s s' \<longleftrightarrow>
     s' = s\<lparr>s_conn := s_conn s', s_sendPadding := s_sendPadding s', s_buffer := s_buffer s',
            s_pktCounter := s_pktCounter s', s_rng := s_rng s'\<rparr> \<and>
     c_in (s_conn s') = c_in (s_conn s) \<and> c_in_end (s_conn s') = c_in_end (s_conn s) \<and>
     c_closed (s_conn s') = c_closed (s_conn s) \<and> c_close_err (s_conn s') = c_close_err (s_conn s)"

lemma write_changes_refl [simp]: "write_changes s s"
  by (simp add: write_changes_def)

lemma write_changes_trans: "write_changes s s' \<Longrightarrow> write_changes s' s'' \<Longrightarrow> write_changes s s''"
  by (cases s; cases s'; cases s'') (simp add: write_changes_def)

lemma write_changesD:
  assumes "write_changes s s'"
  shows "s_streams s' = s_streams s" "s_objs s' = s_objs s" "s_die s' = s_die s"
    "s_dieHook s' = s_dieHook s" "s_events s' = s_events s" "s_isClient s' = s_isClient s"
    "s_peerVersion s' = s_peerVersion s" "s_padding s' = s_padding s" "s_buffering s' = s_buffering s"
    "s_streamId s' = s_streamId s" "s_synDone s' = s_synDone s" "s_onNewStream s' = s_onNewStream s"
    "obj s' = obj s" "s_watches s' = s_watches s"
    "c_in (s_conn s') = c_in (s_conn s)" "c_in_end (s_conn s') = c_in_end (s_conn s)"
    "c_closed (s_conn s') = c_closed (s_conn s)"
  using assms by (cases s; cases s'; simp add: write_changes_def obj_def fun_eq_iff)+

lemma conn_Write_frame:
  "conn_Write b c = (r, c') \<Longrightarrow> c_in c' = c_in c \<and> c_in_end c' = c_in_end c \<and> c_closed c' = c_closed c \<and>
     c_close_err c' = c_close_err c \<and> c_deadline c' = c_deadline c"
  by (auto simp: conn_Write_def split: if_splits list.splits wres.splits)

lemma s_conn_Write_changes: "s_conn_Write b s = (r, s') \<Longrightarrow> write_changes s s'"
  by (auto simp: s_conn_Write_def write_changes_def split: prod.splits dest!: conn_Write_frame)

lemma write_changes_weaken [simp]:
  "write_changes (s\<lparr>s_buffer := x\<rparr>) s' = write_changes s s'"
  "write_changes (s\<lparr>s_pktCounter := k\<rparr>) s' = write_changes s s'"
  "write_changes (s\<lparr>s_sendPadding := q\<rparr>) s' = write_changes s s'"
  "write_changes (s\<lparr>s_rng := rg\<rparr>) s' = write_changes s s'"
  "write_changes (set_conn_deadline d s) s' = write_changes s s'"
  "write_changes s (set_conn_deadline d s') = write_changes s s'"
  by (cases s; cases s'; simp add: write_changes_def set_conn_deadline_def)+

lemma writeConnLocked_changes: "writeConnLocked b s = Some (r, s') \<Longrightarrow> write_changes s s'"
  by (auto simp: writeConnLocked_def Let_def dest!: s_conn_Write_changes
      split: if_splits option.splits prod.splits)
     (simp add: write_changes_def)

lemma writeConnWithDeadline_changes: "writeConnWithDeadline b d s = Some (r, s') \<Longrightarrow> write_changes s s'"
  by (auto simp: writeConnWithDeadline_def dest!: writeConnLocked_changes split: option.splits)

lemma write_chunks_changes: "write_chunks sid data s = Some (r, s') \<Longrightarrow> write_changes s s'"
proof (induction sid data s rule: write_chunks.induct)
  case (1 sid data s)
  show ?case
  proof (cases "data = []")
    case True
    then show ?thesis using "1.prems" by simp
  next
    case False
    then show ?thesis
      using "1.prems" "1.IH"
      by (auto simp: write_chunks.simps [of sid data s] Let_def writeConn_def
          dest!: writeConnLocked_changes intro: write_changes_trans split: option.splits if_splits)
  qed
qed

lemma writeDataFrame_changes: "writeDataFrame sid data s = Some (r, s') \<Longrightarrow> write_changes s s'"
  by (auto simp: writeDataFrame_def dest!: write_chunks_changes split: option.splits prod.splits)

section \<open>The outgoing stream is always whole frames\<close>

text \<open>A connection on which writes succeed, and a padding factory that came from the parser.\<close>

definition healthy :: "Session \<Rightarrow> bool" where
  "healthy s \<longleftrightarrow> \<not> c_closed (s_conn s) \<and> list_all (\<lambda>r. r = WOk) (c_script (s_conn s)) \<and>
     (\<forall>p. s_padding s = Some p \<longrightarrow> factory_ok p)"

definition wire_out :: "Session \<Rightarrow> byte list" where
  "wire_out s = concat (map fst (c_out (s_conn s)))"

text \<open>What has been written, with what is still held back.\<close>

definition sent :: "Session \<Rightarrow> byte list" where
  "sent s = wire_out s @ s_buffer s"

lemma s_conn_Write_healthy:
  assumes "healthy s"
  shows "\<exists>s'. s_conn_Write b s = ((length b, None), s') \<and> healthy s' \<and>
           wire_out s' = wire_out s @ b \<and> s_buffer s' = s_buffer s"
  using assms
  by (cases "c_script (s_conn s)")
     (auto simp: s_conn_Write_def conn_Write_def healthy_def wire_out_def split: wres.splits)

lemma healthy_updates [simp]:
  "healthy (s\<lparr>s_buffer := x\<rparr>) = healthy s" "healthy (s\<lparr>s_pktCounter := k\<rparr>) = healthy s"
  "healthy (s\<lparr>s_sendPadding := q\<rparr>) = healthy s" "healthy (s\<lparr>s_rng := rg\<rparr>) = healthy s"
  "healthy (set_conn_deadline d s) = healthy s"
  by (simp_all add: healthy_def set_conn_deadline_def)

lemma wire_out_updates [simp]:
  "wire_out (s\<lparr>s_buffer := x\<rparr>) = wire_out s" "wire_out (s\<lparr>s_pktCounter := k\<rparr>) = wire_out s"
  "wire_out (s\<lparr>s_sendPadding := q\<rparr>) = wire_out s" "wire_out (s\<lparr>s_rng := rg\<rparr>) = wire_out s"
  "wire_out (set_conn_deadline d s) = wire_out s" "s_buffer (set_conn_deadline d s) = s_buffer s"
  by (simp_all add: wire_out_def set_conn_deadline_def)

lemma writeConnLocked_healthy:
  assumes "healthy s"
  shows "\<exists>n s' ws. writeConnLocked b s = Some ((n, None), s') \<and> healthy s' \<and> length b \<le> n \<and>
           sent s' = sent s @ b @ wastes ws \<and> waste_sizes_ok ws"
proof -
  have plain: "\<exists>s'. s_conn_Write x t = ((length x, None), s') \<and> healthy s' \<and> sent s' = wire_out t @ x"
    if "healthy t" "s_buffer t = []" for x t
    using s_conn_Write_healthy [OF that(1), of x] that(2) by (auto simp: sent_def)
  show ?thesis
  proof (cases "s_buffering s")
    case True
    then show ?thesis using assms
      by (intro exI [of _ "length b"] exI [of _ "s\<lparr>s_buffer := s_buffer s @ b\<rparr>"] exI [of _ "[]"])
         (simp add: writeConnLocked_def sent_def)
  next
    case False
    let ?b = "s_buffer s @ b" and ?t = "s\<lparr>s_buffer := [], s_pktCounter := s_pktCounter s + 1\<rparr>"
    consider (off) "\<not> s_sendPadding s" | (nil) "s_sendPadding s" "s_padding s = None"
      | (stopped) p where "s_sendPadding s" "s_padding s = Some p" "\<not> s_pktCounter s + 1 < Stop p"
      | (pad) p where "s_sendPadding s" "s_padding s = Some p" "s_pktCounter s + 1 < Stop p"
      by (cases "s_padding s") auto
    then show ?thesis
    proof cases
      case off
      then show ?thesis using plain [of "s\<lparr>s_buffer := []\<rparr>" ?b] False assms
        by (auto simp: writeConnLocked_def sent_def intro!: exI [of _ "[]"])
    next
      case nil
      then show ?thesis using plain [of "?t\<lparr>s_sendPadding := False\<rparr>" ?b] False assms
        by (auto simp: writeConnLocked_def sent_def Let_def intro!: exI [of _ "[]"])
    next
      case stopped
      then show ?thesis using plain [of "?t\<lparr>s_sendPadding := False\<rparr>" ?b] False assms
        by (auto simp: writeConnLocked_def sent_def Let_def intro!: exI [of _ "[]"])
    next
      case pad
      then have fac: "factory_ok p" using assms by (simp add: healthy_def)
      obtain szs rg where szs: "AppendRecordPayloadSizes p (s_pktCounter s + 1) [] (s_rng s) = Some (szs, rg)"
        using AppendRecordPayloadSizes_total [OF fac, of "s_pktCounter s + 1" "[]" "s_rng s"] by auto
      then have "list_all size_ok szs" using AppendRecordPayloadSizes_ok [OF fac] by simp
      then obtain asm left ws where asm: "assemble szs ?b [] = Some (asm, left)"
        "asm @ left = ?b @ wastes ws" "waste_sizes_ok ws"
        using assemble_total [of szs ?b "[]"] by auto
      obtain s' where "s_conn_Write (asm @ left) (?t\<lparr>s_rng := rg\<rparr>) = ((length (asm @ left), None), s')"
        "healthy s'" "sent s' = wire_out s @ asm @ left"
        using plain [of "?t\<lparr>s_rng := rg\<rparr>" "asm @ left"] assms by auto
      then show ?thesis using pad False szs asm
        by (auto simp: writeConnLocked_def sent_def Let_def)
    qed
  qed
qed

section \<open>Frames on the wire\<close>

definition is_waste :: "frame \<Rightarrow> bool" where
  "is_waste f \<longleftrightarrow> frame_cmd f = cmdWaste"

definition frames_bytes :: "frame list \<Rightarrow> byte list" where
  "frames_bytes fs = concat (map frame_bytes fs)"

lemma frames_bytes_simps [simp]:
  "frames_bytes [] = []" "frames_bytes (f # fs) = frame_bytes f @ frames_bytes fs"
  "frames_bytes (fs @ gs) = frames_bytes fs @ frames_bytes gs"
  by (simp_all add: frames_bytes_def)

lemma wastes_frames: "wastes ws = frames_bytes (map waste_frame ws)"
  by (simp add: wastes_def frames_bytes_def)

lemma wastes_frames_ok: "waste_sizes_ok ws \<Longrightarrow> list_all frame_ok (map waste_frame ws)"
  by (auto simp: waste_sizes_ok_def list_all_iff waste_frame_ok)

lemma wastes_all_waste: "list_all is_waste (map waste_frame ws)"
  by (simp add: list_all_iff is_waste_def waste_frame_def)

lemma filter_waste_frames: "list_all is_waste gs \<Longrightarrow> filter (\<lambda>g. \<not> is_waste g) gs = []"
  by (simp add: list_all_iff filter_empty_conv)

text \<open>The outgoing stream consists of whole frames.\<close>

definition framed :: "Session \<Rightarrow> frame list \<Rightarrow> bool" where
  "framed s gs \<longleftrightarrow> list_all frame_ok gs \<and> sent s = frames_bytes gs"

lemma writeConn_frame:
  assumes "healthy s" and "frame_ok f"
  shows "\<exists>n s' gs. writeConnLocked (frame_bytes f) s = Some ((n, None), s') \<and> healthy s' \<and>
           sent s' = sent s @ frames_bytes (f # gs) \<and> list_all frame_ok (f # gs) \<and> list_all is_waste gs"
proof -
  obtain n s' ws where w: "writeConnLocked (frame_bytes f) s = Some ((n, None), s')" "healthy s'"
    "sent s' = sent s @ frame_bytes f @ wastes ws" "waste_sizes_ok ws"
    using writeConnLocked_healthy [OF assms(1), of "frame_bytes f"] by blast
  then show ?thesis using assms(2) wastes_frames_ok [OF w(4)] wastes_all_waste [of ws]
    by (intro exI [of _ n] exI [of _ s'] exI [of _ "map waste_frame ws"]) (simp add: wastes_frames)
qed

lemma sent_deadline [simp]: "sent (set_conn_deadline d s) = sent s"
  by (simp add: sent_def)

lemma writeControlFrame_healthy:
  assumes "healthy s" and "frame_ok f"
  shows "\<exists>s' gs. writeControlFrame f s = Some ((length (frame_data f), None), s') \<and> healthy s' \<and>
           sent s' = sent s @ frames_bytes (f # gs) \<and> list_all frame_ok (f # gs) \<and> list_all is_waste gs"
proof -
  obtain n s' gs where w: "writeConnLocked (frame_bytes f) (set_conn_deadline (Some 5) s) = Some ((n, None), s')"
    "healthy s'" "sent s' = sent s @ frames_bytes (f # gs)" "list_all frame_ok (f # gs)" "list_all is_waste gs"
    using writeConn_frame [of "set_conn_deadline (Some 5) s" f] assms by auto
  then show ?thesis
    by (intro exI [of _ "set_conn_deadline None s'"] exI [of _ gs])
       (simp add: writeControlFrame_def writeConnWithDeadline_def frame_bytes_def [symmetric])
qed

definition psh :: "u32 \<Rightarrow> byte list \<Rightarrow> frame" where
  "psh sid d = \<lparr>frame_cmd = cmdPSH, frame_sid = sid, frame_data = d\<rparr>"

lemma psh_ok: "length d \<le> maxFramePayload \<Longrightarrow> frame_ok (psh sid d)"
  by (simp add: frame_ok_def psh_def has_payload_def maxFramePayload_def)

text \<open>The payload a receiver gets for a stream out of a sequence of frames.\<close>

definition payload_of :: "u32 \<Rightarrow> frame list \<Rightarrow> byte list" where
  "payload_of sid gs =
     concat (map frame_data (filter (\<lambda>g. frame_cmd g = cmdPSH \<and> frame_sid g = sid) gs))"

definition data_frames :: "u32 \<Rightarrow> frame list \<Rightarrow> bool" where
  "data_frames sid gs \<longleftrightarrow> list_all (\<lambda>g. is_waste g \<or>
     (frame_cmd g = cmdPSH \<and> frame_sid g = sid \<and> frame_data g \<noteq> [] \<and>
      length (frame_data g) \<le> maxFramePayload)) gs"

lemma payload_of_simps [simp]:
  "payload_of sid [] = []" "payload_of sid (fs @ gs) = payload_of sid fs @ payload_of sid gs"
  "payload_of sid (psh sid d # gs) = d @ payload_of sid gs"
  by (simp_all add: payload_of_def psh_def)

lemma payload_of_waste: "list_all is_waste gs \<Longrightarrow> payload_of sid gs = []"
  by (induction gs) (auto simp: payload_of_def is_waste_def cmd_defs)

lemma write_chunks_healthy:
  "healthy s \<Longrightarrow> \<exists>s' gs. write_chunks sid data s = Some (None, s') \<and> healthy s' \<and>
     sent s' = sent s @ frames_bytes gs \<and> list_all frame_ok gs \<and> data_frames sid gs \<and>
     payload_of sid gs = data"
proof (induction "length data" arbitrary: data s rule: less_induct)
  case less
  show ?case
  proof (cases "data = []")
    case True
    then show ?thesis using less.prems
      by (intro exI [of _ s] exI [of _ "[]"]) (simp add: data_frames_def)
  next
    case False
    let ?n = "min (length data) maxFramePayload"
    let ?f = "psh sid (take ?n data)"
    have pos: "0 < ?n" using False by (simp add: maxFramePayload_def)
    obtain n s1 gs1 where w: "writeConnLocked (frame_bytes ?f) s = Some ((n, None), s1)" "healthy s1"
      "sent s1 = sent s @ frames_bytes (?f # gs1)" "list_all frame_ok (?f # gs1)" "list_all is_waste gs1"
      using writeConn_frame [OF less.prems, of ?f] psh_ok [of "take ?n data" sid] by auto
    have "length (drop ?n data) < length data" using pos False by simp
    then obtain s' gs where r: "write_chunks sid (drop ?n data) s1 = Some (None, s')" "healthy s'"
      "sent s' = sent s1 @ frames_bytes gs" "list_all frame_ok gs" "data_frames sid gs"
      "payload_of sid gs = drop ?n data"
      using less.hyps [OF _ w(2)] by blast
    have "frame_bytes ?f = frame_header cmdPSH sid (of_nat ?n) @ take ?n data"
      by (simp add: frame_bytes_def psh_def)
    then have "write_chunks sid data s = Some (None, s')"
      using False w(1) r(1) by (simp add: write_chunks.simps [of sid data s] Let_def writeConn_def)
    moreover have "data_frames sid (?f # gs1 @ gs)"
      using r(5) w(5) pos False by (auto simp: data_frames_def list_all_iff psh_def)
    moreover have "payload_of sid (?f # gs1 @ gs) = data"
      using r(6) payload_of_waste [OF w(5)] by simp
    ultimately show ?thesis
      using r w by (intro exI [of _ s'] exI [of _ "?f # gs1 @ gs"]) simp
  qed
qed

section \<open>Deadlines and the number of writes\<close>

lemma s_conn_Write_entry:
  "s_conn_Write b s = (r, s') \<Longrightarrow>
   (\<exists>es. c_out (s_conn s') = c_out (s_conn s) @ es \<and> length es \<le> 1 \<and>
      list_all (\<lambda>e. snd e = c_deadline (s_conn s)) es) \<and> c_deadline (s_conn s') = c_deadline (s_conn s)"
  by (auto simp: s_conn_Write_def conn_Write_def split: if_splits list.splits wres.splits)

lemma writeConnLocked_entry:
  "writeConnLocked b s = Some (r, s') \<Longrightarrow>
   (\<exists>es. c_out (s_conn s') = c_out (s_conn s) @ es \<and> length es \<le> 1 \<and>
      list_all (\<lambda>e. snd e = c_deadline (s_conn s)) es) \<and> c_deadline (s_conn s') = c_deadline (s_conn s)"
  by (auto simp: writeConnLocked_def Let_def dest!: s_conn_Write_entry
      split: if_splits option.splits prod.splits)

lemma write_chunks_entries:
  "write_chunks sid data s = Some (r, s') \<Longrightarrow>
   (\<exists>es. c_out (s_conn s') = c_out (s_conn s) @ es \<and>
      list_all (\<lambda>e. snd e = c_deadline (s_conn s)) es) \<and> c_deadline (s_conn s') = c_deadline (s_conn s)"
proof (induction "length data" arbitrary: data s rule: less_induct)
  case less
  show ?case
  proof (cases "data = []")
    case True
    then show ?thesis using less.prems by (intro conjI exI [of _ "[]"]) simp_all
  next
    case False
    let ?n = "min (length data) maxFramePayload"
    let ?b = "frame_header cmdPSH sid (of_nat ?n) @ take ?n data"
    have short: "length (drop ?n data) < length data" using False by (simp add: maxFramePayload_def)
    obtain n err s1 where w: "writeConnLocked ?b s = Some ((n, err), s1)"
      using less.prems False
      by (auto simp: write_chunks.simps [of sid data s] Let_def writeConn_def split: option.splits)
    obtain es where es: "c_out (s_conn s1) = c_out (s_conn s) @ es"
      "list_all (\<lambda>e. snd e = c_deadline (s_conn s)) es" "c_deadline (s_conn s1) = c_deadline (s_conn s)"
      using writeConnLocked_entry [OF w] by blast
    show ?thesis
    proof (cases err)
      case None
      then have "write_chunks sid (drop ?n data) s1 = Some (r, s')"
        using less.prems False w by (simp add: write_chunks.simps [of sid data s] Let_def writeConn_def)
      then obtain es' where "c_out (s_conn s') = c_out (s_conn s1) @ es'"
        "list_all (\<lambda>e. snd e = c_deadline (s_conn s1)) es'" "c_deadline (s_conn s') = c_deadline (s_conn s1)"
        using less.hyps [OF short] by blast
      then show ?thesis using es by (intro conjI exI [of _ "es @ es'"]) simp_all
    next
      case (Some e)
      then have "s' = s1" using less.prems False w
        by (simp add: write_chunks.simps [of sid data s] Let_def writeConn_def)
      then show ?thesis using es by blast
    qed
  qed
qed

end
