(* ===== verification/WritePath.thy ===== *)
theory WritePath
  imports SessionWrite
begin

text \<open>
  What the write path of a session guarantees: whole frames on the wire, padding that a
  receiver skips, packet sizes as the scheme drew them, deadlines on control frames only,
  and a session that closes when a control frame cannot be written.
\<close>

section \<open>Packet sizes\<close>

lemma sizes_nonneg:
  assumes "list_all (\<lambda>l. 1 \<le> l \<and> l \<le> (65535 :: int)) ls"
  shows "0 \<le> sum_list ls" and "0 \<le> sum_list (map (\<lambda>l. l + 7) ls)"
  using assms by (induction ls) auto

definition total :: "int list \<Rightarrow> nat" where
  "total ls = nat (sum_list ls)"

lemma assemble_full:
  "list_all (\<lambda>l. 1 \<le> l \<and> l \<le> 65535) ls \<Longrightarrow> sum_list ls < int (length b) \<Longrightarrow>
   assemble (ls @ rs) b acc = assemble rs (drop (total ls) b) (acc @ take (total ls) b)"
proof (induction ls arbitrary: b acc)
  case Nil
  then show ?case by (simp add: total_def)
next
  case (Cons l ls)
  then have l: "1 \<le> l" and nn: "0 \<le> sum_list ls" using sizes_nonneg [of ls] by simp_all
  have "sum_list ls < int (length (drop (nat l) b))" using Cons.prems l by simp
  then have "assemble (ls @ rs) (drop (nat l) b) (acc @ take (nat l) b) =
    assemble rs (drop (total ls) (drop (nat l) b)) ((acc @ take (nat l) b) @ take (total ls) (drop (nat l) b))"
    using Cons by simp
  moreover have "total (l # ls) = nat l + total ls" using l nn by (simp add: total_def nat_add_distrib)
  ultimately show ?case using Cons.prems l nn
    by (simp add: Let_def CheckMark_def take_add add.commute)
qed

lemma length_waste_bytes [simp]: "length (waste_bytes n) = 7 + nat n"
  by (simp add: waste_bytes_def)

lemma assemble_only_waste:
  "list_all (\<lambda>l. 1 \<le> l \<and> l \<le> 65535) rs \<Longrightarrow>
   \<exists>asm. assemble rs [] acc = Some (asm, []) \<and> length asm = length acc + total (map (\<lambda>l. l + 7) rs)"
proof (induction rs arbitrary: acc)
  case Nil
  then show ?case by (simp add: total_def)
next
  case (Cons l rs)
  have nn: "0 \<le> sum_list (map (\<lambda>l. l + 7) rs)"
    using sizes_nonneg [of rs] Cons.prems by simp
  obtain asm where "assemble rs [] (acc @ waste_bytes l) = Some (asm, [])"
    "length asm = length (acc @ waste_bytes l) + total (map (\<lambda>l. l + 7) rs)"
    using Cons by fastforce
  then show ?case using Cons.prems nn
    by (auto simp: Let_def CheckMark_def total_def nat_add_distrib)
qed

section \<open>The padding phase\<close>

lemma s_conn_Write_padding_state:
  "s_conn_Write b s = (r, s') \<Longrightarrow>
   s_sendPadding s' = s_sendPadding s \<and> s_pktCounter s' = s_pktCounter s \<and> s_padding s' = s_padding s"
  by (auto simp: s_conn_Write_def split: prod.splits)

section \<open>What the receiver decodes\<close>

lemma decode_frames_bytes:
  "list_all frame_ok gs \<Longrightarrow> length gs < fuel \<Longrightarrow>
   decode_all decode_frame fuel (frames_bytes gs) = (gs, [])"
  using wire.decode_all_encoded [of gs "[]" fuel] by (simp add: frames_bytes_def list_all_iff)

lemma decode_all_frames: "framed s gs \<Longrightarrow> decode_all decode_frame (Suc (length (sent s))) (sent s) = (gs, [])"
  using decode_frames_bytes [of gs "Suc (length (sent s))"] wire.length_encoded [of gs]
  by (simp add: framed_def frames_bytes_def list_all_iff)

section \<open>Failing writes\<close>

lemma Session_Close_conn:
  "c_out (s_conn (snd (Session_Close s))) = c_out (s_conn s)"
  "c_deadline (s_conn (snd (Session_Close s))) = c_deadline (s_conn s)"
  "s_die (snd (Session_Close s))"
  "\<not> s_die s \<Longrightarrow> c_closed (s_conn (snd (Session_Close s)))"
proof -
  have "c_out (snd (conn_Close c)) = c_out c \<and> c_deadline (snd (conn_Close c)) = c_deadline c" for c
    by (simp add: conn_Close_def)
  then show "c_out (s_conn (snd (Session_Close s))) = c_out (s_conn s)"
    "c_deadline (s_conn (snd (Session_Close s))) = c_deadline (s_conn s)"
    "s_die (snd (Session_Close s))" "\<not> s_die s \<Longrightarrow> c_closed (s_conn (snd (Session_Close s)))"
    by (cases "s_die s"; simp add: Session_Close_open; simp add: Session_Close_def)+
qed

lemma s_conn_Write_closed:
  "c_closed (s_conn s) \<Longrightarrow> s_conn_Write b s = ((0, Some ErrNetClosed), s)"
  by (simp add: s_conn_Write_def conn_Write_def)

lemma writeConnLocked_closed:
  "c_closed (s_conn s) \<Longrightarrow> \<not> s_buffering s \<Longrightarrow> writeConnLocked b s = Some (r, s') \<Longrightarrow>
   r = (0, Some ErrNetClosed) \<and> s_conn s' = s_conn s"
  by (auto simp: writeConnLocked_def Let_def s_conn_Write_closed split: if_splits option.splits prod.splits)

lemma writeConnWithDeadline_entry:
  assumes "writeConnWithDeadline b d s = Some (r, s')"
  shows "(\<exists>es. c_out (s_conn s') = c_out (s_conn s) @ es \<and> length es \<le> 1 \<and>
           list_all (\<lambda>e. snd e = Some d) es) \<and> c_deadline (s_conn s') = None"
  using assms
  by (auto simp: writeConnWithDeadline_def set_conn_deadline_def split: option.splits
      dest!: writeConnLocked_entry)

lemma decode_frame_truncated:
  assumes "has_payload (frame_cmd f)"
  shows "decode_frame (frame_bytes f) =
    (let n = length (frame_data f) mod 65536
     in Some (f\<lparr>frame_data := take n (frame_data f)\<rparr>, drop n (frame_data f)))"
proof -
  have "unat (of_nat (length (frame_data f)) :: u16) = length (frame_data f) mod 65536"
    by (simp add: unat_of_nat)
  moreover have "length (frame_data f) mod 65536 \<le> length (frame_data f)" by simp
  ultimately show ?thesis using assms
    by (cases f) (simp add: decode_frame_def frame_bytes_def wire_simps Let_def)
qed

section \<open>Properties\<close>

text \<open>C1: padding is transparent: for every list of sizes a scheme can draw, assembling a packet
  never panics, and what is written is the payload, unchanged and complete, followed by
  waste frames of 1 to 65535 zero bytes each, whose headers announce their true length.\<close>

theorem padding_transparent:
  assumes "list_all size_ok sizes"
  shows "\<exists>asm left ws. assemble sizes b [] = Some (asm, left) \<and>
           asm @ left = b @ frames_bytes (map waste_frame ws) \<and>
           list_all (\<lambda>w. 1 \<le> w \<and> w \<le> 65535) ws \<and> list_all frame_ok (map waste_frame ws)"
proof -
  obtain asm left ws where "assemble sizes b [] = Some (asm, left)" "asm @ left = b @ wastes ws"
    "waste_sizes_ok ws" using assemble_total [OF assms, of b "[]"] by auto
  then show ?thesis
    by (intro exI [of _ asm] exI [of _ left] exI [of _ ws])
       (simp add: wastes_frames [symmetric] wastes_frames_ok, simp add: waste_sizes_ok_def)
qed

theorem padding_transparent_witness:
  "\<exists>asm left ws. assemble [3, CheckMark, 20] [1, 2, 3, 4, 5] [] = Some (asm, left) \<and>
     asm @ left = [1, 2, 3, 4, 5] @ frames_bytes (map waste_frame ws)"
  using padding_transparent [of "[3, CheckMark, 20]" "[1, 2, 3, 4, 5]"]
  by (fastforce simp: size_ok_def CheckMark_def)



text \<open>the padding phase ends for good: a write never switches padding on; after a write that
  went out with padding still on, the packet counter went up by one (modulo \<open>2 ^ 32\<close>) and is
  below the scheme's \<open>Stop\<close>; with padding off, as on every server session, the connection is
  given the held-back bytes and the new ones in one call, with nothing added.\<close>

theorem padding_phase:
  assumes "writeConnLocked b s = Some (r, s')"
  shows "(s_sendPadding s' \<longrightarrow> s_sendPadding s) \<and>
         (s_sendPadding s' \<and> \<not> s_buffering s \<longrightarrow>
            s_pktCounter s' = s_pktCounter s + 1 \<and>
            (\<exists>p. s_padding s = Some p \<and> s_pktCounter s' < Stop p)) \<and>
         (\<not> s_sendPadding s \<and> \<not> s_buffering s \<longrightarrow>
            (r, s') = s_conn_Write (s_buffer s @ b) (s\<lparr>s_buffer := []\<rparr>))"
  using assms
  by (auto simp: writeConnLocked_def Let_def dest!: s_conn_Write_padding_state
      split: if_splits option.splits prod.splits)

theorem padding_phase_witness:
  "(case writeConnLocked [1, 2] (NewServerSession \<lparr>c_in = [], c_in_end = ErrEOF, c_out = [], c_script = [],
       c_deadline = None, c_closed = False, c_close_err = None\<rparr> True None (\<lambda>_. 0)) of
     Some (r, s') \<Rightarrow> \<not> s_sendPadding s' | None \<Rightarrow> False)"
proof -
  let ?s = "NewServerSession \<lparr>c_in = [], c_in_end = ErrEOF, c_out = [], c_script = [],
       c_deadline = None, c_closed = False, c_close_err = None\<rparr> True None (\<lambda>_. 0)"
  have "healthy ?s" by (simp add: healthy_def NewServerSession_def)
  then obtain n s' where w: "writeConnLocked [1, 2] ?s = Some ((n, None), s')"
    using writeConnLocked_healthy by blast
  moreover have "\<not> s_sendPadding ?s" by (simp add: NewServerSession_def)
  ultimately show ?thesis using padding_phase [OF w] by (simp only: option.case prod.case) blast
qed


text \<open>stream data arrives in order and complete: on a working connection
  \<open>writeDataFrame\<close> reports the number of bytes given to it, and what has been written
  decodes to the frames sent before followed by data frames of the stream, each with
  between 1 and 65529 bytes, and padding; the payloads of the stream, put together, are
  the data.\<close>

theorem stream_data_delivered:
  assumes "healthy s" and "framed s hs"
  shows "\<exists>s' gs. writeDataFrame sid data s = Some ((length data, None), s') \<and> healthy s' \<and>
           decode_all decode_frame (Suc (length (sent s'))) (sent s') = (hs @ gs, []) \<and>
           data_frames sid gs \<and> payload_of sid gs = data \<and> framed s' (hs @ gs)"
proof -
  obtain s' gs where w: "write_chunks sid data s = Some (None, s')" "healthy s'"
    "sent s' = sent s @ frames_bytes gs" "list_all frame_ok gs" "data_frames sid gs"
    "payload_of sid gs = data"
    using write_chunks_healthy [OF assms(1)] by blast
  then have "framed s' (hs @ gs)" using assms(2) by (simp add: framed_def)
  moreover have "writeDataFrame sid data s = Some ((length data, None), s')"
    using w(1) by (simp add: writeDataFrame_def)
  ultimately show ?thesis using w(2,5,6) decode_all_frames by blast
qed

text \<open>A client session on a fresh connection, with the built-in scheme's shape of a single entry.\<close>

definition demo_factory :: PaddingFactory where
  "demo_factory = \<lparr>parsedRanges = [1 \<mapsto> [\<lparr>isCheck = False, range_min = 20, range_max = 30\<rparr>]],
     RawScheme = [], Stop = 2, Md5 = []\<rparr>"

definition demo_conn :: conn where
  "demo_conn = \<lparr>c_in = [], c_in_end = ErrEOF, c_out = [], c_script = [], c_deadline = None,
     c_closed = False, c_close_err = None\<rparr>"

definition demo_client :: Session where
  "demo_client = NewClientSession demo_conn (Some demo_factory) (\<lambda>_. 0)"

lemma demo_client_ok: "healthy demo_client" "framed demo_client []"
  by (simp_all add: healthy_def framed_def sent_def wire_out_def demo_client_def NewClientSession_def
      demo_conn_def demo_factory_def factory_ok_def ranges_ok_def range_ok_def)


theorem stream_data_delivered_witness:
  "\<exists>s' gs. writeDataFrame 1 [104, 105] demo_client = Some ((2, None), s') \<and>
     payload_of 1 gs = [104, 105] \<and> framed s' gs"
  using stream_data_delivered [OF demo_client_ok, of 1 "[104, 105]"] by auto

text \<open>deadlines and packets: a control frame makes at most one call of the connection's
  \<open>Write\<close>, under a deadline of five seconds; data is written with no deadline, and no
  deadline is left in force afterwards.\<close>

theorem write_deadlines:
  assumes "c_deadline (s_conn s) = None"
  shows "(\<forall>r s'. writeControlFrame f s = Some (r, s') \<longrightarrow>
            (\<exists>es. c_out (s_conn s') = c_out (s_conn s) @ es \<and> length es \<le> 1 \<and>
                  list_all (\<lambda>e. snd e = Some 5) es) \<and> c_deadline (s_conn s') = None) \<and>
         (\<forall>r s'. writeDataFrame sid data s = Some (r, s') \<longrightarrow>
            (\<exists>es. c_out (s_conn s') = c_out (s_conn s) @ es \<and> list_all (\<lambda>e. snd e = None) es) \<and>
            c_deadline (s_conn s') = None)"
proof (intro conjI allI impI)
  fix r s'
  assume "writeControlFrame f s = Some (r, s')"
  then obtain n err s1 where w: "writeConnWithDeadline (frame_bytes f) 5 s = Some ((n, err), s1)"
    and s': "s' = s1 \<or> s' = snd (Session_Close s1)"
    by (auto simp: writeControlFrame_def Let_def frame_bytes_def split: option.splits if_splits)
  from s' writeConnWithDeadline_entry [OF w]
  show "\<exists>es. c_out (s_conn s') = c_out (s_conn s) @ es \<and> length es \<le> 1 \<and>
          list_all (\<lambda>e. snd e = Some 5) es" and "c_deadline (s_conn s') = None"
    by (auto simp: Session_Close_conn)
next
  fix r s'
  assume "writeDataFrame sid data s = Some (r, s')"
  then obtain e where "write_chunks sid data s = Some (e, s')"
    by (auto simp: writeDataFrame_def split: option.splits)
  from write_chunks_entries [OF this] assms
  show "\<exists>es. c_out (s_conn s') = c_out (s_conn s) @ es \<and> list_all (\<lambda>e. snd e = None) es"
    and "c_deadline (s_conn s') = None" by auto
qed

theorem write_deadlines_witness:
  "\<forall>r s'. writeControlFrame (newFrame cmdFIN 3) demo_client = Some (r, s') \<longrightarrow> c_deadline (s_conn s') = None"
  using write_deadlines [of demo_client "newFrame cmdFIN 3"]
  by (auto simp: demo_client_def NewClientSession_def demo_conn_def)

text \<open>C38: a control frame that cannot be written closes the session: the error is returned with a
  count of 0, the session is dead, its connection closed if it was alive before, and then no
  write reaches the connection any more: each fails with \<open>net.ErrClosed\<close>.\<close>

theorem failed_control_frame_closes:
  assumes "writeControlFrame f s = Some ((n, Some e), s')"
  shows "n = 0 \<and> s_die s' \<and>
         (\<not> s_die s \<longrightarrow> c_closed (s_conn s') \<and> s_streams s' = [] \<and>
            (\<forall>b r s''. \<not> s_buffering s' \<and> writeConn b s' = Some (r, s'') \<longrightarrow>
               r = (0, Some ErrNetClosed) \<and> s_conn s'' = s_conn s'))"
proof -
  obtain m s1 where w: "writeConnWithDeadline (frame_bytes f) 5 s = Some ((m, Some e), s1)"
    and s': "s' = snd (Session_Close s1)" and n: "n = 0"
    using assms by (auto simp: writeControlFrame_def Let_def frame_bytes_def split: option.splits if_splits)
  have die: "s_die s1 = s_die s" using writeConnWithDeadline_changes [OF w] by (rule write_changesD)
  have alive: "s_streams s' = [] \<and> c_closed (s_conn s')" if "\<not> s_die s"
    using that die s' Session_Close_conn(4) [of s1] by (simp add: Session_Close_open)
  have "r = (0, Some ErrNetClosed) \<and> s_conn s'' = s_conn s'"
    if "c_closed (s_conn s')" "\<not> s_buffering s'" "writeConn b s' = Some (r, s'')" for b r s''
    using writeConnLocked_closed [OF that(1,2)] that(3) by (simp add: writeConn_def)
  then show ?thesis using n s' alive by (simp add: Session_Close_conn(3)) blast
qed

definition demo_broken :: Session where
  "demo_broken = NewServerSession (demo_conn\<lparr>c_script := [WFail 3 ErrDeadlineExceeded]\<rparr>) True None (\<lambda>_. 0)"

theorem failed_control_frame_closes_witness:
  "\<exists>s'. writeControlFrame (newFrame cmdFIN 3) demo_broken = Some ((0, Some ErrDeadlineExceeded), s') \<and>
     s_die s' \<and> c_closed (s_conn s')"
proof -
  have d: "\<not> s_die demo_broken" by (simp add: demo_broken_def NewServerSession_def)
  have "\<exists>s'. writeControlFrame (newFrame cmdFIN 3) demo_broken = Some ((0, Some ErrDeadlineExceeded), s')"
    by (simp add: writeControlFrame_def writeConnWithDeadline_def writeConnLocked_def demo_broken_def
        NewServerSession_def s_conn_Write_def conn_Write_def demo_conn_def set_conn_deadline_def newFrame_def)
  then show ?thesis using failed_control_frame_closes d by blast
qed

text \<open>the length field of a control frame is cut to sixteen bits while the payload is written
  whole: with 65536 bytes or more, as when a large padding scheme is sent to a client, the
  frame still goes out and the call reports success, but the receiver takes only the
  payload's first \<open>length mod 65536\<close> bytes and reads the rest of it as frame headers.\<close>

theorem oversized_control_frame_desync:
  assumes "healthy s" and "\<not> s_buffering s" and "\<not> s_sendPadding s"
    and "has_payload (frame_cmd f)" and "65536 \<le> length (frame_data f)"
  shows "\<exists>s'. writeControlFrame f s = Some ((length (frame_data f), None), s') \<and>
           wire_out s' = wire_out s @ s_buffer s @ frame_bytes f \<and>
           (case decode_frame (frame_bytes f) of
              None \<Rightarrow> False
            | Some (g, rest) \<Rightarrow> length (frame_data g) = length (frame_data f) mod 65536 \<and>
                g \<noteq> f \<and> rest \<noteq> [])"
proof -
  let ?t = "(set_conn_deadline (Some 5) s)\<lparr>s_buffer := []\<rparr>"
  have "healthy ?t" using assms(1) by simp
  then obtain s1 where w: "s_conn_Write (s_buffer s @ frame_bytes f) ?t =
      ((length (s_buffer s @ frame_bytes f), None), s1)" "wire_out s1 = wire_out s @ s_buffer s @ frame_bytes f"
    using s_conn_Write_healthy [of ?t "s_buffer s @ frame_bytes f"] by auto
  have same: "s_buffering (set_conn_deadline (Some 5) s) = s_buffering s"
    "s_sendPadding (set_conn_deadline (Some 5) s) = s_sendPadding s"
    "s_buffer (set_conn_deadline (Some 5) s) = s_buffer s"
    by (simp_all add: set_conn_deadline_def)
  have "writeControlFrame f s = Some ((length (frame_data f), None), set_conn_deadline None s1)"
    using w(1) assms(2,3) same
    by (simp add: writeControlFrame_def writeConnWithDeadline_def writeConnLocked_def Let_def
        frame_bytes_def [symmetric])
  moreover have "length (frame_data f) mod 65536 < length (frame_data f)"
    using assms(5) by (meson less_le_trans mod_less_divisor zero_less_numeral)
  moreover have "take n xs = xs \<longleftrightarrow> length xs \<le> n" for n and xs :: "byte list" by simp
  ultimately show ?thesis using w(2) decode_frame_truncated [OF assms(4)]
    by (cases f) (auto simp: Let_def)
qed

theorem oversized_control_frame_desync_witness:
  "\<exists>s'. writeControlFrame \<lparr>frame_cmd = cmdUpdatePaddingScheme, frame_sid = 0, frame_data = replicate 65536 49\<rparr>
      (NewServerSession demo_conn True None (\<lambda>_. 0)) = Some ((65536, None), s')"
proof -
  let ?s = "NewServerSession demo_conn True None (\<lambda>_. 0)"
  have "healthy ?s" "\<not> s_buffering ?s" "\<not> s_sendPadding ?s"
    by (simp_all add: healthy_def NewServerSession_def demo_conn_def)
  from oversized_control_frame_desync [OF this, of
      "\<lparr>frame_cmd = cmdUpdatePaddingScheme, frame_sid = 0, frame_data = replicate 65536 49\<rparr>"]
  show ?thesis by (auto simp: has_payload_def)
qed

end
