(* ===== verification/StreamOps.thy ===== *)
theory StreamOps
  imports WritePath
begin

text \<open>
  \<open>internal/pkg/proxy/session/stream.go\<close> and \<open>streamClosed\<close> of \<open>session.go\<close>: what the user of
  a stream calls. A stream is its index in the session's object store. An operation that
  writes to the connection can panic there (\<open>None\<close>); a read can block.
\<close>

section \<open>The code\<close>

definition streamClosed :: "u32 \<Rightarrow> Session \<Rightarrow> (go_error option \<times> Session) panics" where
  "streamClosed sid s =
     (if IsClosed s then Some (Some ErrClosedPipe, s)
      else (case writeControlFrame (newFrame cmdFIN sid) s of
              None \<Rightarrow> None
            | Some ((n, err), s1) \<Rightarrow> Some (err, s1\<lparr>s_streams := AList.delete sid (s_streams s1)\<rparr>)))"

definition Stream_Read :: "nat \<Rightarrow> nat \<Rightarrow> Session \<Rightarrow> ((byte list \<times> go_error option) \<times> Session) outcome" where
  "Stream_Read n ref s =
     (case pipe_read n (str_pipe (obj s ref)) of
        Ret ((b, err), p) \<Rightarrow>
          (let err' = (if length b = 0 \<and> str_dieErr (obj s ref) \<noteq> None then str_dieErr (obj s ref) else err)
           in Ret ((b, err'), set_obj ref ((obj s ref)\<lparr>str_pipe := p\<rparr>) s))
      | Block \<Rightarrow> Block
      | Panic \<Rightarrow> Panic)"

definition Stream_Write :: "byte list \<Rightarrow> nat \<Rightarrow> Session \<Rightarrow> ((nat \<times> go_error option) \<times> Session) panics" where
  "Stream_Write b ref s =
     (if deadline_passed (str_writeDeadline (obj s ref)) then Some ((0, Some ErrDeadlineExceeded), s)
      else if str_dieErr (obj s ref) \<noteq> None then Some ((0, str_dieErr (obj s ref)), s)
      else writeDataFrame (str_id (obj s ref)) b s)"

definition closeWithError :: "go_error \<Rightarrow> nat \<Rightarrow> Session \<Rightarrow> (go_error option \<times> Session) panics" where
  "closeWithError err ref s =
     (let st = obj s ref
      in if str_dieOnce st then Some (str_dieErr st, s)
         else
           (let s1 = set_obj ref (st\<lparr>str_dieOnce := True, str_dieErr := Some err,
                                     str_pipe := PipeReader_Close (str_pipe st)\<rparr>) s;
                s2 = (case str_dieHook st of Some h \<Rightarrow> emit (EvStreamHook ref h) s1 | None \<Rightarrow> s1)
            in streamClosed (str_id st) s2))"

definition Stream_Close :: "nat \<Rightarrow> Session \<Rightarrow> (go_error option \<times> Session) panics" where
  "Stream_Close ref s = closeWithError ErrClosedPipe ref s"

definition Stream_SetReadDeadline ::
  "int \<Rightarrow> int option \<Rightarrow> nat \<Rightarrow> Session \<Rightarrow> (go_error option \<times> Session) outcome" where
  "Stream_SetReadDeadline now t ref s =
     (case SetReadDeadline now t (str_pipe (obj s ref)) of
        Ret (err, p) \<Rightarrow> Ret (err, set_obj ref ((obj s ref)\<lparr>str_pipe := p\<rparr>) s)
      | Block \<Rightarrow> Block | Panic \<Rightarrow> Panic)"

definition Stream_SetWriteDeadline ::
  "int \<Rightarrow> int option \<Rightarrow> nat \<Rightarrow> Session \<Rightarrow> (go_error option \<times> Session) outcome" where
  "Stream_SetWriteDeadline now t ref s =
     (case deadline_Set now t (str_writeDeadline (obj s ref)) of
        Ret d \<Rightarrow> Ret (None, set_obj ref ((obj s ref)\<lparr>str_writeDeadline := d\<rparr>) s)
      | Block \<Rightarrow> Block | Panic \<Rightarrow> Panic)"

definition Stream_SetDeadline ::
  "int \<Rightarrow> int option \<Rightarrow> nat \<Rightarrow> Session \<Rightarrow> (go_error option \<times> Session) outcome" where
  "Stream_SetDeadline now t ref s =
     (case Stream_SetWriteDeadline now t ref s of
        Ret (_, s1) \<Rightarrow> Stream_SetReadDeadline now t ref s1
      | Block \<Rightarrow> Block | Panic \<Rightarrow> Panic)"

text \<open>
  The addresses of the stream are those of its session's connection, if that has such a method;
  \<open>GetConn\<close> hands the connection out.
\<close>

definition Stream_LocalAddr :: "(conn \<Rightarrow> 'a option) option \<Rightarrow> Session \<Rightarrow> 'a option" where
  "Stream_LocalAddr LocalAddr s = (case LocalAddr of Some f \<Rightarrow> f (s_conn s) | None \<Rightarrow> None)"

definition Stream_RemoteAddr :: "(conn \<Rightarrow> 'a option) option \<Rightarrow> Session \<Rightarrow> 'a option" where
  "Stream_RemoteAddr RemoteAddr s = (case RemoteAddr of Some f \<Rightarrow> f (s_conn s) | None \<Rightarrow> None)"

definition Stream_GetConn :: "Session \<Rightarrow> conn" where
  "Stream_GetConn s = s_conn s"

text \<open>\<open>err.Error()\<close>, the text of an error, belongs to whoever made the error: a parameter.\<close>

definition HandshakeFailure ::
  "(go_error \<Rightarrow> byte list) \<Rightarrow> go_error option \<Rightarrow> nat \<Rightarrow> Session \<Rightarrow> (go_error option \<times> Session) panics" where
  "HandshakeFailure error_text err ref s =
     (let st = obj s ref;
          s1 = set_obj ref (st\<lparr>str_reportOnce := True\<rparr>) s
      in case err of
           Some e \<Rightarrow>
             if \<not> str_reportOnce st \<and> s_peerVersion s1 \<ge> 2 then
               (case writeControlFrame ((newFrame cmdSYNACK (str_id st))\<lparr>frame_data := error_text e\<rparr>) s1 of
                  None \<Rightarrow> None
                | Some ((n, werr), s2) \<Rightarrow> Some (werr, s2))
             else Some (None, s1)
         | None \<Rightarrow> Some (None, s1))"

definition HandshakeSuccess :: "nat \<Rightarrow> Session \<Rightarrow> (go_error option \<times> Session) panics" where
  "HandshakeSuccess ref s =
     (let st = obj s ref;
          s1 = set_obj ref (st\<lparr>str_reportOnce := True\<rparr>) s
      in if \<not> str_reportOnce st \<and> s_peerVersion s1 \<ge> 2 then
           (case writeControlFrame (newFrame cmdSYNACK (str_id st)) s1 of
              None \<Rightarrow> None
            | Some ((n, werr), s2) \<Rightarrow> Some (werr, s2))
         else Some (None, s1))"

section \<open>Object invariants\<close>

text \<open>A stream object: dead exactly when it has an error, and then its pipe is closed.\<close>

definition stream_inv :: "Stream \<Rightarrow> bool" where
  "stream_inv st \<longleftrightarrow> (str_dieErr st \<noteq> None) = str_dieOnce st \<and>
     (str_dieOnce st \<longrightarrow> p_done (str_pipe st)) \<and> pipe_inv (str_pipe st)"

definition objs_inv :: "Session \<Rightarrow> bool" where
  "objs_inv s \<longleftrightarrow> (\<forall>ref < length (s_objs s). stream_inv (obj s ref))"

lemma objs_inv_cong: "s_objs s' = s_objs s \<Longrightarrow> objs_inv s' = objs_inv s"
  by (simp add: objs_inv_def obj_def)

lemma objs_inv_set_obj: "objs_inv s \<Longrightarrow> stream_inv st \<Longrightarrow> objs_inv (set_obj ref st s)"
  by (cases "ref < length (s_objs s)")
     (auto simp: objs_inv_def obj_set_obj, simp add: objs_inv_def obj_def set_obj_def)

lemma objs_inv_emit [simp]: "objs_inv (emit e s) = objs_inv s"
  by (rule objs_inv_cong) simp

lemma stream_inv_new [simp]: "stream_inv (newStream_obj sid)"
  by (simp add: stream_inv_def newStream_obj_def)

lemma objs_inv_newStream: "objs_inv s \<Longrightarrow> objs_inv (snd (newStream sid s))"
  by (auto simp: objs_inv_def newStream_def obj_def nth_append less_Suc_eq)

lemma stream_inv_PipeReader_Close:
  "stream_inv st \<Longrightarrow>
   stream_inv (st\<lparr>str_dieOnce := True, str_dieErr := Some e, str_pipe := PipeReader_Close (str_pipe st), str_dieHook := h\<rparr>)"
  "stream_inv st \<Longrightarrow>
   stream_inv (st\<lparr>str_dieOnce := True, str_dieErr := Some e, str_pipe := PipeReader_Close (str_pipe st)\<rparr>)"
  by (simp_all add: stream_inv_def PipeReader_Close_def)

lemma objs_inv_closeLocally: "objs_inv s \<Longrightarrow> objs_inv (closeLocally ref s)"
proof (cases "ref < length (s_objs s)")
  case True
  assume "objs_inv s"
  with True show ?thesis
    by (auto simp: objs_inv_def closeLocally_obj stream_inv_PipeReader_Close)
next
  case False
  assume inv: "objs_inv s"
  have "s_objs (closeLocally ref s) = s_objs s" using False
    by (simp add: closeLocally_def Let_def set_obj_def emit_def list_update_beyond split: option.split)
  then show ?thesis using inv objs_inv_cong by metis
qed

lemma objs_inv_close_streams: "objs_inv s \<Longrightarrow> objs_inv (foldl (\<lambda>s' ref. closeLocally ref s') s refs)"
  by (induction refs arbitrary: s) (simp_all add: objs_inv_closeLocally)

lemma objs_inv_updates [simp]:
  "objs_inv (s\<lparr>s_streams := x\<rparr>) = objs_inv s" "objs_inv (s\<lparr>s_conn := c\<rparr>) = objs_inv s"
  "objs_inv (s\<lparr>s_die := d\<rparr>) = objs_inv s" "objs_inv (s\<lparr>s_dieHook := h\<rparr>) = objs_inv s"
  by (rule objs_inv_cong; simp)+

lemma objs_inv_Session_Close: "objs_inv s \<Longrightarrow> objs_inv (snd (Session_Close s))"
proof (cases "s_die s")
  case True
  then show "objs_inv s \<Longrightarrow> ?thesis" by (simp add: Session_Close_def)
next
  case False
  assume "objs_inv s"
  then have "objs_inv (close_begin s)" by (simp add: objs_inv_cong [of "close_begin s" s])
  then show ?thesis by (simp add: Session_Close_open [OF False] objs_inv_close_streams)
qed

lemma objs_inv_write_changes: "write_changes s s' \<Longrightarrow> objs_inv s \<Longrightarrow> objs_inv s'"
  using objs_inv_cong write_changesD(2) by metis

lemma streams_ok_set_obj:
  "streams_ok s \<Longrightarrow> str_id st = str_id (obj s ref) \<Longrightarrow> streams_ok (set_obj ref st s)"
  by (cases "ref < length (s_objs s)")
     (auto simp: streams_ok_def obj_set_obj, auto simp: streams_ok_def obj_def set_obj_def)

lemma streams_ok_cong:
  "s_streams s' = s_streams s \<Longrightarrow> s_objs s' = s_objs s \<Longrightarrow> streams_ok s' = streams_ok s"
  by (simp add: streams_ok_def obj_def)

lemma streams_ok_delete: "streams_ok s \<Longrightarrow> streams_ok (s\<lparr>s_streams := AList.delete sid (s_streams s)\<rparr>)"
  using distinct_delete [of "s_streams s" sid] by (auto simp: streams_ok_def AList.delete_eq)

lemma streams_ok_Session_Close: "streams_ok s \<Longrightarrow> streams_ok (snd (Session_Close s))"
  by (cases "s_die s") (simp_all add: Session_Close_open, simp_all add: Session_Close_def streams_ok_def)

lemma streams_ok_write_changes: "write_changes s s' \<Longrightarrow> streams_ok s \<Longrightarrow> streams_ok s'"
  using streams_ok_cong write_changesD(1,2) by metis

text \<open>What every operation keeps: the object store is consistent and every object is well formed.\<close>

definition session_inv :: "Session \<Rightarrow> bool" where
  "session_inv s \<longleftrightarrow> streams_ok s \<and> objs_inv s"

lemma session_inv_write_changes: "write_changes s s' \<Longrightarrow> session_inv s \<Longrightarrow> session_inv s'"
  by (auto simp: session_inv_def intro: streams_ok_write_changes objs_inv_write_changes)

lemma session_inv_Session_Close: "session_inv s \<Longrightarrow> session_inv (snd (Session_Close s))"
  by (simp add: session_inv_def streams_ok_Session_Close objs_inv_Session_Close)

lemma session_inv_delete: "session_inv s \<Longrightarrow> session_inv (s\<lparr>s_streams := AList.delete sid (s_streams s)\<rparr>)"
  by (simp add: session_inv_def streams_ok_delete)

lemma session_inv_set_obj:
  "session_inv s \<Longrightarrow> str_id st = str_id (obj s ref) \<Longrightarrow> stream_inv st \<Longrightarrow> session_inv (set_obj ref st s)"
  by (simp add: session_inv_def streams_ok_set_obj objs_inv_set_obj)

lemma session_inv_emit [simp]: "session_inv (emit e s) = session_inv s"
  using streams_ok_cong [of "emit e s" s] by (simp add: session_inv_def)

lemma session_inv_new:
  "session_inv (NewClientSession c p rg)" "session_inv (NewServerSession c b p rg)"
  by (simp_all add: session_inv_def streams_ok_def objs_inv_def NewClientSession_def NewServerSession_def)

lemma writeControlFrame_cases:
  assumes "writeControlFrame f s = Some (r, s')"
  obtains s1 where "write_changes s s1" "s' = s1" "snd r = None"
        | s1 where "write_changes s s1" "s' = snd (Session_Close s1)" "snd r \<noteq> None"
  using assms writeConnWithDeadline_changes
  by (fastforce simp: writeControlFrame_def Let_def split: option.splits if_splits)

lemma writeControlFrame_inv: "writeControlFrame f s = Some (r, s') \<Longrightarrow> session_inv s \<Longrightarrow> session_inv s'"
  by (erule writeControlFrame_cases)
     (auto intro: session_inv_Session_Close session_inv_write_changes)

lemma streamClosed_inv: "streamClosed sid s = Some (r, s') \<Longrightarrow> session_inv s \<Longrightarrow> session_inv s'"
  by (auto simp: streamClosed_def dest: writeControlFrame_inv intro!: session_inv_delete
      split: if_splits option.splits)

lemma pipe_read_keeps:
  "pipe_read n p = Ret (r, p') \<Longrightarrow> pipe_inv p \<Longrightarrow> pipe_inv p' \<and> p_done p' = p_done p"
  by (auto simp: pipe_read_def wakeWriter_def split: if_splits prod.splits)
     (metis consumeLocked_inv consumeLocked_frame(2) snd_conv)+

lemma deadline_fields [simp]:
  "session_inv (s\<lparr>s_conn := c\<rparr>) = session_inv s"
  by (simp add: session_inv_def streams_ok_def)

lemma session_invD: "session_inv s \<Longrightarrow> ref < length (s_objs s) \<Longrightarrow> stream_inv (obj s ref)"
  by (simp add: session_inv_def objs_inv_def)

lemma Stream_Read_inv:
  assumes "Stream_Read n ref s = Ret (r, s')" and "session_inv s" and "ref < length (s_objs s)"
  shows "session_inv s'"
proof -
  obtain q p where q: "pipe_read n (str_pipe (obj s ref)) = Ret (q, p)"
    and s': "s' = set_obj ref ((obj s ref)\<lparr>str_pipe := p\<rparr>) s"
    using assms(1) by (auto simp: Stream_Read_def Let_def split: outcome.splits)
  have inv: "stream_inv (obj s ref)" using assms(2,3) by (rule session_invD)
  have "stream_inv ((obj s ref)\<lparr>str_pipe := p\<rparr>)"
    using pipe_read_keeps [OF q] inv by (simp add: stream_inv_def)
  then show ?thesis using session_inv_set_obj [OF assms(2)] s' by simp
qed

lemma Stream_Write_inv: "Stream_Write b ref s = Some (r, s') \<Longrightarrow> session_inv s \<Longrightarrow> session_inv s'"
  by (auto simp: Stream_Write_def split: if_splits dest: writeDataFrame_changes
      intro: session_inv_write_changes)

lemma closeWithError_inv:
  assumes "closeWithError e ref s = Some (r, s')" and "session_inv s" and "ref < length (s_objs s)"
  shows "session_inv s'"
proof (cases "str_dieOnce (obj s ref)")
  case True
  then show ?thesis using assms(1,2) by (simp add: closeWithError_def Let_def)
next
  case False
  have "session_inv (set_obj ref ((obj s ref)\<lparr>str_dieOnce := True, str_dieErr := Some e,
      str_pipe := PipeReader_Close (str_pipe (obj s ref))\<rparr>) s)"
    using session_inv_set_obj [OF assms(2)] stream_inv_PipeReader_Close(2) [OF session_invD [OF assms(2,3)]]
    by simp
  then show ?thesis using assms(1) False streamClosed_inv
    by (auto simp: closeWithError_def Let_def split: option.splits)
qed

lemma stream_inv_report [simp]:
  "stream_inv (st\<lparr>str_reportOnce := b\<rparr>) = stream_inv st"
  "stream_inv (st\<lparr>str_writeDeadline := d\<rparr>) = stream_inv st"
  by (simp_all add: stream_inv_def)

lemma session_inv_report:
  "session_inv s \<Longrightarrow> ref < length (s_objs s) \<Longrightarrow> session_inv (set_obj ref ((obj s ref)\<lparr>str_reportOnce := True\<rparr>) s)"
  by (rule session_inv_set_obj) (simp_all add: session_invD)

lemma HandshakeSuccess_inv:
  "HandshakeSuccess ref s = Some (r, s') \<Longrightarrow> session_inv s \<Longrightarrow> ref < length (s_objs s) \<Longrightarrow> session_inv s'"
  using session_inv_report [of s ref]
  by (auto simp: HandshakeSuccess_def Let_def split: if_splits option.splits dest: writeControlFrame_inv)

lemma HandshakeFailure_inv:
  "HandshakeFailure etext e ref s = Some (r, s') \<Longrightarrow> session_inv s \<Longrightarrow> ref < length (s_objs s) \<Longrightarrow> session_inv s'"
  using session_inv_report [of s ref]
  by (auto simp: HandshakeFailure_def Let_def split: if_splits option.splits dest: writeControlFrame_inv)

lemma stream_inv_set_read_deadline:
  "SetReadDeadline now t (str_pipe st) = Ret (r, p) \<Longrightarrow> stream_inv st \<Longrightarrow> stream_inv (st\<lparr>str_pipe := p\<rparr>)"
  by (auto simp: SetReadDeadline_def stream_inv_def split: if_splits outcome.splits)

lemma Stream_SetReadDeadline_inv:
  "Stream_SetReadDeadline now t ref s = Ret (r, s') \<Longrightarrow> session_inv s \<Longrightarrow> ref < length (s_objs s) \<Longrightarrow> session_inv s'"
  by (auto simp: Stream_SetReadDeadline_def split: outcome.splits
      intro!: session_inv_set_obj stream_inv_set_read_deadline dest: session_invD)

lemma Stream_SetWriteDeadline_inv:
  "Stream_SetWriteDeadline now t ref s = Ret (r, s') \<Longrightarrow> session_inv s \<Longrightarrow> ref < length (s_objs s) \<Longrightarrow> session_inv s'"
  by (auto simp: Stream_SetWriteDeadline_def split: outcome.splits
      intro!: session_inv_set_obj dest: session_invD)

section \<open>Closing and reporting\<close>

lemma healthy_cong: "s_conn s' = s_conn s \<Longrightarrow> s_padding s' = s_padding s \<Longrightarrow> healthy s' = healthy s"
  by (simp add: healthy_def)

lemma sent_cong: "s_conn s' = s_conn s \<Longrightarrow> s_buffer s' = s_buffer s \<Longrightarrow> sent s' = sent s"
  by (simp add: sent_def wire_out_def)

lemma framed_cong: "s_conn s' = s_conn s \<Longrightarrow> s_buffer s' = s_buffer s \<Longrightarrow> framed s' hs = framed s hs"
  by (simp add: framed_def sent_def wire_out_def)

lemma set_obj_write_fields [simp]:
  "s_padding (set_obj ref st s) = s_padding s" "s_buffer (set_obj ref st s) = s_buffer s"
  "s_padding (emit e s) = s_padding s" "s_buffer (emit e s) = s_buffer s"
  "s_peerVersion (set_obj ref st s) = s_peerVersion s"
  by (simp_all add: set_obj_def emit_def)

lemma healthy_set_obj [simp]:
  "healthy (set_obj ref st s) = healthy s" "framed (set_obj ref st s) hs = framed s hs"
  "healthy (emit e s) = healthy s" "framed (emit e s) hs = framed s hs"
  by (simp_all add: healthy_def framed_def sent_def wire_out_def)

lemma writeControlFrame_ok_changes:
  "writeControlFrame f s = Some ((n, None), s') \<Longrightarrow> write_changes s s'"
  by (erule writeControlFrame_cases) simp_all

text \<open>Sending a frame on a working connection, with the state it leaves.\<close>

lemma control_frame_sent:
  assumes "healthy s" and "frame_ok f" and "framed s hs"
  shows "\<exists>s' gs. writeControlFrame f s = Some ((length (frame_data f), None), s') \<and> healthy s' \<and>
           framed s' (hs @ f # gs) \<and> list_all is_waste gs \<and> write_changes s s'"
proof -
  obtain s' gs where w: "writeControlFrame f s = Some ((length (frame_data f), None), s')" "healthy s'"
    "sent s' = sent s @ frames_bytes (f # gs)" "list_all frame_ok (f # gs)" "list_all is_waste gs"
    using writeControlFrame_healthy [OF assms(1,2)] by blast
  have "framed s' (hs @ f # gs)" using w(3,4) assms(3) by (simp add: framed_def)
  then show ?thesis using w writeControlFrame_ok_changes [OF w(1)] by blast
qed

text \<open>Sending a frame with no payload on a working connection.\<close>

lemma send_empty_frame:
  assumes "healthy s" and "framed s hs"
  shows "\<exists>s' gs. writeControlFrame (newFrame cmd sid) s = Some ((0, None), s') \<and> healthy s' \<and>
           framed s' (hs @ newFrame cmd sid # gs) \<and> list_all is_waste gs \<and> write_changes s s'"
  using control_frame_sent [OF assms(1) _ assms(2), of "newFrame cmd sid"]
  by (simp add: frame_ok_def newFrame_def)

section \<open>Properties\<close>

text \<open>every operation of a stream keeps the session well formed: the map's ids are distinct and
  point to objects of that id, an object has an error exactly when it is dead, a dead one
  has a closed pipe, and no pipe holds more than its limit.\<close>

theorem stream_ops_keep_invariant:
  assumes "session_inv s" and "ref < length (s_objs s)"
  shows "(\<forall>n r s'. Stream_Read n ref s = Ret (r, s') \<longrightarrow> session_inv s') \<and>
         (\<forall>b r s'. Stream_Write b ref s = Some (r, s') \<longrightarrow> session_inv s') \<and>
         (\<forall>r s'. Stream_Close ref s = Some (r, s') \<longrightarrow> session_inv s') \<and>
         (\<forall>e r s'. closeWithError e ref s = Some (r, s') \<longrightarrow> session_inv s') \<and>
         (\<forall>r s'. HandshakeSuccess ref s = Some (r, s') \<longrightarrow> session_inv s') \<and>
         (\<forall>etext e r s'. HandshakeFailure etext e ref s = Some (r, s') \<longrightarrow> session_inv s') \<and>
         (\<forall>now t r s'. Stream_SetReadDeadline now t ref s = Ret (r, s') \<longrightarrow> session_inv s') \<and>
         (\<forall>now t r s'. Stream_SetWriteDeadline now t ref s = Ret (r, s') \<longrightarrow> session_inv s')"
  using Stream_Read_inv [OF _ assms] Stream_Write_inv [OF _ assms(1)] closeWithError_inv [OF _ assms]
    HandshakeSuccess_inv [OF _ assms] HandshakeFailure_inv [OF _ assms]
    Stream_SetReadDeadline_inv [OF _ assms] Stream_SetWriteDeadline_inv [OF _ assms]
  unfolding Stream_Close_def by blast

text \<open>A server session with one stream, number 7.\<close>

definition demo_server :: Session where
  "demo_server = (NewServerSession demo_conn True (Some demo_factory) (\<lambda>_. 0))
     \<lparr>s_streams := [(7, 0)], s_objs := [newStream_obj 7], s_peerVersion := 2\<rparr>"

lemma demo_server_ok:
  "session_inv demo_server" "healthy demo_server" "framed demo_server []"
  "0 < length (s_objs demo_server)" "\<not> s_die demo_server" "obj demo_server 0 = newStream_obj 7"
  "s_peerVersion demo_server = 2"
  by (simp_all add: demo_server_def session_inv_def streams_ok_def objs_inv_def obj_def
      healthy_def framed_def sent_def wire_out_def NewServerSession_def demo_conn_def
      demo_factory_def factory_ok_def ranges_ok_def range_ok_def newStream_obj_def
      stream_inv_new [unfolded newStream_obj_def])

theorem stream_ops_keep_invariant_witness:
  "session_inv demo_server \<and> (\<forall>r s'. Stream_Close 0 demo_server = Some (r, s') \<longrightarrow> session_inv s')"
  using stream_ops_keep_invariant [OF demo_server_ok(1,4)] demo_server_ok(1) by blast

text \<open>C37: data before the error: a stream that has been closed, by its user, by a FIN or by the
  death of its session, still gives its reader every byte received before, in order; the
  stream's own error comes only with an empty read.\<close>

theorem stream_read_after_close:
  assumes "session_inv s" and "ref < length (s_objs s)" and "str_dieErr (obj s ref) = Some e"
    and "\<not> deadline_passed (p_readDeadline (str_pipe (obj s ref)))" and "0 < n"
  shows "\<exists>s'. Stream_Read n ref s =
           Ret ((take n (unread (str_pipe (obj s ref))),
                 if unread (str_pipe (obj s ref)) = [] then Some e else None), s') \<and>
           unread (str_pipe (obj s' ref)) = drop n (unread (str_pipe (obj s ref))) \<and>
           str_dieErr (obj s' ref) = Some e"
proof -
  let ?p = "str_pipe (obj s ref)"
  have inv: "pipe_inv ?p" "p_done ?p"
    using session_invD [OF assms(1,2)] assms(3) by (auto simp: stream_inv_def)
  have bytes: "fst (consumeLocked n ?p) = take n (unread ?p)"
    "unread (snd (consumeLocked n ?p)) = drop n (unread ?p)"
    using inv by (simp_all add: consumeLocked_bytes consumeLocked_unread pipe_inv_off)
  have "pipe_read n ?p = Ret ((take n (unread ?p), if unread ?p = [] then Some (readCloseError ?p) else None),
      if unread ?p = [] then ?p else wakeWriter (snd (consumeLocked n ?p)))"
    using inv assms(4) bytes by (simp add: pipe_read_def bufLen_unread split_beta)
  then show ?thesis using assms(2,3,5) bytes
    by (simp add: Stream_Read_def obj_set_obj wakeWriter_def)
qed

theorem stream_read_after_close_witness:
  "\<exists>s'. Stream_Read 4 0 (closeLocally 0 demo_server) = Ret (([], Some ErrNetClosed), s')"
proof -
  let ?s = "closeLocally 0 demo_server"
  have obj: "obj ?s 0 = (newStream_obj 7)\<lparr>str_dieOnce := True, str_dieErr := Some ErrNetClosed,
      str_pipe := PipeReader_Close (str_pipe (newStream_obj 7)), str_dieHook := None\<rparr>"
    using closeLocally_obj [OF demo_server_ok(4)] demo_server_ok(6) by (simp add: newStream_obj_def)
  have inv: "session_inv ?s"
    using demo_server_ok(1) objs_inv_closeLocally [of demo_server 0] obj demo_server_ok(6)
    by (auto simp: session_inv_def streams_ok_def) (auto simp: demo_server_def newStream_obj_def)
  have len: "0 < length (s_objs ?s)" using demo_server_ok(4) by simp
  have "\<not> deadline_passed (p_readDeadline (str_pipe (obj ?s 0)))" "unread (str_pipe (obj ?s 0)) = []"
    "str_dieErr (obj ?s 0) = Some ErrNetClosed"
    by (simp_all add: obj newStream_obj_def Pipe_def PipeReader_Close_def closeRead_def wakeWriter_def
        deadline_passed_def isClosedChan_def deadline_Wait_def MakePipeDeadline_def unread_def)
  then show ?thesis
    using stream_read_after_close [OF inv len, of ErrNetClosed 4] by fastforce
qed

text \<open>The close of a live stream of a working session, and the objects it leaves.\<close>

lemma Stream_Close_fin:
  assumes "healthy s" and "framed s hs" and "\<not> s_die s" and "ref < length (s_objs s)"
    and "\<not> str_dieOnce (obj s ref)"
  shows "\<exists>s' gs. Stream_Close ref s = Some (None, s') \<and> list_all is_waste gs \<and>
           framed s' (hs @ newFrame cmdFIN (str_id (obj s ref)) # gs) \<and>
           s_streams s' = AList.delete (str_id (obj s ref)) (s_streams s) \<and>
           obj s' = (obj s)(ref := (obj s ref)\<lparr>str_dieOnce := True, str_dieErr := Some ErrClosedPipe,
             str_pipe := PipeReader_Close (str_pipe (obj s ref))\<rparr>)"
proof -
  let ?st = "obj s ref"
  let ?new = "?st\<lparr>str_dieOnce := True, str_dieErr := Some ErrClosedPipe,
      str_pipe := PipeReader_Close (str_pipe ?st)\<rparr>"
  let ?t = "set_obj ref ?new s"
  obtain u where u: "u = (case str_dieHook ?st of Some h \<Rightarrow> emit (EvStreamHook ref h) ?t | None \<Rightarrow> ?t)"
    by simp
  have f: "healthy u" "framed u hs" "\<not> s_die u" "s_streams u = s_streams s"
    "obj u = obj ?t"
    using assms(1-3) u by (simp_all split: option.splits)
  obtain s1 gs where w: "writeControlFrame (newFrame cmdFIN (str_id ?st)) u = Some ((0, None), s1)"
    "framed s1 (hs @ newFrame cmdFIN (str_id ?st) # gs)" "list_all is_waste gs" "write_changes u s1"
    using send_empty_frame [OF f(1,2)] by blast
  let ?s' = "s1\<lparr>s_streams := AList.delete (str_id ?st) (s_streams s1)\<rparr>"
  have close: "Stream_Close ref s = Some (None, ?s')"
    using assms(5) w(1) f(3) u
    by (simp add: Stream_Close_def closeWithError_def Let_def streamClosed_def IsClosed_def)
  have objs: "obj s1 = (obj s)(ref := ?new)"
    using write_changesD(13) [OF w(4)] f(5) assms(4) by (simp add: obj_set_obj fun_eq_iff)
  have "framed ?s' (hs @ newFrame cmdFIN (str_id ?st) # gs)"
    using w(2) framed_cong [of ?s' s1] by simp
  moreover have "s_streams ?s' = AList.delete (str_id ?st) (s_streams s)"
    using write_changesD(1) [OF w(4)] f(4) by simp
  ultimately show ?thesis using close w(3) objs by (intro exI [of _ ?s'] exI [of _ gs]) simp
qed

text \<open>C36: closing a live stream of a working session sends exactly one frame besides padding, the
  stream's FIN, takes its id out of the session's map, and kills it: a second \<open>Close\<close> returns
  the same error and sends nothing, and so does every later \<open>Write\<close>.\<close>

theorem stream_close_once:
  assumes "healthy s" and "framed s hs" and "\<not> s_die s" and "session_inv s"
    and "ref < length (s_objs s)" and "\<not> str_dieOnce (obj s ref)"
  shows "\<exists>s' gs. Stream_Close ref s = Some (None, s') \<and>
           framed s' (hs @ newFrame cmdFIN (str_id (obj s ref)) # gs) \<and> list_all is_waste gs \<and>
           map_of (s_streams s') = (map_of (s_streams s))(str_id (obj s ref) := None) \<and>
           Stream_Close ref s' = Some (Some ErrClosedPipe, s') \<and>
           (\<forall>b. \<not> deadline_passed (str_writeDeadline (obj s ref)) \<longrightarrow>
              Stream_Write b ref s' = Some ((0, Some ErrClosedPipe), s')) \<and>
           (\<forall>r. r \<noteq> ref \<longrightarrow> obj s' r = obj s r)"
proof -
  obtain s' gs where c: "Stream_Close ref s = Some (None, s')" "list_all is_waste gs"
    "framed s' (hs @ newFrame cmdFIN (str_id (obj s ref)) # gs)"
    "s_streams s' = AList.delete (str_id (obj s ref)) (s_streams s)"
    "obj s' = (obj s)(ref := (obj s ref)\<lparr>str_dieOnce := True, str_dieErr := Some ErrClosedPipe,
       str_pipe := PipeReader_Close (str_pipe (obj s ref))\<rparr>)"
    using Stream_Close_fin [OF assms(1-3,5,6)] by blast
  have "Stream_Close ref s' = Some (Some ErrClosedPipe, s')"
    using c(5) by (simp add: Stream_Close_def closeWithError_def Let_def)
  moreover have "\<not> deadline_passed (str_writeDeadline (obj s ref)) \<longrightarrow>
      Stream_Write b ref s' = Some ((0, Some ErrClosedPipe), s')" for b
    using c(5) by (simp add: Stream_Write_def)
  ultimately show ?thesis using c
    by (intro exI [of _ s'] exI [of _ gs]) (simp add: delete_conv' fun_upd_def)
qed

theorem stream_close_once_witness:
  "\<exists>s' gs. Stream_Close 0 demo_server = Some (None, s') \<and> framed s' (newFrame cmdFIN 7 # gs) \<and>
     map_of (s_streams s') 7 = None"
proof -
  have "\<not> str_dieOnce (obj demo_server 0)" "str_id (obj demo_server 0) = 7"
    using demo_server_ok(6) by (simp_all add: newStream_obj_def)
  then show ?thesis
    using stream_close_once [OF demo_server_ok(2,3,5,1,4)] by auto
qed

text \<open>a handshake is reported once, and only to a peer of version two or more: the first of
  \<open>HandshakeSuccess\<close> and \<open>HandshakeFailure\<close> sends one SYNACK (empty, or with the error's
  text), every later one sends nothing, and an older peer is sent nothing at all.\<close>

theorem handshake_reported_once:
  assumes "healthy s" and "framed s hs" and "ref < length (s_objs s)"
    and "length (error_text e) < 65536"
  shows "(\<not> str_reportOnce (obj s ref) \<and> s_peerVersion s \<ge> 2 \<longrightarrow>
            (\<exists>s' gs. HandshakeSuccess ref s = Some (None, s') \<and> list_all is_waste gs \<and>
               framed s' (hs @ newFrame cmdSYNACK (str_id (obj s ref)) # gs) \<and> str_reportOnce (obj s' ref)) \<and>
            (\<exists>s' gs. HandshakeFailure error_text (Some e) ref s = Some (None, s') \<and> list_all is_waste gs \<and>
               framed s' (hs @ (newFrame cmdSYNACK (str_id (obj s ref)))\<lparr>frame_data := error_text e\<rparr> # gs) \<and>
               str_reportOnce (obj s' ref))) \<and>
         (str_reportOnce (obj s ref) \<or> s_peerVersion s < 2 \<longrightarrow>
            (\<exists>s'. HandshakeSuccess ref s = Some (None, s') \<and> s_conn s' = s_conn s \<and> s_buffer s' = s_buffer s) \<and>
            (\<exists>s'. HandshakeFailure error_text (Some e) ref s = Some (None, s') \<and>
               s_conn s' = s_conn s \<and> s_buffer s' = s_buffer s))"
proof (intro conjI impI)
  let ?t = "set_obj ref ((obj s ref)\<lparr>str_reportOnce := True\<rparr>) s"
  have t: "healthy ?t" "framed ?t hs" "str_reportOnce (obj ?t ref)"
    using assms by (simp_all add: obj_set_obj)
  assume first: "\<not> str_reportOnce (obj s ref) \<and> s_peerVersion s \<ge> 2"
  obtain s' gs where w: "writeControlFrame (newFrame cmdSYNACK (str_id (obj s ref))) ?t = Some ((0, None), s')"
    "framed s' (hs @ newFrame cmdSYNACK (str_id (obj s ref)) # gs)" "list_all is_waste gs" "write_changes ?t s'"
    using send_empty_frame [OF t(1,2)] by blast
  then show "\<exists>s' gs. HandshakeSuccess ref s = Some (None, s') \<and> list_all is_waste gs \<and>
      framed s' (hs @ newFrame cmdSYNACK (str_id (obj s ref)) # gs) \<and> str_reportOnce (obj s' ref)"
    using first t(3) write_changesD(13) [OF w(4)]
    by (intro exI [of _ s'] exI [of _ gs]) (simp add: HandshakeSuccess_def Let_def)
  let ?f = "(newFrame cmdSYNACK (str_id (obj s ref)))\<lparr>frame_data := error_text e\<rparr>"
  have "frame_ok ?f" using assms(4) by (simp add: frame_ok_def newFrame_def has_payload_def)
  then obtain s2 gs2 where w2: "writeControlFrame ?f ?t = Some ((length (frame_data ?f), None), s2)"
    "framed s2 (hs @ ?f # gs2)" "list_all is_waste gs2"
    using control_frame_sent [OF t(1) _ t(2)] by blast
  then show "\<exists>s' gs. HandshakeFailure error_text (Some e) ref s = Some (None, s') \<and> list_all is_waste gs \<and>
      framed s' (hs @ ?f # gs) \<and> str_reportOnce (obj s' ref)"
    using first t(3) write_changesD(13) [OF writeControlFrame_ok_changes [OF w2(1)]]
    by (intro exI [of _ s2] exI [of _ gs2]) (simp add: HandshakeFailure_def Let_def)
next
  assume "str_reportOnce (obj s ref) \<or> s_peerVersion s < 2"
  then show "\<exists>s'. HandshakeSuccess ref s = Some (None, s') \<and> s_conn s' = s_conn s \<and> s_buffer s' = s_buffer s"
    and "\<exists>s'. HandshakeFailure error_text (Some e) ref s = Some (None, s') \<and>
           s_conn s' = s_conn s \<and> s_buffer s' = s_buffer s"
    by (auto simp: HandshakeSuccess_def HandshakeFailure_def Let_def)
qed

theorem handshake_reported_once_witness:
  "\<exists>s' gs. HandshakeSuccess 0 demo_server = Some (None, s') \<and> framed s' (newFrame cmdSYNACK 7 # gs)"
proof -
  have "\<not> str_reportOnce (obj demo_server 0) \<and> s_peerVersion demo_server \<ge> 2"
    "str_id (obj demo_server 0) = 7"
    using demo_server_ok(6,7) by (simp_all add: newStream_obj_def)
  then show ?thesis
    using handshake_reported_once [OF demo_server_ok(2,3,4), of "\<lambda>_. []" ErrEOF] by auto
qed

end
