(* ===== verification/Recv.thy ===== *)
theory Recv
  imports StreamOps StringMap
begin

text \<open>
  \<open>Run\<close>, \<open>OpenStream\<close> and \<open>recvLoop\<close> of \<open>internal/pkg/proxy/session/session.go\<close>. The receive
  loop is a thread: it is about to read a header, has read one, is inside
  \<open>stream.pipeW.Write\<close> (where a full pipe makes it wait), or has returned. Between two of its
  steps other goroutines may use or close the session. A step that panics is \<open>Panic\<close>.
\<close>

section \<open>Parameters\<close>

text \<open>
  What the loop takes from outside: the hexadecimal MD5 of \<open>crypto/md5\<close>, the order in which a
  Go map is iterated, and the environment variable \<open>CLIENT_DEBUG_PADDING_SCHEME\<close>.
\<close>

record env =
  env_md5 :: "byte list \<Rightarrow> string"
  env_order :: "StringMap \<Rightarrow> StringMap"
  env_debugPadding :: bool

section \<open>Opening\<close>

definition settings_map :: "PaddingFactory \<Rightarrow> StringMap" where
  "settings_map p = [(''v'', ''2''), (''padding-md5'', Md5 p)]"

text \<open>
  \<open>Run\<close> of a client: sends the settings into the write buffer; the flag says whether the
  receive loop is started. A server's \<open>Run\<close> is the receive loop itself.
\<close>

definition Run_client :: "env \<Rightarrow> Session \<Rightarrow> (bool \<times> Session) panics" where
  "Run_client e s =
     (case s_padding s of
        None \<Rightarrow> Some (False, s)
      | Some p \<Rightarrow>
          (let f = (newFrame cmdSettings 0)\<lparr>frame_data := ToBytes (env_order e (settings_map p))\<rparr>
           in case writeControlFrame f (s\<lparr>s_buffering := True\<rparr>) of
                None \<Rightarrow> None
              | Some (_, s') \<Rightarrow> Some (True, s')))"

text \<open>
  \<open>util.NewDeadlineWatcher\<close> as the session uses it: a watcher is a number, armed by
  \<open>EvWatch\<close> and disarmed for good by calling the function it returned, \<open>EvUnwatch\<close>; calling
  that function twice is harmless.
\<close>

definition arm_watch :: "Session \<Rightarrow> Session" where
  "arm_watch s = (emit (EvWatch (s_watches s)) s)\<lparr>s_synDone := Some (s_watches s), s_watches := s_watches s + 1\<rparr>"

definition call_synDone :: "Session \<Rightarrow> Session" where
  "call_synDone s = (case s_synDone s of Some w \<Rightarrow> emit (EvUnwatch w) s | None \<Rightarrow> s)"

definition watch_armed :: "Session \<Rightarrow> nat \<Rightarrow> bool" where
  "watch_armed s w \<longleftrightarrow> EvWatch w \<in> set (s_events s) \<and> EvUnwatch w \<notin> set (s_events s)"

text \<open>The watcher's timer runs out.\<close>

definition watch_timeout :: "nat \<Rightarrow> Session \<Rightarrow> Session" where
  "watch_timeout w s = (if watch_armed s w then snd (Session_Close s) else s)"

definition OpenStream :: "Session \<Rightarrow> ((go_error + nat) \<times> Session) panics" where
  "OpenStream s =
     (if IsClosed s then Some (Inl ErrClosedPipe, s)
      else
        (let sid = s_streamId s + 1;
             (ref, s1) = newStream sid (s\<lparr>s_streamId := sid\<rparr>);
             s2 = (if sid \<ge> 2 \<and> s_peerVersion s1 \<ge> 2 then arm_watch (call_synDone s1) else s1)
         in case writeControlFrame (newFrame cmdSYN sid) s2 of
              None \<Rightarrow> None
            | Some ((n, Some err), s3) \<Rightarrow> Some (Inl err, s3)
            | Some ((n, None), s3) \<Rightarrow>
                (let s4 = s3\<lparr>s_buffering := False\<rparr>
                 in if s_die s4 then Some (Inl ErrClosedPipe, s4)
                    else Some (Inr ref, s4\<lparr>s_streams := AList.update sid ref (s_streams s4)\<rparr>))))"

section \<open>The handlers\<close>

datatype handled =
    HNext bool Session
  | HPush nat "byte list" bool Session
  | HReturn "go_error option" Session

definition s_ReadFull :: "nat \<Rightarrow> Session \<Rightarrow> (go_error + byte list) \<times> Session" where
  "s_ReadFull n s = (case conn_ReadFull n (s_conn s) of (r, c) \<Rightarrow> (r, s\<lparr>s_conn := c\<rparr>))"

text \<open>A handler that reads the payload the header announces and goes on with it, or returns.\<close>

definition with_payload ::
  "rawHeader \<Rightarrow> Session \<Rightarrow> (byte list \<Rightarrow> Session \<Rightarrow> handled panics) \<Rightarrow> handled panics" where
  "with_payload hdr s k =
     (case s_ReadFull (unat (Length hdr)) s of
        (Inl err, s1) \<Rightarrow> Some (HReturn (Some err) s1)
      | (Inr buffer, s1) \<Rightarrow> k buffer s1)"

definition handle_PSH :: "bool \<Rightarrow> rawHeader \<Rightarrow> Session \<Rightarrow> handled panics" where
  "handle_PSH flag hdr s =
     (if Length hdr > 0 then
        with_payload hdr s (\<lambda>readBuf s1.
          case map_of (s_streams s1) (StreamID hdr) of
            Some ref \<Rightarrow> Some (HPush ref readBuf flag s1)
          | None \<Rightarrow> Some (HNext flag s1))
      else Some (HNext flag s))"

definition alert_text :: "byte list" where
  "alert_text = bytes_of_string ''client did not send its settings''"

definition handle_SYN :: "bool \<Rightarrow> rawHeader \<Rightarrow> Session \<Rightarrow> handled panics" where
  "handle_SYN flag hdr s =
     (if \<not> s_isClient s \<and> \<not> flag then
        (case writeControlFrame ((newFrame cmdAlert 0)\<lparr>frame_data := alert_text\<rparr>) s of
           None \<Rightarrow> None
         | Some (_, s1) \<Rightarrow> Some (HReturn None s1))
      else if map_of (s_streams s) (StreamID hdr) = None then
        (let (ref, s1) = newStream (StreamID hdr) s
         in Some (HNext flag (emit (EvNewStream ref)
                    (s1\<lparr>s_streams := AList.update (StreamID hdr) ref (s_streams s1)\<rparr>))))
      else Some (HNext flag s))"

definition handle_SYNACK :: "bool \<Rightarrow> rawHeader \<Rightarrow> Session \<Rightarrow> handled panics" where
  "handle_SYNACK flag hdr s0 =
     (let s = (call_synDone s0)\<lparr>s_synDone := None\<rparr>
      in if Length hdr > 0 then
           with_payload hdr s (\<lambda>buffer s1.
             case map_of (s_streams s1) (StreamID hdr) of
               Some ref \<Rightarrow>
                 (case closeWithError (ErrRemote buffer) ref s1 of
                    None \<Rightarrow> None
                  | Some (_, s2) \<Rightarrow> Some (HNext flag s2))
             | None \<Rightarrow> Some (HNext flag s1))
         else Some (HNext flag s))"

definition handle_FIN :: "bool \<Rightarrow> rawHeader \<Rightarrow> Session \<Rightarrow> handled panics" where
  "handle_FIN flag hdr s =
     (let s1 = s\<lparr>s_streams := AList.delete (StreamID hdr) (s_streams s)\<rparr>
      in case map_of (s_streams s) (StreamID hdr) of
           Some ref \<Rightarrow> Some (HNext flag (closeLocally ref s1))
         | None \<Rightarrow> Some (HNext flag s1))"

definition handle_Waste :: "bool \<Rightarrow> rawHeader \<Rightarrow> Session \<Rightarrow> handled panics" where
  "handle_Waste flag hdr s =
     (if Length hdr > 0 then with_payload hdr s (\<lambda>_ s1. Some (HNext flag s1))
      else Some (HNext flag s))"

text \<open>The two replies of a server to the settings of its client.\<close>

definition settings_update :: "StringMap \<Rightarrow> PaddingFactory \<Rightarrow> Session \<Rightarrow> (go_error option \<times> Session) panics" where
  "settings_update m p s =
     (if sm_get m ''padding-md5'' \<noteq> Md5 p then
        (case writeControlFrame ((newFrame cmdUpdatePaddingScheme 0)\<lparr>frame_data := RawScheme p\<rparr>) s of
           None \<Rightarrow> None
         | Some ((n, err), s1) \<Rightarrow> Some (err, s1))
      else Some (None, s))"

definition settings_version :: "StringMap \<Rightarrow> Session \<Rightarrow> (go_error option \<times> Session) panics" where
  "settings_version m s =
     (case Atoi (sm_get m ''v'') of
        Some v \<Rightarrow>
          if v \<ge> 2 then
            (case writeControlFrame ((newFrame cmdServerSettings 0)\<lparr>frame_data := ToBytes [(''v'', ''2'')]\<rparr>)
                    (s\<lparr>s_peerVersion := word_of_int v\<rparr>) of
               None \<Rightarrow> None
             | Some ((n, err), s1) \<Rightarrow> Some (err, s1))
          else Some (None, s)
      | None \<Rightarrow> Some (None, s))"

definition handle_Settings :: "bool \<Rightarrow> rawHeader \<Rightarrow> Session \<Rightarrow> handled panics" where
  "handle_Settings flag hdr s =
     (if Length hdr > 0 then
        with_payload hdr s (\<lambda>buffer s1.
          if s_isClient s1 then Some (HNext flag s1)
          else
            (let m = StringMapFromBytes buffer
             in case s_padding s1 of
                  None \<Rightarrow> Some (HReturn None s1)
                | Some p \<Rightarrow>
                    (case settings_update m p s1 of
                       None \<Rightarrow> None
                     | Some (Some err, s2) \<Rightarrow> Some (HReturn (Some err) s2)
                     | Some (None, s2) \<Rightarrow>
                         (case settings_version m s2 of
                            None \<Rightarrow> None
                          | Some (Some err, s3) \<Rightarrow> Some (HReturn (Some err) s3)
                          | Some (None, s3) \<Rightarrow> Some (HNext True s3)))))
      else Some (HNext flag s))"

definition handle_Alert :: "bool \<Rightarrow> rawHeader \<Rightarrow> Session \<Rightarrow> handled panics" where
  "handle_Alert flag hdr s =
     (if Length hdr > 0 then
        with_payload hdr s (\<lambda>buffer s1.
          Some (HReturn None (if s_isClient s1 then emit (EvAlert buffer) s1 else s1)))
      else Some (HNext flag s))"

text \<open>
  A client's padding pointer is the global \<open>DefaultPaddingFactory\<close>, which
  \<open>UpdatePaddingScheme\<close> stores to.
\<close>

definition handle_UpdatePaddingScheme :: "env \<Rightarrow> bool \<Rightarrow> rawHeader \<Rightarrow> Session \<Rightarrow> handled panics" where
  "handle_UpdatePaddingScheme e flag hdr s =
     (if Length hdr > 0 then
        with_payload hdr s (\<lambda>rawScheme s1.
          if s_isClient s1 \<and> \<not> env_debugPadding e then
            Some (HNext flag (s1\<lparr>s_padding :=
              snd (UpdatePaddingScheme (env_md5 e) (env_order e) rawScheme (s_padding s1))\<rparr>))
          else Some (HNext flag s1))
      else Some (HNext flag s))"

definition handle_HeartRequest :: "bool \<Rightarrow> rawHeader \<Rightarrow> Session \<Rightarrow> handled panics" where
  "handle_HeartRequest flag hdr s =
     (case writeControlFrame (newFrame cmdHeartResponse (StreamID hdr)) s of
        None \<Rightarrow> None
      | Some ((n, Some err), s1) \<Rightarrow> Some (HReturn (Some err) s1)
      | Some ((n, None), s1) \<Rightarrow> Some (HNext flag s1))"

definition handle_ServerSettings :: "bool \<Rightarrow> rawHeader \<Rightarrow> Session \<Rightarrow> handled panics" where
  "handle_ServerSettings flag hdr s =
     (if Length hdr > 0 then
        with_payload hdr s (\<lambda>buffer s1.
          if s_isClient s1 then
            (case Atoi (sm_get (StringMapFromBytes buffer) ''v'') of
               Some v \<Rightarrow> Some (HNext flag (s1\<lparr>s_peerVersion := word_of_int v\<rparr>))
             | None \<Rightarrow> Some (HNext flag s1))
          else Some (HNext flag s1))
      else Some (HNext flag s))"

text \<open>The \<open>switch\<close> of the loop.\<close>

definition handle_frame :: "env \<Rightarrow> bool \<Rightarrow> rawHeader \<Rightarrow> Session \<Rightarrow> handled panics" where
  "handle_frame e flag hdr s =
     (let cmd = Cmd hdr
      in if cmd = cmdPSH then handle_PSH flag hdr s
         else if cmd = cmdSYN then handle_SYN flag hdr s
         else if cmd = cmdSYNACK then handle_SYNACK flag hdr s
         else if cmd = cmdFIN then handle_FIN flag hdr s
         else if cmd = cmdWaste then handle_Waste flag hdr s
         else if cmd = cmdSettings then handle_Settings flag hdr s
         else if cmd = cmdAlert then handle_Alert flag hdr s
         else if cmd = cmdUpdatePaddingScheme then handle_UpdatePaddingScheme e flag hdr s
         else if cmd = cmdHeartRequest then handle_HeartRequest flag hdr s
         else if cmd = cmdHeartResponse then Some (HNext flag s)
         else if cmd = cmdServerSettings then handle_ServerSettings flag hdr s
         else Some (HNext flag s))"

section \<open>The loop\<close>

datatype recv_pc =
    RHeader
  | RHandle rawHeader
  | RPush nat "byte list"
  | RWaitSpace nat "byte list"
  | RDone "go_error option"

record recv =
  rv_pc :: recv_pc
  rv_flag :: bool
  rv_sess :: Session

definition recv_start :: "Session \<Rightarrow> recv" where
  "recv_start s = \<lparr>rv_pc = RHeader, rv_flag = False, rv_sess = s\<rparr>"

text \<open>A return runs the deferred \<open>s.Close()\<close>.\<close>

definition recv_return :: "go_error option \<Rightarrow> bool \<Rightarrow> Session \<Rightarrow> recv" where
  "recv_return err flag s = \<lparr>rv_pc = RDone err, rv_flag = flag, rv_sess = snd (Session_Close s)\<rparr>"

definition set_pipe :: "nat \<Rightarrow> pipe \<Rightarrow> Session \<Rightarrow> Session" where
  "set_pipe ref p s = set_obj ref ((obj s ref)\<lparr>str_pipe := p\<rparr>) s"

text \<open>The result of \<open>pipeW.Write\<close> is ignored; \<open>RWaitSpace\<close> is its wait for room.\<close>

definition recv_pushed ::
  "nat \<Rightarrow> bool \<Rightarrow> Session \<Rightarrow> (nat \<times> go_error option) \<times> pipe + (byte list \<times> nat) \<times> pipe \<Rightarrow> recv" where
  "recv_pushed ref flag s w =
     (case w of
        Inl (_, p) \<Rightarrow> \<lparr>rv_pc = RHeader, rv_flag = flag, rv_sess = set_pipe ref p s\<rparr>
      | Inr ((b, _), p) \<Rightarrow> \<lparr>rv_pc = RWaitSpace ref b, rv_flag = flag, rv_sess = set_pipe ref p s\<rparr>)"

definition recv_step :: "env \<Rightarrow> recv \<Rightarrow> recv outcome" where
  "recv_step e r =
     (let s = rv_sess r; flag = rv_flag r
      in case rv_pc r of
           RHeader \<Rightarrow>
             (case s_ReadFull headerOverHeadSize s of
                (Inl err, s1) \<Rightarrow> Ret (recv_return (Some err) flag s1)
              | (Inr hdr, s1) \<Rightarrow> Ret \<lparr>rv_pc = RHandle hdr, rv_flag = flag, rv_sess = s1\<rparr>)
         | RHandle hdr \<Rightarrow>
             (case handle_frame e flag hdr s of
                None \<Rightarrow> Panic
              | Some (HNext flag' s1) \<Rightarrow> Ret \<lparr>rv_pc = RHeader, rv_flag = flag', rv_sess = s1\<rparr>
              | Some (HPush ref b flag' s1) \<Rightarrow> Ret \<lparr>rv_pc = RPush ref b, rv_flag = flag', rv_sess = s1\<rparr>
              | Some (HReturn err s1) \<Rightarrow> Ret (recv_return err flag s1))
         | RPush ref b \<Rightarrow> Ret (recv_pushed ref flag s (pipe_write b (str_pipe (obj s ref))))
         | RWaitSpace ref b \<Rightarrow>
             (let p = str_pipe (obj s ref)
              in if p_done p then Ret \<lparr>rv_pc = RHeader, rv_flag = flag, rv_sess = s\<rparr>
                 else if p_spaceReady p then
                   Ret (recv_pushed ref flag s (write_loop b 0 (p\<lparr>p_spaceReady := False\<rparr>)))
                 else Block)
         | RDone err \<Rightarrow> Block)"

section \<open>A session and its users\<close>

text \<open>
  Everything that can happen to a session: a step of its receive loop, an operation of one of
  its streams by its user, opening a stream, closing the session, a watcher running out.
  \<open>sy_token\<close> is the other choice of the pipe's \<open>select\<close> when both the token and the close
  are there.
\<close>

inductive sys_step :: "env \<Rightarrow> recv \<Rightarrow> recv \<Rightarrow> bool" for e :: env where
  sy_recv: "recv_step e r = Ret r' \<Longrightarrow> sys_step e r r'"
| sy_token: "rv_pc r = RWaitSpace ref b \<Longrightarrow> p = str_pipe (obj (rv_sess r) ref) \<Longrightarrow>
     p_spaceReady p \<Longrightarrow> p_done p \<Longrightarrow>
     sys_step e r (recv_pushed ref (rv_flag r) (rv_sess r) (write_loop b 0 (p\<lparr>p_spaceReady := False\<rparr>)))"
| sy_open: "OpenStream (rv_sess r) = Some (res, s') \<Longrightarrow> sys_step e r (r\<lparr>rv_sess := s'\<rparr>)"
| sy_read: "ref < length (s_objs (rv_sess r)) \<Longrightarrow> Stream_Read n ref (rv_sess r) = Ret (res, s') \<Longrightarrow>
     sys_step e r (r\<lparr>rv_sess := s'\<rparr>)"
| sy_write: "ref < length (s_objs (rv_sess r)) \<Longrightarrow> Stream_Write b ref (rv_sess r) = Some (res, s') \<Longrightarrow>
     sys_step e r (r\<lparr>rv_sess := s'\<rparr>)"
| sy_close: "ref < length (s_objs (rv_sess r)) \<Longrightarrow> Stream_Close ref (rv_sess r) = Some (res, s') \<Longrightarrow>
     sys_step e r (r\<lparr>rv_sess := s'\<rparr>)"
| sy_success: "ref < length (s_objs (rv_sess r)) \<Longrightarrow> HandshakeSuccess ref (rv_sess r) = Some (res, s') \<Longrightarrow>
     sys_step e r (r\<lparr>rv_sess := s'\<rparr>)"
| sy_failure: "ref < length (s_objs (rv_sess r)) \<Longrightarrow> HandshakeFailure etext err ref (rv_sess r) = Some (res, s') \<Longrightarrow>
     sys_step e r (r\<lparr>rv_sess := s'\<rparr>)"
| sy_readDeadline: "ref < length (s_objs (rv_sess r)) \<Longrightarrow>
     Stream_SetReadDeadline now t ref (rv_sess r) = Ret (res, s') \<Longrightarrow> sys_step e r (r\<lparr>rv_sess := s'\<rparr>)"
| sy_writeDeadline: "ref < length (s_objs (rv_sess r)) \<Longrightarrow>
     Stream_SetWriteDeadline now t ref (rv_sess r) = Ret (res, s') \<Longrightarrow> sys_step e r (r\<lparr>rv_sess := s'\<rparr>)"
| sy_streamHook: "ref < length (s_objs (rv_sess r)) \<Longrightarrow>
     sys_step e r (r\<lparr>rv_sess := set_obj ref ((obj (rv_sess r) ref)\<lparr>str_dieHook := Some h\<rparr>) (rv_sess r)\<rparr>)"
| sy_hook: "sys_step e r (r\<lparr>rv_sess := SetDieHook h (rv_sess r)\<rparr>)"
| sy_sessionClose: "sys_step e r (r\<lparr>rv_sess := snd (Session_Close (rv_sess r))\<rparr>)"
| sy_timeout: "sys_step e r (r\<lparr>rv_sess := watch_timeout w (rv_sess r)\<rparr>)"

inductive sys_reach :: "env \<Rightarrow> Session \<Rightarrow> recv \<Rightarrow> bool" for e :: env and s0 :: Session where
  sys_start: "sys_reach e s0 (recv_start s0)"
| sys_more: "sys_reach e s0 r \<Longrightarrow> sys_step e r r' \<Longrightarrow> sys_reach e s0 r'"

end
