(* ===== verification/RecvInv.thy ===== *)
theory RecvInv
  imports Recv
begin

text \<open>
  Invariants of a session under every interleaving of its receive loop with its users: the
  object store stays well formed, and with a padding factory that came from the parser
  nothing panics.
\<close>

section \<open>Objects are never lost\<close>

definition grows :: "Session \<Rightarrow> Session \<Rightarrow> bool" where
  "grows s s' \<longleftrightarrow> length (s_objs s) \<le> length (s_objs s')"

lemma grows_refl [simp]: "grows s s"
  by (simp add: grows_def)

lemma grows_trans: "grows s s' \<Longrightarrow> grows s' s'' \<Longrightarrow> grows s s''"
  by (simp add: grows_def)

lemma grows_simps [simp]:
  "grows s (set_obj ref st s') = grows s s'" "grows (set_obj ref st s) s' = grows s s'"
  "grows s (emit e s') = grows s s'" "grows (emit e s) s' = grows s s'"
  "grows s (s'\<lparr>s_streams := x\<rparr>) = grows s s'" "grows s (s'\<lparr>s_conn := c\<rparr>) = grows s s'"
  "grows s (s'\<lparr>s_synDone := d\<rparr>) = grows s s'" "grows (s\<lparr>s_synDone := d\<rparr>) s' = grows s s'"
  "grows s (s'\<lparr>s_padding := p\<rparr>) = grows s s'" "grows s (s'\<lparr>s_peerVersion := v\<rparr>) = grows s s'"
  "grows (s\<lparr>s_peerVersion := v\<rparr>) s' = grows s s'" "grows s (s'\<lparr>s_buffering := b\<rparr>) = grows s s'"
  "grows (s\<lparr>s_streamId := i\<rparr>) s' = grows s s'" "grows s (s'\<lparr>s_watches := w\<rparr>) = grows s s'"
  "grows (s\<lparr>s_conn := c\<rparr>) s' = grows s s'"
  by (simp_all add: grows_def)

lemma grows_write_changes: "write_changes s s' \<Longrightarrow> grows s s'"
  by (simp add: grows_def write_changesD(2))

lemma grows_Session_Close: "grows s (snd (Session_Close s))"
  by (cases "s_die s") (simp_all add: Session_Close_open grows_def, simp add: Session_Close_def)

lemma grows_closeLocally: "grows s (closeLocally ref s)"
  by (simp add: grows_def)

lemma grows_newStream: "grows s (snd (newStream sid s))"
  by (simp add: grows_def newStream_def)

lemma grows_writeControlFrame: "writeControlFrame f s = Some (r, s') \<Longrightarrow> grows s s'"
  by (erule writeControlFrame_cases)
     (auto intro: grows_write_changes grows_trans grows_Session_Close)

section \<open>What every step keeps\<close>

text \<open>A session the padding code cannot make panic.\<close>

definition padding_safe :: "Session \<Rightarrow> bool" where
  "padding_safe s \<longleftrightarrow> (\<forall>p. s_padding s = Some p \<longrightarrow> factory_ok p)"

definition good :: "Session \<Rightarrow> bool" where
  "good s \<longleftrightarrow> session_inv s \<and> padding_safe s"

lemma padding_safe_cong: "s_padding s' = s_padding s \<Longrightarrow> padding_safe s' = padding_safe s"
  by (simp add: padding_safe_def)

lemma closeLocally_padding [simp]: "s_padding (closeLocally ref s) = s_padding s"
  by (simp add: closeLocally_def Let_def split: option.split)

lemma close_streams_padding [simp]:
  "s_padding (foldl (\<lambda>s' ref. closeLocally ref s') s refs) = s_padding s"
  by (induction refs arbitrary: s) simp_all

lemma Session_Close_padding [simp]: "s_padding (snd (Session_Close s)) = s_padding s"
proof (cases "s_die s")
  case True
  then show ?thesis by (simp add: Session_Close_def)
next
  case False
  have "s_padding (close_begin s) = s_padding s" by (simp add: close_begin_def emit_def split: option.split)
  then show ?thesis by (simp add: Session_Close_open [OF False])
qed

lemma good_write_changes: "write_changes s s' \<Longrightarrow> good s \<Longrightarrow> good s'"
  by (auto simp: good_def padding_safe_def write_changesD(8) intro: session_inv_write_changes)

lemma good_Session_Close: "good s \<Longrightarrow> good (snd (Session_Close s))"
  by (simp add: good_def session_inv_Session_Close padding_safe_def)

lemma good_writeControlFrame: "writeControlFrame f s = Some (r, s') \<Longrightarrow> good s \<Longrightarrow> good s'"
  by (erule writeControlFrame_cases) (auto intro: good_Session_Close good_write_changes)

lemma good_simps [simp]:
  "good (emit e s) = good s" "good (s\<lparr>s_conn := c\<rparr>) = good s" "good (s\<lparr>s_synDone := d\<rparr>) = good s"
  "good (s\<lparr>s_peerVersion := v\<rparr>) = good s" "good (s\<lparr>s_streamId := i\<rparr>) = good s"
  "good (s\<lparr>s_watches := w\<rparr>) = good s" "good (s\<lparr>s_buffering := b\<rparr>) = good s"
  "good (s\<lparr>s_dieHook := h\<rparr>) = good s"
  by (simp_all add: good_def padding_safe_def session_inv_def streams_ok_def objs_inv_def obj_def emit_def)

lemma good_delete: "good s \<Longrightarrow> good (s\<lparr>s_streams := AList.delete sid (s_streams s)\<rparr>)"
  by (simp add: good_def padding_safe_def session_inv_delete)

lemma good_set_obj:
  "good s \<Longrightarrow> str_id st = str_id (obj s ref) \<Longrightarrow> stream_inv st \<Longrightarrow> good (set_obj ref st s)"
  by (simp add: good_def padding_safe_def session_inv_set_obj)

lemma goodD: "good s \<Longrightarrow> ref < length (s_objs s) \<Longrightarrow> stream_inv (obj s ref)"
  by (simp add: good_def session_invD)

lemma good_lookup: "good s \<Longrightarrow> map_of (s_streams s) sid = Some ref \<Longrightarrow> ref < length (s_objs s) \<and> str_id (obj s ref) = sid"
  by (auto simp: good_def session_inv_def dest: map_of_SomeD streams_ok_refs)

lemma good_closeLocally: "good s \<Longrightarrow> good (closeLocally ref s)"
proof -
  assume g: "good s"
  then have "streams_ok (closeLocally ref s)"
  proof (cases "ref < length (s_objs s)")
    case True
    then show ?thesis using g by (auto simp: good_def session_inv_def streams_ok_def closeLocally_obj)
  next
    case False
    then have "s_objs (closeLocally ref s) = s_objs s"
      by (simp add: closeLocally_def Let_def set_obj_def emit_def list_update_beyond split: option.split)
    then show ?thesis using g streams_ok_cong [of "closeLocally ref s" s] by (simp add: good_def session_inv_def)
  qed
  then show ?thesis using g
    by (simp add: good_def padding_safe_def session_inv_def objs_inv_closeLocally)
qed

lemma good_add_stream:
  assumes "good s"
  shows "good ((snd (newStream sid s))\<lparr>s_streams := AList.update sid (length (s_objs s)) (s_streams s)\<rparr>)"
proof -
  have "streams_ok ((snd (newStream sid s))\<lparr>s_streams := AList.update sid (length (s_objs s)) (s_streams s)\<rparr>)"
    using assms
    by (auto simp: good_def session_inv_def streams_ok_def distinct_update newStream_def obj_def nth_append
        newStream_obj_def dest!: AList_update_set)
  then show ?thesis using assms objs_inv_newStream [of s sid]
    by (simp add: good_def session_inv_def padding_safe_def newStream_def)
qed

section \<open>Writes do not panic\<close>

lemma writeConnLocked_total:
  assumes "good s"
  shows "\<exists>r s'. writeConnLocked b s = Some (r, s')"
proof -
  have "writeConnLocked b s \<noteq> None"
  proof (cases "s_buffering s \<or> \<not> s_sendPadding s")
    case True
    then show ?thesis by (cases "s_buffering s") (simp_all add: writeConnLocked_def Let_def)
  next
    case False
    show ?thesis
    proof (cases "s_padding s")
      case None
      then show ?thesis using False by (simp add: writeConnLocked_def Let_def)
    next
      case (Some p)
      then have fac: "factory_ok p" using assms by (simp add: good_def padding_safe_def)
      obtain szs rg where szs:
        "AppendRecordPayloadSizes p (s_pktCounter s + 1) [] (s_rng s) = Some (szs, rg)"
        using AppendRecordPayloadSizes_total [OF fac, of "s_pktCounter s + 1" "[]" "s_rng s"] by auto
      then have "list_all size_ok szs" using AppendRecordPayloadSizes_ok [OF fac] by simp
      then obtain asm left where "assemble szs (s_buffer s @ b) [] = Some (asm, left)"
        using assemble_total [of szs "s_buffer s @ b" "[]"] by blast
      then show ?thesis using Some False szs
        by (cases "s_pktCounter s + 1 < Stop p")
          (simp_all add: writeConnLocked_def Let_def del: not_None_eq split: prod.split)
    qed
  qed
  then show ?thesis by auto
qed

lemma good_set_conn_deadline [simp]: "good (set_conn_deadline d s) = good s"
  by (simp add: set_conn_deadline_def)

lemma writeControlFrame_total:
  assumes "good s"
  shows "\<exists>r s'. writeControlFrame f s = Some (r, s') \<and> good s' \<and> grows s s'"
proof -
  have "good (set_conn_deadline (Some 5) s)" using assms by simp
  then obtain n err s1 where
    "writeConnLocked (frame_header (frame_cmd f) (frame_sid f) (of_nat (length (frame_data f))) @ frame_data f)
       (set_conn_deadline (Some 5) s) = Some ((n, err), s1)"
    using writeConnLocked_total by (metis surj_pair)
  then obtain r s' where "writeControlFrame f s = Some (r, s')"
    by (cases err) (simp_all add: writeControlFrame_def writeConnWithDeadline_def Let_def)
  then show ?thesis using good_writeControlFrame [OF _ assms] grows_writeControlFrame by blast
qed

lemma write_chunks_total: "good s \<Longrightarrow> \<exists>r s'. write_chunks sid data s = Some (r, s')"
proof (induction "length data" arbitrary: data s rule: less_induct)
  case less
  show ?case
  proof (cases "data = []")
    case False
    let ?n = "min (length data) maxFramePayload"
    have short: "length (drop ?n data) < length data" using False by (simp add: maxFramePayload_def)
    obtain n err s1 where w:
      "writeConnLocked (frame_header cmdPSH sid (of_nat ?n) @ take ?n data) s = Some ((n, err), s1)"
      using writeConnLocked_total [OF less.prems] by (metis surj_pair)
    have "good s1" using writeConnLocked_changes [OF w] less.prems by (rule good_write_changes)
    then obtain r s' where "write_chunks sid (drop ?n data) s1 = Some (r, s')"
      using less.hyps [OF short] by blast
    then show ?thesis using w False
      by (cases err) (simp_all add: write_chunks.simps [of sid data s] Let_def writeConn_def)
  qed simp
qed

lemma writeDataFrame_total:
  assumes "good s"
  shows "\<exists>r s'. writeDataFrame sid data s = Some (r, s') \<and> good s' \<and> grows s s'"
proof -
  obtain e s' where w: "write_chunks sid data s = Some (e, s')" using write_chunks_total [OF assms] by blast
  then obtain r where "writeDataFrame sid data s = Some (r, s')"
    by (cases e) (simp_all add: writeDataFrame_def)
  then show ?thesis
    using good_write_changes [OF write_chunks_changes [OF w] assms] grows_write_changes [OF write_chunks_changes [OF w]]
    by blast
qed

lemma streamClosed_total:
  assumes "good s"
  shows "\<exists>r s'. streamClosed sid s = Some (r, s') \<and> good s' \<and> grows s s'"
proof (cases "IsClosed s")
  case True
  then show ?thesis using assms by (simp add: streamClosed_def)
next
  case False
  obtain n err s1 where "writeControlFrame (newFrame cmdFIN sid) s = Some ((n, err), s1)" "good s1" "grows s s1"
    using writeControlFrame_total [OF assms] by (metis surj_pair)
  then show ?thesis using False good_delete by (simp add: streamClosed_def)
qed

lemma closeWithError_total:
  assumes "good s" and "ref < length (s_objs s)"
  shows "\<exists>r s'. closeWithError e ref s = Some (r, s') \<and> good s' \<and> grows s s'"
proof (cases "str_dieOnce (obj s ref)")
  case True
  then show ?thesis using assms(1) by (simp add: closeWithError_def)
next
  case False
  let ?t = "set_obj ref ((obj s ref)\<lparr>str_dieOnce := True, str_dieErr := Some e,
      str_pipe := PipeReader_Close (str_pipe (obj s ref))\<rparr>) s"
  obtain u where u: "u = (case str_dieHook (obj s ref) of Some h \<Rightarrow> emit (EvStreamHook ref h) ?t | None \<Rightarrow> ?t)"
    by simp
  have "good ?t" using good_set_obj [OF assms(1)] stream_inv_PipeReader_Close(2) [OF goodD [OF assms]] by simp
  then have "good u" "grows s u" using u by (simp_all split: option.splits)
  then obtain r s' where "streamClosed (str_id (obj s ref)) u = Some (r, s')" "good s'" "grows s s'"
    using streamClosed_total [of u "str_id (obj s ref)"] grows_trans by blast
  then show ?thesis using False u by (simp add: closeWithError_def Let_def)
qed

section \<open>The handlers\<close>

definition handled_good :: "Session \<Rightarrow> handled \<Rightarrow> bool" where
  "handled_good s h \<longleftrightarrow>
     (case h of
        HNext f s' \<Rightarrow> good s' \<and> grows s s'
      | HPush ref b f s' \<Rightarrow> good s' \<and> grows s s' \<and> ref < length (s_objs s')
      | HReturn err s' \<Rightarrow> good s' \<and> grows s s')"

lemma handled_good_simps [simp]:
  "handled_good s (HNext f s') = (good s' \<and> grows s s')"
  "handled_good s (HPush ref b f s') = (good s' \<and> grows s s' \<and> ref < length (s_objs s'))"
  "handled_good s (HReturn err s') = (good s' \<and> grows s s')"
  by (simp_all add: handled_good_def)

lemma with_payload_good:
  assumes "good s" and "\<And>b c. \<exists>h. k b (s\<lparr>s_conn := c\<rparr>) = Some h \<and> handled_good s h"
  shows "\<exists>h. with_payload hdr s k = Some h \<and> handled_good s h"
  using assms by (auto simp: with_payload_def s_ReadFull_def split: prod.split sum.split)

lemma handle_PSH_good: "good s \<Longrightarrow> \<exists>h. handle_PSH flag hdr s = Some h \<and> handled_good s h"
  by (auto simp: handle_PSH_def intro!: with_payload_good dest: good_lookup split: option.split)

lemma handle_SYN_good:
  assumes "good s"
  shows "\<exists>h. handle_SYN flag hdr s = Some h \<and> handled_good s h"
proof (cases "\<not> s_isClient s \<and> \<not> flag")
  case True
  then show ?thesis
    using writeControlFrame_total [OF assms, of "(newFrame cmdAlert 0)\<lparr>frame_data := alert_text\<rparr>"]
    by (auto simp: handle_SYN_def)
next
  case False
  obtain s1 where s1: "newStream (StreamID hdr) s = (length (s_objs s), s1)" "s_streams s1 = s_streams s"
    by (simp add: newStream_def)
  then have "good (s1\<lparr>s_streams := AList.update (StreamID hdr) (length (s_objs s)) (s_streams s)\<rparr>)" "grows s s1"
    using good_add_stream [OF assms, of "StreamID hdr"] grows_newStream [of s "StreamID hdr"] by simp_all
  then show ?thesis using False assms s1
    by (cases "s_isClient s"; cases flag) (simp_all add: handle_SYN_def)
qed

lemma good_call_synDone [simp]: "good (call_synDone s) = good s" "grows s (call_synDone s)"
  "grows (call_synDone s) s' = grows s s'"
  by (simp_all add: call_synDone_def split: option.split)

lemma handle_SYNACK_good: "good s \<Longrightarrow> \<exists>h. handle_SYNACK flag hdr s = Some h \<and> handled_good s h"
proof -
  assume g: "good s"
  let ?s = "(call_synDone s)\<lparr>s_synDone := None\<rparr>"
  have gs: "good ?s" using g by simp
  have "\<exists>h. (case map_of (s_streams t) (StreamID hdr) of
               Some ref \<Rightarrow> (case closeWithError (ErrRemote b) ref t of
                  None \<Rightarrow> None | Some (_, s2) \<Rightarrow> Some (HNext flag s2))
             | None \<Rightarrow> Some (HNext flag t)) = Some h \<and> handled_good s h"
    if "t = ?s\<lparr>s_conn := c\<rparr>" for b c t
  proof (cases "map_of (s_streams t) (StreamID hdr)")
    case None
    then show ?thesis using gs that by simp
  next
    case (Some ref)
    have gt: "good t" "grows s t" using gs that by simp_all
    then obtain r s' where "closeWithError (ErrRemote b) ref t = Some (r, s')" "good s'" "grows t s'"
      using closeWithError_total [of t ref] good_lookup [OF gt(1) Some] by blast
    then show ?thesis using Some gt(2) grows_trans by auto
  qed
  then have "\<exists>h. with_payload hdr ?s (\<lambda>b t. case map_of (s_streams t) (StreamID hdr) of
               Some ref \<Rightarrow> (case closeWithError (ErrRemote b) ref t of
                  None \<Rightarrow> None | Some (_, s2) \<Rightarrow> Some (HNext flag s2))
             | None \<Rightarrow> Some (HNext flag t)) = Some h \<and> handled_good s h"
    using gs by (auto simp: with_payload_def s_ReadFull_def split: prod.split sum.split)
  then show ?thesis using gs by (simp add: handle_SYNACK_def Let_def)
qed

lemma handle_FIN_good: "good s \<Longrightarrow> \<exists>h. handle_FIN flag hdr s = Some h \<and> handled_good s h"
  by (auto simp: handle_FIN_def Let_def grows_def intro: good_closeLocally good_delete split: option.split)

lemma handle_Waste_good: "good s \<Longrightarrow> \<exists>h. handle_Waste flag hdr s = Some h \<and> handled_good s h"
  by (auto simp: handle_Waste_def intro!: with_payload_good)

lemma settings_update_good:
  "good s \<Longrightarrow> \<exists>r s'. settings_update m p s = Some (r, s') \<and> good s' \<and> grows s s'"
  using writeControlFrame_total [of s "(newFrame cmdUpdatePaddingScheme 0)\<lparr>frame_data := RawScheme p\<rparr>"]
  by (auto simp: settings_update_def)

lemma settings_version_good:
  "good s \<Longrightarrow> \<exists>r s'. settings_version m s = Some (r, s') \<and> good s' \<and> grows s s'"
proof (cases "Atoi (sm_get m ''v'')")
  case (Some v)
  assume "good s"
  then have "good (s\<lparr>s_peerVersion := word_of_int v\<rparr>)" by simp
  then show ?thesis using Some \<open>good s\<close>
      writeControlFrame_total [of "s\<lparr>s_peerVersion := word_of_int v\<rparr>"
        "(newFrame cmdServerSettings 0)\<lparr>frame_data := ToBytes [(''v'', ''2'')]\<rparr>"]
    by (auto simp: settings_version_def)
qed (simp add: settings_version_def)

lemma handle_Settings_good: "good s \<Longrightarrow> \<exists>h. handle_Settings flag hdr s = Some h \<and> handled_good s h"
proof -
  assume g: "good s"
  have step: "\<exists>h. (case settings_update m p t of
          None \<Rightarrow> None
        | Some (Some err, s2) \<Rightarrow> Some (HReturn (Some err) s2)
        | Some (None, s2) \<Rightarrow>
            (case settings_version m s2 of
               None \<Rightarrow> None
             | Some (Some err, s3) \<Rightarrow> Some (HReturn (Some err) s3)
             | Some (None, s3) \<Rightarrow> Some (HNext True s3))) = Some h \<and> handled_good s h"
    if t: "good t" "grows s t" for t m p
  proof -
    obtain r1 s2 where u: "settings_update m p t = Some (r1, s2)" "good s2" "grows t s2"
      using settings_update_good [OF t(1)] by blast
    obtain r2 s3 where v: "settings_version m s2 = Some (r2, s3)" "good s3" "grows s2 s3"
      using settings_version_good [OF u(2)] by blast
    have "grows s s2" "grows s s3" using t(2) u(3) v(3) grows_trans by blast+
    then show ?thesis using u v by (cases r1; cases r2) simp_all
  qed
  then show ?thesis using g
    by (auto simp: handle_Settings_def Let_def intro!: with_payload_good split: option.split)
qed

lemma handle_Alert_good: "good s \<Longrightarrow> \<exists>h. handle_Alert flag hdr s = Some h \<and> handled_good s h"
  by (auto simp: handle_Alert_def intro!: with_payload_good)

lemma good_padding: "good s \<Longrightarrow> (\<And>p. x = Some p \<Longrightarrow> factory_ok p) \<Longrightarrow> good (s\<lparr>s_padding := x\<rparr>)"
  by (simp add: good_def padding_safe_def session_inv_def streams_ok_def objs_inv_def obj_def)

lemma UpdatePaddingScheme_ok:
  "(\<And>p. x = Some p \<Longrightarrow> factory_ok p) \<Longrightarrow> snd (UpdatePaddingScheme md5hex order raw x) = Some p \<Longrightarrow> factory_ok p"
  by (auto simp: UpdatePaddingScheme_def dest: NewPaddingFactory_ok split: option.splits)

lemma handle_UpdatePaddingScheme_good:
  "good s \<Longrightarrow> \<exists>h. handle_UpdatePaddingScheme e flag hdr s = Some h \<and> handled_good s h"
proof -
  assume g: "good s"
  have upd: "good (s\<lparr>s_conn := c, s_padding := snd (UpdatePaddingScheme (env_md5 e) (env_order e) raw (s_padding s))\<rparr>)"
    for c raw
  proof (rule good_padding)
    show "good (s\<lparr>s_conn := c\<rparr>)" using g by simp
  next
    fix p
    assume "snd (UpdatePaddingScheme (env_md5 e) (env_order e) raw (s_padding s)) = Some p"
    moreover have "\<And>p. s_padding s = Some p \<Longrightarrow> factory_ok p"
      using g by (simp add: good_def padding_safe_def)
    ultimately show "factory_ok p" using UpdatePaddingScheme_ok by blast
  qed
  have "\<exists>h. with_payload hdr s (\<lambda>rawScheme s1.
          if s_isClient s1 \<and> \<not> env_debugPadding e then
            Some (HNext flag (s1\<lparr>s_padding :=
              snd (UpdatePaddingScheme (env_md5 e) (env_order e) rawScheme (s_padding s1))\<rparr>))
          else Some (HNext flag s1)) = Some h \<and> handled_good s h"
  proof (rule with_payload_good [OF g])
    fix b c
    show "\<exists>h. (if s_isClient (s\<lparr>s_conn := c\<rparr>) \<and> \<not> env_debugPadding e then
            Some (HNext flag (s\<lparr>s_conn := c, s_padding :=
              snd (UpdatePaddingScheme (env_md5 e) (env_order e) b (s_padding (s\<lparr>s_conn := c\<rparr>)))\<rparr>))
          else Some (HNext flag (s\<lparr>s_conn := c\<rparr>))) = Some h \<and> handled_good s h"
    proof (cases "s_isClient s \<and> \<not> env_debugPadding e")
      case True
      have "s_padding (s\<lparr>s_conn := c\<rparr>) = s_padding s" by simp
      then show ?thesis using True upd [of b c] by (simp only: select_convs) simp
    next
      case False
      then show ?thesis using g by auto
    qed
  qed
  then show ?thesis using g unfolding handle_UpdatePaddingScheme_def
    by (cases "Length hdr > 0") (simp_all only: if_True if_False, simp_all)
qed

lemma handle_HeartRequest_good: "good s \<Longrightarrow> \<exists>h. handle_HeartRequest flag hdr s = Some h \<and> handled_good s h"
proof -
  assume "good s"
  then obtain n err s' where "writeControlFrame (newFrame cmdHeartResponse (StreamID hdr)) s = Some ((n, err), s')"
    "good s'" "grows s s'"
    using writeControlFrame_total by (metis surj_pair)
  then show ?thesis by (cases err) (simp_all add: handle_HeartRequest_def)
qed

lemma handle_ServerSettings_good:
  "good s \<Longrightarrow> \<exists>h. handle_ServerSettings flag hdr s = Some h \<and> handled_good s h"
  by (auto simp: handle_ServerSettings_def intro!: with_payload_good split: option.split)

lemmas handlers_good = handle_PSH_good handle_SYN_good handle_SYNACK_good handle_FIN_good
  handle_Waste_good handle_Settings_good handle_Alert_good handle_UpdatePaddingScheme_good
  handle_HeartRequest_good handle_ServerSettings_good

lemma handle_frame_good: "good s \<Longrightarrow> \<exists>h. handle_frame e flag hdr s = Some h \<and> handled_good s h"
  by (simp add: handle_frame_def Let_def handlers_good)

section \<open>The loop and its users\<close>

definition recv_good :: "recv \<Rightarrow> bool" where
  "recv_good r \<longleftrightarrow> good (rv_sess r) \<and>
     (case rv_pc r of
        RPush ref b \<Rightarrow> ref < length (s_objs (rv_sess r))
      | RWaitSpace ref b \<Rightarrow> ref < length (s_objs (rv_sess r))
      | _ \<Rightarrow> True)"

lemma write_loop_keeps:
  "pipe_inv p \<Longrightarrow>
   case write_loop b n p of
     Inl (r, p') \<Rightarrow> pipe_inv p' \<and> p_done p' = p_done p
   | Inr (r, p') \<Rightarrow> pipe_inv p' \<and> p_done p' = p_done p"
  by (auto simp: write_loop_def Let_def split_beta wakeReader_def pipeq.put_inv)

lemma pipe_write_keeps:
  "pipe_inv p \<Longrightarrow>
   case pipe_write b p of
     Inl (r, p') \<Rightarrow> pipe_inv p' \<and> p_done p' = p_done p
   | Inr (r, p') \<Rightarrow> pipe_inv p' \<and> p_done p' = p_done p"
  using write_loop_keeps [of p b 0] by (simp add: pipe_write_def)

lemma good_set_pipe:
  assumes "good s" and "ref < length (s_objs s)" and "pipe_inv p" and "p_done p = p_done (str_pipe (obj s ref))"
  shows "good (set_pipe ref p s)"
  unfolding set_pipe_def
  using goodD [OF assms(1,2)] assms by (intro good_set_obj) (auto simp: stream_inv_def)

lemma set_pipe_length [simp]: "length (s_objs (set_pipe ref p s)) = length (s_objs s)"
  by (simp add: set_pipe_def)

lemma recv_pushed_good:
  assumes "good s" and "ref < length (s_objs s)"
    and "case w of Inl (r, p') \<Rightarrow> pipe_inv p' \<and> p_done p' = p_done (str_pipe (obj s ref))
                 | Inr (r, p') \<Rightarrow> pipe_inv p' \<and> p_done p' = p_done (str_pipe (obj s ref))"
  shows "recv_good (recv_pushed ref flag s w)"
  using assms good_set_pipe [OF assms(1,2)]
  by (auto simp: recv_good_def recv_pushed_def split: sum.splits prod.splits)

lemma good_pipe: "good s \<Longrightarrow> ref < length (s_objs s) \<Longrightarrow> pipe_inv (str_pipe (obj s ref))"
  using goodD by (simp add: stream_inv_def)

lemma recv_resume_good:
  assumes "good s" and "ref < length (s_objs s)"
  shows "recv_good (recv_pushed ref flag s (write_loop b 0 ((str_pipe (obj s ref))\<lparr>p_spaceReady := False\<rparr>)))"
proof (rule recv_pushed_good [OF assms])
  have "pipe_inv ((str_pipe (obj s ref))\<lparr>p_spaceReady := False\<rparr>)" using good_pipe [OF assms] by simp
  from write_loop_keeps [OF this, of b 0]
  show "case write_loop b 0 ((str_pipe (obj s ref))\<lparr>p_spaceReady := False\<rparr>) of
      Inl (r, p') \<Rightarrow> pipe_inv p' \<and> p_done p' = p_done (str_pipe (obj s ref))
    | Inr (r, p') \<Rightarrow> pipe_inv p' \<and> p_done p' = p_done (str_pipe (obj s ref))"
    by (auto split: sum.splits)
qed

lemma s_ReadFull_good: "s_ReadFull n s = (x, s') \<Longrightarrow> good s \<Longrightarrow> good s' \<and> grows s s'"
  by (auto simp: s_ReadFull_def split: prod.splits)

lemma recv_return_good: "good s \<Longrightarrow> recv_good (recv_return err flag s)"
  by (simp add: recv_good_def recv_return_def good_Session_Close)

lemma recv_step_good:
  assumes "recv_good r"
  shows "recv_step e r \<noteq> Panic \<and> (\<forall>r'. recv_step e r = Ret r' \<longrightarrow> recv_good r')"
proof -
  let ?s = "rv_sess r"
  have g: "good ?s" using assms by (simp add: recv_good_def)
  show ?thesis
  proof (cases "rv_pc r")
    case RHeader
    obtain x s1 where x: "s_ReadFull headerOverHeadSize ?s = (x, s1)" by fastforce
    then have "good s1" using s_ReadFull_good [OF _ g] by blast
    then show ?thesis using RHeader x
      by (cases x) (simp_all add: recv_step_def Let_def recv_return_good, simp add: recv_good_def)
  next
    case (RHandle hdr)
    obtain h where h: "handle_frame e (rv_flag r) hdr ?s = Some h" "handled_good ?s h"
      using handle_frame_good [OF g] by blast
    then show ?thesis using RHandle
      by (cases h) (simp_all add: recv_step_def recv_return_good, simp_all add: recv_good_def)
  next
    case (RPush ref b)
    then have ref: "ref < length (s_objs ?s)" using assms by (simp add: recv_good_def)
    show ?thesis using RPush recv_pushed_good [OF g ref pipe_write_keeps [OF good_pipe [OF g ref]]]
      by (simp add: recv_step_def Let_def)
  next
    case (RWaitSpace ref b)
    then have ref: "ref < length (s_objs ?s)" using assms by (simp add: recv_good_def)
    have "recv_good \<lparr>rv_pc = RHeader, rv_flag = rv_flag r, rv_sess = ?s\<rparr>" using g by (simp add: recv_good_def)
    then show ?thesis using RWaitSpace recv_resume_good [OF g ref]
      by (simp add: recv_step_def Let_def)
  next
    case (RDone err)
    then show ?thesis by (simp add: recv_step_def)
  qed
qed

lemma recv_good_sess:
  "recv_good r \<Longrightarrow> good s' \<Longrightarrow> grows (rv_sess r) s' \<Longrightarrow> recv_good (r\<lparr>rv_sess := s'\<rparr>)"
  by (auto simp: recv_good_def grows_def split: recv_pc.splits)

lemma good_update:
  assumes "good s" and "ref < length (s_objs s)" and "str_id (obj s ref) = sid"
  shows "good (s\<lparr>s_streams := AList.update sid ref (s_streams s)\<rparr>)"
proof -
  have "streams_ok (s\<lparr>s_streams := AList.update sid ref (s_streams s)\<rparr>)"
    using assms by (auto simp: good_def session_inv_def streams_ok_def distinct_update dest!: AList_update_set)
  then show ?thesis using assms(1) by (simp add: good_def session_inv_def padding_safe_def)
qed

lemma good_newStream: "good s \<Longrightarrow> good (snd (newStream sid s))"
  using objs_inv_newStream [of s sid]
  by (auto simp: good_def session_inv_def padding_safe_def streams_ok_def obj_def nth_append newStream_def)

lemma arm_watch_good [simp]: "good (arm_watch s) = good s" "s_objs (arm_watch s) = s_objs s"
  "s_objs (call_synDone s) = s_objs s"
  by (simp_all add: arm_watch_def call_synDone_def split: option.split)

lemma OpenStream_total:
  assumes "good s"
  shows "\<exists>r s'. OpenStream s = Some (r, s') \<and> good s' \<and> grows s s'"
proof (cases "IsClosed s")
  case True
  then show ?thesis using assms by (simp add: OpenStream_def)
next
  case False
  let ?sid = "s_streamId s + 1" and ?ref = "length (s_objs s)"
  obtain s1 where s1: "newStream ?sid (s\<lparr>s_streamId := ?sid\<rparr>) = (?ref, s1)"
    and objs1: "s_objs s1 = s_objs s @ [newStream_obj ?sid]"
    by (simp add: newStream_def)
  have "good s1" using good_newStream [of "s\<lparr>s_streamId := ?sid\<rparr>" ?sid] assms s1 by simp
  moreover obtain s2 where s2: "s2 = (if ?sid \<ge> 2 \<and> s_peerVersion s1 \<ge> 2 then arm_watch (call_synDone s1) else s1)"
    by simp
  ultimately have g2: "good s2" and objs2: "s_objs s2 = s_objs s @ [newStream_obj ?sid]"
    using objs1 by simp_all
  obtain n err s3 where w: "writeControlFrame (newFrame cmdSYN ?sid) s2 = Some ((n, err), s3)"
    and g3: "good s3" and gr: "grows s2 s3"
    using writeControlFrame_total [OF g2] by (metis surj_pair)
  have grows: "grows s s3" using gr objs2 by (simp add: grows_def)
  show ?thesis
  proof (cases err)
    case (Some e)
    then show ?thesis using False s1 s2 w g3 grows by (simp add: OpenStream_def)
  next
    case None
    have "write_changes s2 s3" using w None writeControlFrame_ok_changes by blast
    then have "s_objs s3 = s_objs s @ [newStream_obj ?sid]" using objs2 write_changesD(2) by simp
    then have "good ((s3\<lparr>s_buffering := False\<rparr>)\<lparr>s_streams := AList.update ?sid ?ref (s_streams s3)\<rparr>)"
      using good_update [of "s3\<lparr>s_buffering := False\<rparr>" ?ref ?sid] g3
      by (simp add: obj_def newStream_obj_def)
    then show ?thesis using False s1 s2 w g3 None grows
      by (cases "s_die s3") (simp_all add: OpenStream_def)
  qed
qed

lemma stream_op_good:
  assumes "good s" and "ref < length (s_objs s)"
  shows "Stream_Read n ref s = Ret (rr, s1) \<Longrightarrow> good s1 \<and> grows s s1"
    and "\<exists>r s'. Stream_Write b ref s = Some (r, s') \<and> good s' \<and> grows s s'"
    and "\<exists>r s'. Stream_Close ref s = Some (r, s') \<and> good s' \<and> grows s s'"
    and "\<exists>r s'. HandshakeSuccess ref s = Some (r, s') \<and> good s' \<and> grows s s'"
    and "\<exists>r s'. HandshakeFailure etext err ref s = Some (r, s') \<and> good s' \<and> grows s s'"
    and "Stream_SetReadDeadline now t ref s = Ret (rd, s2) \<Longrightarrow> good s2 \<and> grows s s2"
    and "Stream_SetWriteDeadline now t ref s = Ret (rd, s2) \<Longrightarrow> good s2 \<and> grows s s2"
    and "good (set_obj ref ((obj s ref)\<lparr>str_dieHook := Some h\<rparr>) s)"
proof -
  have inv: "session_inv s" using assms(1) by (simp add: good_def)
  have same: "session_inv s' \<Longrightarrow> s' = set_obj ref st s \<Longrightarrow> good s' \<and> grows s s'" for s' st
    using assms(1) by (simp add: good_def padding_safe_def)
  show "Stream_Read n ref s = Ret (rr, s1) \<Longrightarrow> good s1 \<and> grows s s1"
    using Stream_Read_inv [OF _ inv assms(2)] same
    by (fastforce simp: Stream_Read_def Let_def split: outcome.splits prod.splits)
  show "Stream_SetReadDeadline now t ref s = Ret (rd, s2) \<Longrightarrow> good s2 \<and> grows s s2"
    using Stream_SetReadDeadline_inv [OF _ inv assms(2)] same
    by (fastforce simp: Stream_SetReadDeadline_def split: outcome.splits prod.splits)
  show "Stream_SetWriteDeadline now t ref s = Ret (rd, s2) \<Longrightarrow> good s2 \<and> grows s s2"
    using Stream_SetWriteDeadline_inv [OF _ inv assms(2)] same
    by (fastforce simp: Stream_SetWriteDeadline_def split: outcome.splits)
  show "\<exists>r s'. Stream_Write b ref s = Some (r, s') \<and> good s' \<and> grows s s'"
    using writeDataFrame_total [OF assms(1)] assms(1) by (simp add: Stream_Write_def)
  show "\<exists>r s'. Stream_Close ref s = Some (r, s') \<and> good s' \<and> grows s s'"
    using closeWithError_total [OF assms] by (simp add: Stream_Close_def)
  show "good (set_obj ref ((obj s ref)\<lparr>str_dieHook := Some h\<rparr>) s)"
    using goodD [OF assms] by (intro good_set_obj assms(1)) (simp_all add: stream_inv_def)
  have rep: "good (set_obj ref ((obj s ref)\<lparr>str_reportOnce := True\<rparr>) s)"
    using goodD [OF assms] by (intro good_set_obj assms(1)) simp_all
  have g: "grows (set_obj ref st s) s' = grows s s'" for st s' by simp
  show "\<exists>r s'. HandshakeSuccess ref s = Some (r, s') \<and> good s' \<and> grows s s'"
    using writeControlFrame_total [OF rep, of "newFrame cmdSYNACK (str_id (obj s ref))"] rep
    by (fastforce simp: HandshakeSuccess_def Let_def g)
  show "\<exists>r s'. HandshakeFailure etext err ref s = Some (r, s') \<and> good s' \<and> grows s s'"
  proof (cases err)
    case None
    then show ?thesis using rep by (simp add: HandshakeFailure_def Let_def)
  next
    case (Some e)
    then show ?thesis
      using writeControlFrame_total [OF rep, of "(newFrame cmdSYNACK (str_id (obj s ref)))\<lparr>frame_data := etext e\<rparr>"] rep
      by (fastforce simp: HandshakeFailure_def Let_def g)
  qed
qed

lemma SetDieHook_good [simp]: "good (SetDieHook h s) = good s" "grows s (SetDieHook h s)"
  by (simp_all add: SetDieHook_def grows_def)

lemma watch_timeout_good: "good s \<Longrightarrow> good (watch_timeout w s) \<and> grows s (watch_timeout w s)"
  by (simp add: watch_timeout_def good_Session_Close grows_Session_Close)

lemma recv_goodD: "recv_good r \<Longrightarrow> good (rv_sess r)"
  by (simp add: recv_good_def)

lemma sys_step_good:
  assumes "sys_step e r r'" and "recv_good r"
  shows "recv_good r'"
  using assms
proof (cases rule: sys_step.cases)
  case sy_recv
  then show ?thesis using recv_step_good [OF assms(2)] by blast
next
  case (sy_token ref b p)
  then have g: "good (rv_sess r)" and ref: "ref < length (s_objs (rv_sess r))"
    using assms(2) by (auto simp: recv_good_def)
  show ?thesis using recv_resume_good [OF g ref] sy_token by simp
next
  case sy_open
  then show ?thesis using OpenStream_total [OF recv_goodD [OF assms(2)]] recv_good_sess [OF assms(2)] by fastforce
next
  case sy_read
  then show ?thesis using stream_op_good(1) [OF recv_goodD [OF assms(2)]] recv_good_sess [OF assms(2)] by fastforce
next
  case (sy_write ref b)
  then show ?thesis using stream_op_good(2) [OF recv_goodD [OF assms(2)], of ref b] recv_good_sess [OF assms(2)] by fastforce
next
  case sy_close
  then show ?thesis using stream_op_good(3) [OF recv_goodD [OF assms(2)]] recv_good_sess [OF assms(2)] by fastforce
next
  case sy_success
  then show ?thesis using stream_op_good(4) [OF recv_goodD [OF assms(2)]] recv_good_sess [OF assms(2)] by fastforce
next
  case (sy_failure ref etext err)
  then show ?thesis using stream_op_good(5) [OF recv_goodD [OF assms(2)], of ref etext err] recv_good_sess [OF assms(2)]
    by fastforce
next
  case sy_readDeadline
  then show ?thesis using stream_op_good(6) [OF recv_goodD [OF assms(2)]] recv_good_sess [OF assms(2)] by fastforce
next
  case sy_writeDeadline
  then show ?thesis using stream_op_good(7) [OF recv_goodD [OF assms(2)]] recv_good_sess [OF assms(2)] by fastforce
next
  case sy_streamHook
  then show ?thesis using stream_op_good(8) [OF recv_goodD [OF assms(2)]] recv_good_sess [OF assms(2)] by simp
next
  case sy_hook
  then show ?thesis using recv_goodD [OF assms(2)] recv_good_sess [OF assms(2)] by simp
next
  case sy_sessionClose
  then show ?thesis
    using good_Session_Close [OF recv_goodD [OF assms(2)]] grows_Session_Close recv_good_sess [OF assms(2)] by simp
next
  case sy_timeout
  then show ?thesis using watch_timeout_good [OF recv_goodD [OF assms(2)]] recv_good_sess [OF assms(2)] by simp
qed

lemma sys_reach_good: "sys_reach e s0 r \<Longrightarrow> good s0 \<Longrightarrow> recv_good r"
  by (induction rule: sys_reach.induct) (simp add: recv_good_def recv_start_def, blast intro: sys_step_good)

section \<open>Properties\<close>



end
