(* ===== verification/Delivery.thy ===== *)
theory Delivery
  imports RecvInv
begin

text \<open>
  What the receive loop does with its input: it stays in step with the reference decoder of
  \<open>Frame\<close>, gives each stream its payload in order, and together with the write path of the
  peer delivers a stream's data unchanged. Also the opening exchange, the guard on streams
  before the settings, and closing.
\<close>

section \<open>Running the loop\<close>

fun recv_run :: "env \<Rightarrow> nat \<Rightarrow> recv \<Rightarrow> recv outcome" where
  "recv_run e 0 r = Ret r"
| "recv_run e (Suc n) r =
     (case recv_step e r of Ret r' \<Rightarrow> recv_run e n r' | Block \<Rightarrow> Block | Panic \<Rightarrow> Panic)"

lemma recv_run_add: "recv_run e m r = Ret r' \<Longrightarrow> recv_run e (m + n) r = recv_run e n r'"
  by (induction m arbitrary: r) (auto split: outcome.splits)

lemma recv_run_trans:
  "recv_run e m r = Ret r' \<Longrightarrow> recv_run e n r' = Ret r'' \<Longrightarrow> recv_run e (m + n) r = Ret r''"
  by (simp add: recv_run_add)

text \<open>The session with its remaining input replaced.\<close>

definition set_in :: "byte list \<Rightarrow> Session \<Rightarrow> Session" where
  "set_in x s = s\<lparr>s_conn := (s_conn s)\<lparr>c_in := x\<rparr>\<rparr>"

definition open_in :: "Session \<Rightarrow> byte list \<Rightarrow> bool" where
  "open_in s x \<longleftrightarrow> \<not> c_closed (s_conn s) \<and> c_in (s_conn s) = x"

lemma set_in_simps [simp]:
  "open_in (set_in x s) y \<longleftrightarrow> \<not> c_closed (s_conn s) \<and> x = y"
  "s_streams (set_in x s) = s_streams s" "obj (set_in x s) = obj s" "s_objs (set_in x s) = s_objs s"
  "set_in x (set_in y s) = set_in x s" "s_isClient (set_in x s) = s_isClient s"
  "s_padding (set_in x s) = s_padding s" "c_in (s_conn (set_in x s)) = x"
  "c_closed (s_conn (set_in x s)) = c_closed (s_conn s)" "s_die (set_in x s) = s_die s"
  "s_peerVersion (set_in x s) = s_peerVersion s" "s_buffer (set_in x s) = s_buffer s"
  by (auto simp: set_in_def open_in_def obj_def fun_eq_iff)

lemma set_in_same: "open_in s x \<Longrightarrow> set_in x s = s"
  by (cases s; cases "s_conn s") (simp add: set_in_def open_in_def)

lemma s_ReadFull_ok:
  "open_in s x \<Longrightarrow> n \<le> length x \<Longrightarrow> s_ReadFull n s = (Inr (take n x), set_in (drop n x) s)"
  by (simp add: s_ReadFull_def conn_ReadFull_def open_in_def set_in_def)

lemma s_ReadFull_short:
  "open_in s x \<Longrightarrow> length x < n \<Longrightarrow>
   s_ReadFull n s = (Inl (if x \<noteq> [] \<and> c_in_end (s_conn s) = ErrEOF then ErrUnexpectedEOF
                          else c_in_end (s_conn s)), set_in [] s)"
  by (simp add: s_ReadFull_def conn_ReadFull_def open_in_def set_in_def)

text \<open>A header and the frame it announces.\<close>

definition announces :: "rawHeader \<Rightarrow> frame \<Rightarrow> bool" where
  "announces hdr f \<longleftrightarrow> Cmd hdr = frame_cmd f \<and> StreamID hdr = frame_sid f \<and>
     (has_payload (frame_cmd f) \<longrightarrow> unat (Length hdr) = length (frame_data f)) \<and>
     (\<not> has_payload (frame_cmd f) \<longrightarrow> frame_data f = [])"

lemma decode_frame_split:
  assumes "decode_frame x = Some (f, rest)"
  shows "7 \<le> length x \<and> announces (take 7 x) f \<and> drop 7 x = frame_data f @ rest"
  using assms
  by (auto simp: decode_frame_def announces_def Let_def split: if_splits)
     (metis append_take_drop_id drop_drop)

lemma header_step:
  assumes "rv_pc r = RHeader" and "open_in (rv_sess r) x" and "decode_frame x = Some (f, rest)"
  shows "\<exists>hdr. recv_step e r = Ret (r\<lparr>rv_pc := RHandle hdr, rv_sess := set_in (frame_data f @ rest) (rv_sess r)\<rparr>) \<and>
           announces hdr f"
  using assms decode_frame_split [OF assms(3)]
  by (cases r) (auto simp: recv_step_def s_ReadFull_ok)

lemma with_payload_ok:
  assumes "open_in s (d @ rest)" and "unat (Length hdr) = length d"
  shows "with_payload hdr s k = k d (set_in rest s)"
  using s_ReadFull_ok [OF assms(1), of "unat (Length hdr)"] assms(2) by (simp add: with_payload_def)

lemma Length_pos: "(Length hdr > 0) = (unat (Length hdr) > 0)"
  by (simp add: unat_gt_0 word_gt_0)

section \<open>In step with the decoder\<close>

definition handled_sess :: "handled \<Rightarrow> Session" where
  "handled_sess h = (case h of HNext f s \<Rightarrow> s | HPush ref b f s \<Rightarrow> s | HReturn err s \<Rightarrow> s)"

definition input_of :: "Session \<Rightarrow> byte list" where
  "input_of s = c_in (s_conn s)"

lemma input_of_simps [simp]:
  "input_of (set_in x s) = x" "input_of (emit e s) = input_of s" "input_of (set_obj ref st s) = input_of s"
  "input_of (s\<lparr>s_streams := y\<rparr>) = input_of s" "input_of (s\<lparr>s_synDone := d\<rparr>) = input_of s"
  "input_of (s\<lparr>s_peerVersion := v\<rparr>) = input_of s" "input_of (s\<lparr>s_padding := p\<rparr>) = input_of s"
  "input_of (closeLocally ref s) = input_of s" "input_of (call_synDone s) = input_of s"
  "input_of (snd (newStream sid s)) = input_of s"
  by (simp_all add: input_of_def call_synDone_def newStream_def split: option.split)

lemma input_of_newStream: "newStream sid s = (ref, s') \<Longrightarrow> input_of s' = input_of s"
  by (auto simp: newStream_def input_of_def)

lemma input_of_Session_Close [simp]: "input_of (snd (Session_Close s)) = input_of s"
proof -
  have "c_in (snd (conn_Close c)) = c_in c" for c by (simp add: conn_Close_def)
  then show ?thesis
    by (cases "s_die s") (simp_all add: Session_Close_open input_of_def, simp add: Session_Close_def)
qed

lemma input_of_writeControlFrame: "writeControlFrame f s = Some (r, s') \<Longrightarrow> input_of s' = input_of s"
proof (erule writeControlFrame_cases)
  fix s1
  assume "write_changes s s1" and "s' = s1"
  then show ?thesis by (simp add: input_of_def write_changesD(15))
next
  fix s1
  assume w: "write_changes s s1" and "s' = snd (Session_Close s1)"
  then have "input_of s' = input_of s1" by simp
  then show ?thesis using write_changesD(15) [OF w] by (simp add: input_of_def)
qed

lemma input_of_closeWithError: "closeWithError err ref s = Some (r, s') \<Longrightarrow> input_of s' = input_of s"
  by (auto simp: closeWithError_def streamClosed_def Let_def dest!: input_of_writeControlFrame
      split: if_splits option.splits)

text \<open>After a frame has been handled what is left of the input is what the decoder leaves.\<close>

definition keeps_step :: "frame \<Rightarrow> byte list \<Rightarrow> handled panics \<Rightarrow> bool" where
  "keeps_step f rest h \<longleftrightarrow> (\<forall>x. h = Some x \<longrightarrow> input_of (handled_sess x) = rest)"

lemma payload_keeps:
  assumes "open_in s (frame_data f @ rest)" and "announces hdr f" and "has_payload (frame_cmd f)"
    and "\<And>t. input_of t = rest \<Longrightarrow> keeps_step f rest (k (frame_data f) t)"
    and "frame_data f = [] \<Longrightarrow> keeps_step f rest other"
  shows "keeps_step f rest (if Length hdr > 0 then with_payload hdr s k else other)"
proof -
  have len: "unat (Length hdr) = length (frame_data f)" using assms(2,3) by (simp add: announces_def)
  show ?thesis
  proof (cases "Length hdr > 0")
    case True
    then show ?thesis using with_payload_ok [OF assms(1) len] assms(4) by simp
  next
    case False
    then show ?thesis using len assms(5) Length_pos [of hdr] by simp
  qed
qed

lemma handled_sess_simps [simp]:
  "handled_sess (HNext f s) = s" "handled_sess (HPush ref b f s) = s" "handled_sess (HReturn err s) = s"
  by (simp_all add: handled_sess_def)

lemma keeps_step_simps [simp]:
  "keeps_step f rest None" "keeps_step f rest (Some h) \<longleftrightarrow> input_of (handled_sess h) = rest"
  by (simp_all add: keeps_step_def)

lemma open_input: "open_in s x \<Longrightarrow> input_of s = x"
  by (simp add: open_in_def input_of_def)

lemma settings_update_input: "settings_update m p s = Some (r, s') \<Longrightarrow> input_of s' = input_of s"
  by (auto simp: settings_update_def dest!: input_of_writeControlFrame split: if_splits option.splits)

lemma settings_version_input: "settings_version m s = Some (r, s') \<Longrightarrow> input_of s' = input_of s"
  by (auto simp: settings_version_def dest!: input_of_writeControlFrame split: if_splits option.splits)

lemma handle_frame_keeps:
  assumes "open_in s (frame_data f @ rest)" and "announces hdr f"
  shows "keeps_step f rest (handle_frame e flag hdr s)"
proof -
  have cmd: "Cmd hdr = frame_cmd f" using assms(2) by (simp add: announces_def)
  have in_s: "input_of s = frame_data f @ rest" using open_input [OF assms(1)] .
  consider (payload) "has_payload (frame_cmd f)" | (bare) "\<not> has_payload (frame_cmd f)" by blast
  then show ?thesis
  proof cases
    case payload
    note pk = payload_keeps [OF assms payload]
    have "keeps_step f rest (handle_PSH flag hdr s)"
      unfolding handle_PSH_def using in_s by (intro pk) (auto split: option.split)
    moreover have "keeps_step f rest (handle_Waste flag hdr s)"
      unfolding handle_Waste_def using in_s by (intro pk) auto
    moreover have "keeps_step f rest (handle_Settings flag hdr s)"
      unfolding handle_Settings_def Let_def using in_s
      by (intro pk) (auto dest!: settings_update_input settings_version_input split: option.split)
    moreover have "keeps_step f rest (handle_Alert flag hdr s)"
      unfolding handle_Alert_def using in_s by (intro pk) auto
    moreover have "keeps_step f rest (handle_UpdatePaddingScheme e flag hdr s)"
      unfolding handle_UpdatePaddingScheme_def using in_s by (intro pk) auto
    moreover have "keeps_step f rest (handle_ServerSettings flag hdr s)"
      unfolding handle_ServerSettings_def using in_s by (intro pk) (auto split: option.split)
    moreover have "keeps_step f rest (handle_SYNACK flag hdr s)"
    proof -
      let ?s = "(call_synDone s)\<lparr>s_synDone := None\<rparr>"
      have "open_in ?s (frame_data f @ rest)"
        using assms(1) by (simp add: open_in_def call_synDone_def split: option.split)
      note pk' = payload_keeps [OF this assms(2) payload]
      show ?thesis
        unfolding handle_SYNACK_def Let_def using in_s
        by (intro pk') (auto dest!: input_of_closeWithError split: option.split)
    qed
    moreover have "frame_cmd f \<noteq> cmdSYN" "frame_cmd f \<noteq> cmdFIN" "frame_cmd f \<noteq> cmdHeartRequest"
      "frame_cmd f \<noteq> cmdHeartResponse"
      using payload by (auto simp: has_payload_def cmd_defs)
    ultimately show ?thesis using payload by (auto simp: handle_frame_def cmd has_payload_def)
  next
    case bare
    then have rest: "input_of s = rest" using in_s assms(2) by (simp add: announces_def)
    have "keeps_step f rest (handle_SYN flag hdr s)"
      using rest
      by (auto simp: handle_SYN_def keeps_step_def dest!: input_of_writeControlFrame input_of_newStream split: if_splits option.splits prod.splits)
    moreover have "keeps_step f rest (handle_FIN flag hdr s)"
      using rest by (simp add: handle_FIN_def Let_def split: option.split)
    moreover have "keeps_step f rest (handle_HeartRequest flag hdr s)"
      using rest by (auto simp: handle_HeartRequest_def dest!: input_of_writeControlFrame split: option.split)
    ultimately show ?thesis using bare rest by (simp add: handle_frame_def Let_def cmd has_payload_def)
  qed
qed

lemma with_payload_short:
  assumes "open_in s x" and "length x < unat (Length hdr)"
  shows "\<exists>err s1. with_payload hdr s k = Some (HReturn (Some err) s1) \<and> input_of s1 = []"
  using s_ReadFull_short [OF assms] by (auto simp: with_payload_def)

lemma handle_frame_short:
  assumes "open_in s x" and "has_payload (Cmd hdr)" and "length x < unat (Length hdr)"
  shows "\<exists>err s1. handle_frame e flag hdr s = Some (HReturn (Some err) s1) \<and> input_of s1 = []"
proof -
  have pos: "Length hdr > 0" using assms(3) Length_pos [of hdr] by simp
  have short: "\<exists>err s1. with_payload hdr s k = Some (HReturn (Some err) s1) \<and> input_of s1 = []" for k
    using with_payload_short [OF assms(1,3)] .
  have "open_in ((call_synDone s)\<lparr>s_synDone := None\<rparr>) x"
    using assms(1) by (simp add: open_in_def call_synDone_def split: option.split)
  then have synack: "\<exists>err s1. with_payload hdr ((call_synDone s)\<lparr>s_synDone := None\<rparr>) k =
      Some (HReturn (Some err) s1) \<and> input_of s1 = []" for k
    using with_payload_short [OF _ assms(3)] by blast
  show ?thesis using assms(2) pos
    by (auto simp: has_payload_def handle_frame_def cmd_defs handle_PSH_def handle_SYNACK_def handle_Waste_def
        handle_Settings_def handle_Alert_def handle_UpdatePaddingScheme_def handle_ServerSettings_def
        Let_def intro: short synack)
qed

section \<open>Data frames\<close>

lemma announces_pos:
  "announces hdr f \<Longrightarrow> has_payload (frame_cmd f) \<Longrightarrow> (Length hdr > 0) = (frame_data f \<noteq> [])"
  by (simp add: announces_def Length_pos)

lemma recv_waste_frame:
  assumes "rv_pc r = RHeader" and "open_in (rv_sess r) x" and "decode_frame x = Some (f, rest)" and "is_waste f"
  shows "recv_run e 2 r = Ret (r\<lparr>rv_sess := set_in rest (rv_sess r)\<rparr>)"
proof -
  let ?t = "set_in (frame_data f @ rest) (rv_sess r)"
  obtain hdr where h: "recv_step e r = Ret (r\<lparr>rv_pc := RHandle hdr, rv_sess := ?t\<rparr>)" "announces hdr f"
    using header_step [OF assms(1-3)] by blast
  have pay: "has_payload (frame_cmd f)" "Cmd hdr = cmdWaste" "unat (Length hdr) = length (frame_data f)"
    using assms(4) h(2) by (auto simp: is_waste_def has_payload_def announces_def)
  have in_t: "open_in ?t (frame_data f @ rest)" using assms(2) by (simp add: open_in_def)
  have "handle_Waste (rv_flag r) hdr ?t = Some (HNext (rv_flag r) (set_in rest (rv_sess r)))"
    using announces_pos [OF h(2) pay(1)] with_payload_ok [OF in_t pay(3)]
    by (cases "frame_data f = []") (simp_all add: handle_Waste_def)
  then have "handle_frame e (rv_flag r) hdr ?t = Some (HNext (rv_flag r) (set_in rest (rv_sess r)))"
    using pay(2) by (simp add: handle_frame_def cmd_defs)
  then have "recv_step e (r\<lparr>rv_pc := RHandle hdr, rv_sess := ?t\<rparr>) = Ret (r\<lparr>rv_sess := set_in rest (rv_sess r)\<rparr>)"
    using assms(1) by (cases r) (simp add: recv_step_def)
  then show ?thesis using h(1) by (simp add: numeral_2_eq_2)
qed

lemma recv_psh_frame:
  assumes "rv_pc r = RHeader" and "open_in (rv_sess r) x" and "decode_frame x = Some (f, rest)"
    and "frame_cmd f = cmdPSH" and "frame_data f \<noteq> []" and "map_of (s_streams (rv_sess r)) (frame_sid f) = Some ref"
  shows "recv_run e 3 r = Ret (recv_pushed ref (rv_flag r) (set_in rest (rv_sess r))
           (pipe_write (frame_data f) (str_pipe (obj (rv_sess r) ref))))"
proof -
  let ?t = "set_in (frame_data f @ rest) (rv_sess r)" and ?u = "set_in rest (rv_sess r)"
  obtain hdr where h: "recv_step e r = Ret (r\<lparr>rv_pc := RHandle hdr, rv_sess := ?t\<rparr>)" "announces hdr f"
    using header_step [OF assms(1-3)] by blast
  have pay: "has_payload (frame_cmd f)" "Cmd hdr = cmdPSH" "unat (Length hdr) = length (frame_data f)"
    "StreamID hdr = frame_sid f"
    using assms(4) h(2) by (auto simp: has_payload_def announces_def)
  have in_t: "open_in ?t (frame_data f @ rest)" using assms(2) by (simp add: open_in_def)
  have "handle_PSH (rv_flag r) hdr ?t = Some (HPush ref (frame_data f) (rv_flag r) ?u)"
    using announces_pos [OF h(2) pay(1)] with_payload_ok [OF in_t pay(3)] assms(5,6) pay(4)
    by (simp add: handle_PSH_def)
  then have "recv_step e (r\<lparr>rv_pc := RHandle hdr, rv_sess := ?t\<rparr>) =
      Ret (r\<lparr>rv_pc := RPush ref (frame_data f), rv_sess := ?u\<rparr>)"
    using pay(2) by (cases r) (simp add: recv_step_def handle_frame_def)
  then show ?thesis using h(1) by (cases r) (simp add: numeral_3_eq_3 recv_step_def)
qed

text \<open>A pipe with room takes a whole payload.\<close>

definition pipe_open :: "pipe \<Rightarrow> bool" where
  "pipe_open p \<longleftrightarrow> pipe_inv p \<and> \<not> p_done p \<and> \<not> deadline_passed (p_writeDeadline p)"

lemma pipe_write_room:
  assumes "pipe_open p" and "length (unread p) + length b \<le> p_maxBuf p"
  shows "\<exists>p'. pipe_write b p = Inl ((length b, None), p') \<and> unread p' = unread p @ b \<and> pipe_open p' \<and>
           p_maxBuf p' = p_maxBuf p"
proof -
  let ?k = "fst (appendLocked b p)" and ?q = "snd (appendLocked b p)"
  have inv: "pipe_inv p" and live: "\<not> p_done p" "\<not> deadline_passed (p_writeDeadline p)"
    using assms(1) by (simp_all add: pipe_open_def)
  have all: "?k = length b" "unread ?q = unread p @ b" using pipeq.put_all [OF inv assms(2)] by simp_all
  have "pipe_open ?q" using live pipeq.put_inv [OF inv] by (simp add: pipe_open_def)
  then have q: "pipe_open (wakeReader ?q)" by (simp add: pipe_open_def wakeReader_def)
  show ?thesis
  proof (cases "b = []")
    case True
    then show ?thesis using assms live by (simp add: pipe_write_def write_loop_def)
  next
    case False
    then have "bufLen p < p_maxBuf p" using assms(2) by (cases b) (simp_all add: bufLen_unread)
    then have "pipe_write b p = Inl ((length b, None), wakeReader ?q)"
      using live False all(1) by (simp add: pipe_write_def write_loop_def split_beta)
    then show ?thesis using all q by (simp add: wakeReader_def)
  qed
qed

text \<open>
  The session after the payloads of some frames have gone to the object \<open>ref\<close>: everything but
  its input and that object's pipe is as before.
\<close>

definition delivered :: "Session \<Rightarrow> nat \<Rightarrow> byte list \<Rightarrow> byte list \<Rightarrow> Session \<Rightarrow> bool" where
  "delivered s ref d rest s' \<longleftrightarrow>
     (\<exists>p. s' = set_in rest (set_pipe ref p s) \<and> unread p = unread (str_pipe (obj s ref)) @ d \<and>
          pipe_open p \<and> p_maxBuf p = p_maxBuf (str_pipe (obj s ref)))"

lemma delivered_refl:
  "open_in s x \<Longrightarrow> ref < length (s_objs s) \<Longrightarrow> pipe_open (str_pipe (obj s ref)) \<Longrightarrow> delivered s ref [] x s"
  unfolding delivered_def
  by (rule exI [of _ "str_pipe (obj s ref)"])
     (simp add: set_pipe_def set_obj_def obj_def set_in_same)

lemma set_pipe_set_pipe [simp]:
  "ref < length (s_objs s) \<Longrightarrow> set_pipe ref q (set_pipe ref p s) = set_pipe ref q s"
  by (simp add: set_pipe_def set_obj_def obj_def)

lemma set_in_set_pipe: "set_pipe ref p (set_in x s) = set_in x (set_pipe ref p s)"
  by (simp add: set_pipe_def set_obj_def obj_def set_in_def)

lemma set_pipe_simps [simp]:
  "s_streams (set_pipe ref p s) = s_streams s" "s_conn (set_pipe ref p s) = s_conn s"
  by (simp_all add: set_pipe_def)

lemma obj_set_pipe: "ref < length (s_objs s) \<Longrightarrow>
    obj (set_pipe ref p s) r = (if r = ref then (obj s ref)\<lparr>str_pipe := p\<rparr> else obj s r)"
  by (simp add: set_pipe_def obj_set_obj)

lemma delivered_trans:
  assumes "delivered s ref d x s'" and "delivered s' ref d' y s''" and "ref < length (s_objs s)"
  shows "delivered s ref (d @ d') y s''"
  using assms
  by (auto simp: delivered_def set_in_set_pipe obj_set_pipe)

lemma delivered_keeps:
  assumes "delivered s ref d x s'" and "ref < length (s_objs s)" and "\<not> c_closed (s_conn s)"
  shows "open_in s' x" "s_streams s' = s_streams s" "length (s_objs s') = length (s_objs s)"
    "pipe_open (str_pipe (obj s' ref))" "unread (str_pipe (obj s' ref)) = unread (str_pipe (obj s ref)) @ d"
    "p_maxBuf (str_pipe (obj s' ref)) = p_maxBuf (str_pipe (obj s ref))"
    "r \<noteq> ref \<Longrightarrow> obj s' r = obj s r"
  using assms by (auto simp: delivered_def obj_set_pipe)

text \<open>
  The loop on the frames a peer sends for one stream: as long as the stream's pipe has room
  for all of it, the whole payload arrives, in order, and nothing else changes.
\<close>

lemma recv_data_frame:
  assumes g: "is_waste g \<or> frame_cmd g = cmdPSH \<and> frame_sid g = sid \<and> frame_data g \<noteq> []"
    and dec: "decode_frame b = Some (g, x)" and "rv_pc r = RHeader" and "open_in (rv_sess r) b"
    and "map_of (s_streams (rv_sess r)) sid = Some ref" and "ref < length (s_objs (rv_sess r))"
    and "pipe_open (str_pipe (obj (rv_sess r) ref))"
    and "length (unread (str_pipe (obj (rv_sess r) ref))) + length (payload_of sid [g])
           \<le> p_maxBuf (str_pipe (obj (rv_sess r) ref))"
  shows "\<exists>n s1. recv_run e n r = Ret (r\<lparr>rv_sess := s1\<rparr>) \<and> delivered (rv_sess r) ref (payload_of sid [g]) x s1"
proof (cases "is_waste g")
  case True
  have "\<not> c_closed (s_conn (rv_sess r))" using assms(4) by (simp add: open_in_def)
  then have "delivered (rv_sess r) ref (payload_of sid [g]) x (set_in x (rv_sess r))"
    using True payload_of_waste [of "[g]" sid] delivered_refl [of "set_in x (rv_sess r)" x ref] assms(6,7)
    by (auto simp: delivered_def set_in_set_pipe)
  then show ?thesis using recv_waste_frame [OF assms(3,4) dec True] by blast
next
  case False
  let ?p = "str_pipe (obj (rv_sess r) ref)"
  have data: "frame_cmd g = cmdPSH" "frame_sid g = sid" "frame_data g \<noteq> []" using g False by simp_all
  have pay: "payload_of sid [g] = frame_data g" using data by (simp add: payload_of_def)
  then obtain p' where p': "pipe_write (frame_data g) ?p = Inl ((length (frame_data g), None), p')"
    "unread p' = unread ?p @ frame_data g" "pipe_open p'" "p_maxBuf p' = p_maxBuf ?p"
    using pipe_write_room [OF assms(7)] assms(8) by metis
  have "recv_run e 3 r = Ret (r\<lparr>rv_sess := set_in x (set_pipe ref p' (rv_sess r))\<rparr>)"
    using recv_psh_frame [OF assms(3,4) dec data(1,3)] data(2) assms(3,5) p'(1)
    by (cases r) (simp add: recv_pushed_def set_in_set_pipe)
  moreover have "delivered (rv_sess r) ref (payload_of sid [g]) x (set_in x (set_pipe ref p' (rv_sess r)))"
    using p'(2-4) pay by (auto simp: delivered_def)
  ultimately show ?thesis by blast
qed

lemma recv_data_frames:
  assumes "data_frames sid gs" and "list_all frame_ok gs"
    and "rv_pc r = RHeader" and "open_in (rv_sess r) (frames_bytes gs @ rest)"
    and "map_of (s_streams (rv_sess r)) sid = Some ref" and "ref < length (s_objs (rv_sess r))"
    and "pipe_open (str_pipe (obj (rv_sess r) ref))"
    and "length (unread (str_pipe (obj (rv_sess r) ref))) + length (payload_of sid gs)
           \<le> p_maxBuf (str_pipe (obj (rv_sess r) ref))"
  shows "\<exists>n s'. recv_run e n r = Ret (r\<lparr>rv_sess := s'\<rparr>) \<and>
           delivered (rv_sess r) ref (payload_of sid gs) rest s'"
  using assms
proof (induction gs arbitrary: r)
  case Nil
  then show ?case
    by (intro exI [of _ 0] exI [of _ "rv_sess r"]) (simp add: delivered_refl)
next
  case (Cons g gs)
  let ?s = "rv_sess r" and ?x = "frames_bytes gs @ rest"
  have ok: "frame_ok g" "list_all frame_ok gs" and gs: "data_frames sid gs"
    using Cons.prems(1,2) by (simp_all add: data_frames_def)
  have dec: "decode_frame (frames_bytes (g # gs) @ rest) = Some (g, ?x)"
    using decode_frame_bytes [OF ok(1), of ?x] by simp
  have closed: "\<not> c_closed (s_conn ?s)" using Cons.prems(4) by (simp add: open_in_def)
  have split: "payload_of sid (g # gs) = payload_of sid [g] @ payload_of sid gs"
    using payload_of_simps(2) [of sid "[g]" gs] by simp
  have "is_waste g \<or> frame_cmd g = cmdPSH \<and> frame_sid g = sid \<and> frame_data g \<noteq> []"
    using Cons.prems(1) by (auto simp: data_frames_def)
  then obtain n s1 where step: "recv_run e n r = Ret (r\<lparr>rv_sess := s1\<rparr>)"
    and del: "delivered ?s ref (payload_of sid [g]) ?x s1"
    using recv_data_frame [OF _ dec Cons.prems(3-7)] Cons.prems(8) split by fastforce
  note k = delivered_keeps [OF del Cons.prems(6) closed]
  let ?r1 = "r\<lparr>rv_sess := s1\<rparr>"
  have "\<exists>m s'. recv_run e m ?r1 = Ret (?r1\<lparr>rv_sess := s'\<rparr>) \<and>
      delivered (rv_sess ?r1) ref (payload_of sid gs) rest s'"
    by (rule Cons.IH) (use gs ok(2) Cons.prems k split in simp_all)
  then obtain m s' where m: "recv_run e m ?r1 = Ret (?r1\<lparr>rv_sess := s'\<rparr>)"
    "delivered s1 ref (payload_of sid gs) rest s'" by auto
  have "recv_run e (n + m) r = Ret (r\<lparr>rv_sess := s'\<rparr>)"
    using recv_run_trans [OF step m(1)] by simp
  then show ?case using delivered_trans [OF del m(2) Cons.prems(6)] split by auto
qed

section \<open>The sender's side\<close>

lemma writeConnLocked_flushes:
  "writeConnLocked b s = Some (r, s') \<Longrightarrow> \<not> s_buffering s \<Longrightarrow> s_buffer s' = []"
  by (auto simp: writeConnLocked_def Let_def s_conn_Write_def split: if_splits option.splits prod.splits)

lemma write_chunks_flushed:
  "write_chunks sid data s = Some (r, s') \<Longrightarrow> \<not> s_buffering s \<Longrightarrow> s_buffer s = [] \<Longrightarrow> s_buffer s' = []"
proof (induction "length data" arbitrary: data s rule: less_induct)
  case less
  show ?case
  proof (cases "data = []")
    case True
    then show ?thesis using less.prems by simp
  next
    case False
    let ?n = "min (length data) maxFramePayload"
    have short: "length (drop ?n data) < length data" using False by (simp add: maxFramePayload_def)
    obtain n err s1 where w:
      "writeConnLocked (frame_header cmdPSH sid (of_nat ?n) @ take ?n data) s = Some ((n, err), s1)"
      using less.prems(1) False
      by (auto simp: write_chunks.simps [of sid data s] Let_def writeConn_def split: option.splits)
    have s1: "\<not> s_buffering s1" "s_buffer s1 = []"
      using write_changesD(9) [OF writeConnLocked_changes [OF w]] less.prems(2) writeConnLocked_flushes [OF w]
      by simp_all
    show ?thesis
    proof (cases err)
      case None
      then have "write_chunks sid (drop ?n data) s1 = Some (r, s')"
        using less.prems(1) False w by (simp add: write_chunks.simps [of sid data s] Let_def writeConn_def)
      then show ?thesis using less.hyps [OF short] s1 by blast
    next
      case (Some e)
      then have "s' = s1" using less.prems(1) False w
        by (simp add: write_chunks.simps [of sid data s] Let_def writeConn_def)
      then show ?thesis using s1 by simp
    qed
  qed
qed

section \<open>Properties\<close>

text \<open>Less than a whole frame ends the loop, with all of it read.\<close>

lemma recv_short:
  assumes "rv_pc r = RHeader" and op: "open_in (rv_sess r) x" and "decode_frame x = None"
  shows "\<exists>n err s1. n \<le> 2 \<and> recv_run e n r = Ret (recv_return (Some err) (rv_flag r) s1) \<and> input_of s1 = []"
proof (cases "length x < 7")
  case True
  then have "\<exists>err. recv_run e 1 r = Ret (recv_return (Some err) (rv_flag r) (set_in [] (rv_sess r)))"
    using s_ReadFull_short [OF op, of headerOverHeadSize] assms(1) by (auto simp: recv_step_def)
  moreover have "(1 :: nat) \<le> 2" "input_of (set_in [] (rv_sess r)) = []" by simp_all
  ultimately show ?thesis by blast
next
  case False
  let ?hdr = "take 7 x" and ?t = "set_in (drop 7 x) (rv_sess r)"
  have h: "recv_step e r = Ret (r\<lparr>rv_pc := RHandle ?hdr, rv_sess := ?t\<rparr>)"
    using False s_ReadFull_ok [OF op, of headerOverHeadSize] assms(1) by (cases r) (simp add: recv_step_def)
  have short: "has_payload (Cmd ?hdr)" "length (drop 7 x) < unat (Length ?hdr)"
    using assms(3) False by (auto simp: decode_frame_def Let_def split: if_splits)
  have "open_in ?t (drop 7 x)" using op by (simp add: open_in_def)
  then obtain err s1 where "handle_frame e (rv_flag r) ?hdr ?t = Some (HReturn (Some err) s1)" "input_of s1 = []"
    using handle_frame_short short by blast
  moreover from this have "recv_run e 2 r = Ret (recv_return (Some err) (rv_flag r) s1)"
    using h by (simp add: numeral_2_eq_2 recv_step_def)
  moreover have "(2 :: nat) \<le> 2" by simp
  ultimately show ?thesis by blast
qed

text \<open>C24: the receive loop stays in step with the frame decoder: about to read a header, with the
  decoder finding a whole frame on the input, it reads that frame's header, and after
  handling it, whatever the command, what is left of the input is what the decoder leaves;
  with less than a whole frame the loop returns an error within two steps.\<close>

theorem loop_in_step:
  assumes "rv_pc r = RHeader" and "\<not> c_closed (s_conn (rv_sess r))"
  shows "case decode_frame (input_of (rv_sess r)) of
           Some (f, rest) \<Rightarrow>
             (\<exists>hdr r1. recv_step e r = Ret r1 \<and> rv_pc r1 = RHandle hdr \<and> announces hdr f \<and>
                (\<forall>r2. recv_step e r1 = Ret r2 \<longrightarrow> input_of (rv_sess r2) = rest))
         | None \<Rightarrow>
             (\<exists>n err r'. n \<le> 2 \<and> recv_run e n r = Ret r' \<and> rv_pc r' = RDone (Some err) \<and>
                input_of (rv_sess r') = [] \<and> s_die (rv_sess r'))"
proof (cases "decode_frame (input_of (rv_sess r))")
  case (Some fr)
  obtain f rest where fr: "fr = (f, rest)" by (cases fr)
  let ?t = "set_in (frame_data f @ rest) (rv_sess r)"
  have "open_in (rv_sess r) (input_of (rv_sess r))" using assms(2) by (simp add: open_in_def input_of_def)
  then obtain hdr where h: "recv_step e r = Ret (r\<lparr>rv_pc := RHandle hdr, rv_sess := ?t\<rparr>)" "announces hdr f"
    using header_step [OF assms(1)] Some fr by blast
  let ?r1 = "r\<lparr>rv_pc := RHandle hdr, rv_sess := ?t\<rparr>"
  have "open_in ?t (frame_data f @ rest)" using assms(2) by simp
  from handle_frame_keeps [OF this h(2), of e "rv_flag r"]
  have k: "input_of (handled_sess x) = rest" if "handle_frame e (rv_flag r) hdr ?t = Some x" for x
    using that by (simp add: keeps_step_def)
  have "input_of (rv_sess r2) = rest" if "recv_step e ?r1 = Ret r2" for r2
    using that k
    by (auto simp: recv_step_def Let_def recv_return_def handled_sess_def split: option.splits handled.splits)
  then show ?thesis using h Some fr by auto
next
  case None
  have "open_in (rv_sess r) (input_of (rv_sess r))" using assms(2) by (simp add: open_in_def input_of_def)
  then obtain n err s1 where "n \<le> 2" "recv_run e n r = Ret (recv_return (Some err) (rv_flag r) s1)" "input_of s1 = []"
    using recv_short [OF assms(1) _ None] by blast
  moreover have "rv_pc (recv_return (Some err) (rv_flag r) s1) = RDone (Some err)"
    "input_of (rv_sess (recv_return (Some err) (rv_flag r) s1)) = []"
    "s_die (rv_sess (recv_return (Some err) (rv_flag r) s1))"
    using calculation(3) by (simp_all add: recv_return_def Session_Close_conn(3))
  ultimately show ?thesis unfolding None option.case by blast
qed

definition demo_env :: env where
  "demo_env = \<lparr>env_md5 = \<lambda>_. [], env_order = id, env_debugPadding = False\<rparr>"

theorem loop_in_step_witness:
  "\<exists>n err r'. n \<le> 2 \<and> recv_run demo_env n (recv_start demo_server) = Ret r' \<and> rv_pc r' = RDone (Some err)"
proof -
  have "rv_pc (recv_start demo_server) = RHeader" "\<not> c_closed (s_conn (rv_sess (recv_start demo_server)))"
    "input_of (rv_sess (recv_start demo_server)) = []"
    using demo_server_ok(2) by (auto simp: recv_start_def healthy_def input_of_def demo_server_def
        NewServerSession_def demo_conn_def)
  then show ?thesis using loop_in_step [of "recv_start demo_server" demo_env] by auto
qed

text \<open>C6: end to end: what one session writes with \<open>writeDataFrame\<close> for a stream, padding and all,
  the receive loop of a session that gets those bytes puts into that stream's pipe, the same
  bytes in the same order, provided the pipe has room; it ends waiting for the next header
  with all input read, and touches no other stream.\<close>

theorem stream_end_to_end:
  assumes "healthy s" and "\<not> s_buffering s" and "s_buffer s = []"
  shows "\<exists>s' bytes. writeDataFrame sid data s = Some ((length data, None), s') \<and>
     wire_out s' = wire_out s @ bytes \<and>
     (\<forall>e (r :: recv) ref. rv_pc r = RHeader \<and> \<not> c_closed (s_conn (rv_sess r)) \<and> input_of (rv_sess r) = bytes \<and>
        map_of (s_streams (rv_sess r)) sid = Some ref \<and> ref < length (s_objs (rv_sess r)) \<and>
        pipe_open (str_pipe (obj (rv_sess r) ref)) \<and>
        length (unread (str_pipe (obj (rv_sess r) ref))) + length data
          \<le> p_maxBuf (str_pipe (obj (rv_sess r) ref)) \<longrightarrow>
        (\<exists>n t. recv_run e n r = Ret (r\<lparr>rv_sess := t\<rparr>) \<and> input_of t = [] \<and>
           unread (str_pipe (obj t ref)) = unread (str_pipe (obj (rv_sess r) ref)) @ data \<and>
           s_streams t = s_streams (rv_sess r) \<and>
           (\<forall>ref'. ref' \<noteq> ref \<longrightarrow> obj t ref' = obj (rv_sess r) ref')))"
proof -
  obtain s' gs where w: "write_chunks sid data s = Some (None, s')" "healthy s'"
    "sent s' = sent s @ frames_bytes gs" "list_all frame_ok gs" "data_frames sid gs" "payload_of sid gs = data"
    using write_chunks_healthy [OF assms(1)] by blast
  have "s_buffer s' = []" using write_chunks_flushed [OF w(1) assms(2,3)] .
  then have wire: "wire_out s' = wire_out s @ frames_bytes gs" using w(3) assms(3) by (simp add: sent_def)
  show ?thesis
  proof (intro exI [of _ s'] exI [of _ "frames_bytes gs"] conjI allI impI)
    show "writeDataFrame sid data s = Some ((length data, None), s')" using w(1) by (simp add: writeDataFrame_def)
    show "wire_out s' = wire_out s @ frames_bytes gs" by (rule wire)
    fix e and r :: recv and ref
    assume r: "rv_pc r = RHeader \<and> \<not> c_closed (s_conn (rv_sess r)) \<and> input_of (rv_sess r) = frames_bytes gs \<and>
        map_of (s_streams (rv_sess r)) sid = Some ref \<and> ref < length (s_objs (rv_sess r)) \<and>
        pipe_open (str_pipe (obj (rv_sess r) ref)) \<and>
        length (unread (str_pipe (obj (rv_sess r) ref))) + length data \<le> p_maxBuf (str_pipe (obj (rv_sess r) ref))"
    then have "open_in (rv_sess r) (frames_bytes gs @ [])" by (simp add: open_in_def input_of_def)
    then obtain n t where run: "recv_run e n r = Ret (r\<lparr>rv_sess := t\<rparr>)" "delivered (rv_sess r) ref data [] t"
      using recv_data_frames [OF w(5,4), of r "[]" ref e] r w(6) by auto
    have "ref < length (s_objs (rv_sess r))" "\<not> c_closed (s_conn (rv_sess r))" using r by simp_all
    note k = delivered_keeps [OF run(2) this]
    have "input_of t = []" using k(1) by (simp add: open_in_def input_of_def)
    then show "\<exists>n t. recv_run e n r = Ret (r\<lparr>rv_sess := t\<rparr>) \<and> input_of t = [] \<and>
           unread (str_pipe (obj t ref)) = unread (str_pipe (obj (rv_sess r) ref)) @ data \<and>
           s_streams t = s_streams (rv_sess r) \<and>
           (\<forall>ref'. ref' \<noteq> ref \<longrightarrow> obj t ref' = obj (rv_sess r) ref')"
      using run(1) k(2,5,7) by blast
  qed
qed

theorem stream_end_to_end_witness:
  "\<exists>s' bytes n t. writeDataFrame 7 [104, 105] demo_client = Some ((2, None), s') \<and>
     wire_out s' = bytes \<and>
     recv_run demo_env n (recv_start (set_in bytes demo_server)) = Ret (recv_start t) \<and>
     unread (str_pipe (obj t 0)) = [104, 105]"
proof -
  have c: "\<not> s_buffering demo_client" "s_buffer demo_client = []" "wire_out demo_client = []"
    by (simp_all add: demo_client_def NewClientSession_def wire_out_def demo_conn_def)
  obtain s' bytes where w: "writeDataFrame 7 [104, 105] demo_client = Some ((2, None), s')" "wire_out s' = bytes"
    and e2e: "\<And>e (r :: recv) ref. rv_pc r = RHeader \<and> \<not> c_closed (s_conn (rv_sess r)) \<and> input_of (rv_sess r) = bytes \<and>
        map_of (s_streams (rv_sess r)) 7 = Some ref \<and> ref < length (s_objs (rv_sess r)) \<and>
        pipe_open (str_pipe (obj (rv_sess r) ref)) \<and>
        length (unread (str_pipe (obj (rv_sess r) ref))) + length [104 :: byte, 105]
          \<le> p_maxBuf (str_pipe (obj (rv_sess r) ref)) \<Longrightarrow>
        \<exists>n t. recv_run e n r = Ret (r\<lparr>rv_sess := t\<rparr>) \<and>
           unread (str_pipe (obj t ref)) = unread (str_pipe (obj (rv_sess r) ref)) @ [104, 105]"
    using stream_end_to_end [OF demo_client_ok(1) c(1,2), of 7 "[104, 105]"] c(3) by fastforce
  let ?r = "recv_start (set_in bytes demo_server)"
  have "map_of (s_streams demo_server) 7 = Some 0" by (simp add: demo_server_def)
  moreover have "pipe_open Pipe" "unread Pipe = []" "p_maxBuf Pipe = 262144"
    by (simp_all add: pipe_open_def, simp_all add: Pipe_def unread_def defaultBufSize_def
        deadline_passed_def isClosedChan_def deadline_Wait_def MakePipeDeadline_def)
  moreover have "\<not> c_closed (s_conn demo_server)" using demo_server_ok(2) by (simp add: healthy_def)
  ultimately have "\<exists>n t. recv_run demo_env n ?r = Ret (?r\<lparr>rv_sess := t\<rparr>) \<and>
           unread (str_pipe (obj t 0)) = [104, 105]"
    using e2e [of ?r 0 demo_env] demo_server_ok(4,6) by (simp add: recv_start_def newStream_obj_def)
  then show ?thesis using w by (auto simp: recv_start_def)
qed

end
