(* ===== verification/Loop.thy ===== *)
theory Loop
  imports Delivery
begin

text \<open>
  The receive loop of a session, run on its own, ends: every frame takes its header off the
  input, no handler puts anything back, and a write to a pipe either completes or leaves the
  loop waiting for room. So after a number of steps bounded by the length of the input the
  loop has returned, and the session is closed, or it waits for the reader of one stream.
\<close>

section \<open>Handlers only take from the input\<close>

definition eats :: "nat \<Rightarrow> handled panics \<Rightarrow> bool" where
  "eats n h \<longleftrightarrow> (\<forall>x. h = Some x \<longrightarrow> length (input_of (handled_sess x)) \<le> n)"

lemma eats_simps [simp]: "eats n None" "eats n (Some h) \<longleftrightarrow> length (input_of (handled_sess h)) \<le> n"
  by (simp_all add: eats_def)

lemma s_ReadFull_input: "s_ReadFull n s = (x, s') \<Longrightarrow> length (input_of s') \<le> length (input_of s)"
  by (auto simp: s_ReadFull_def conn_ReadFull_def input_of_def split: if_splits prod.splits)

lemma s_ReadFull_takes: "s_ReadFull n s = (Inr b, s') \<Longrightarrow> length (input_of s) = n + length (input_of s')"
  by (auto simp: s_ReadFull_def conn_ReadFull_def input_of_def split: if_splits prod.splits)

lemma with_payload_eats:
  assumes "length (input_of s) \<le> n" and "\<And>b t. length (input_of t) \<le> n \<Longrightarrow> eats n (k b t)"
  shows "eats n (with_payload hdr s k)"
proof -
  obtain x s1 where x: "s_ReadFull (unat (Length hdr)) s = (x, s1)" by fastforce
  then have "length (input_of s1) \<le> n" using s_ReadFull_input [OF x] assms(1) by simp
  then show ?thesis using x assms(2) by (cases x) (simp_all add: with_payload_def)
qed

lemma handle_frame_eats: "eats (length (input_of s)) (handle_frame e flag hdr s)"
proof -
  let ?n = "length (input_of s)"
  note pe = with_payload_eats [of s ?n]
  have "eats ?n (handle_PSH flag hdr s)"
    unfolding handle_PSH_def by (auto intro!: pe split: option.split)
  moreover have "eats ?n (handle_Waste flag hdr s)"
    unfolding handle_Waste_def by (auto intro!: pe)
  moreover have "eats ?n (handle_Settings flag hdr s)"
    unfolding handle_Settings_def Let_def
    by (auto intro!: pe dest!: settings_update_input settings_version_input split: option.split)
  moreover have "eats ?n (handle_Alert flag hdr s)"
    unfolding handle_Alert_def by (auto intro!: pe)
  moreover have "eats ?n (handle_UpdatePaddingScheme e flag hdr s)"
    unfolding handle_UpdatePaddingScheme_def by (auto intro!: pe)
  moreover have "eats ?n (handle_ServerSettings flag hdr s)"
    unfolding handle_ServerSettings_def by (auto intro!: pe split: option.split)
  moreover have "eats ?n (handle_SYNACK flag hdr s)"
    unfolding handle_SYNACK_def Let_def
    by (auto intro!: with_payload_eats dest!: input_of_closeWithError split: option.split)
  moreover have "eats ?n (handle_SYN flag hdr s)"
    by (auto simp: handle_SYN_def dest!: input_of_writeControlFrame input_of_newStream split: option.splits prod.splits)
  moreover have "eats ?n (handle_FIN flag hdr s)"
    by (simp add: handle_FIN_def Let_def split: option.split)
  moreover have "eats ?n (handle_HeartRequest flag hdr s)"
    by (auto simp: handle_HeartRequest_def dest!: input_of_writeControlFrame split: option.split)
  ultimately show ?thesis by (simp add: handle_frame_def Let_def)
qed

section \<open>Every step gets closer to the end\<close>

fun pc_rank :: "Session \<Rightarrow> recv_pc \<Rightarrow> nat" where
  "pc_rank s (RDone err) = 0"
| "pc_rank s RHeader = 1"
| "pc_rank s (RWaitSpace ref b) = (if p_spaceReady (str_pipe (obj s ref)) then 3 else 2)"
| "pc_rank s (RPush ref b) = 4"
| "pc_rank s (RHandle hdr) = 5"

definition loop_measure :: "recv \<Rightarrow> nat" where
  "loop_measure r = length (input_of (rv_sess r)) + pc_rank (rv_sess r) (rv_pc r)"

lemma recv_pushed_measure:
  assumes "ref < length (s_objs s)" and "\<And>r p. w = Inr (r, p) \<Longrightarrow> \<not> p_spaceReady p"
  shows "loop_measure (recv_pushed ref flag s w) \<le> length (input_of s) + 2"
proof -
  have "input_of (set_pipe ref p s) = input_of s" for p by (simp add: input_of_def)
  then show ?thesis using assms
    by (auto simp: loop_measure_def recv_pushed_def obj_set_pipe split: sum.split)
qed

lemma write_loop_waits: "write_loop b n p = Inr (r, p') \<Longrightarrow> \<not> p_spaceReady p'"
  by (auto simp: write_loop_def Let_def split_beta split: if_splits)

lemma pipe_write_waits: "pipe_write b p = Inr (r, p') \<Longrightarrow> \<not> p_spaceReady p'"
  by (auto simp: pipe_write_def dest: write_loop_waits split: if_splits)

lemma recv_step_decreases:
  assumes "recv_good r" and "recv_step e r = Ret r'"
  shows "loop_measure r' < loop_measure r"
proof (cases "rv_pc r")
  case RHeader
  obtain x s1 where x: "s_ReadFull headerOverHeadSize (rv_sess r) = (x, s1)" by fastforce
  then show ?thesis using assms(2) RHeader s_ReadFull_input [OF x]
    by (cases x) (auto simp: recv_step_def Let_def loop_measure_def recv_return_def headerOverHeadSize_def
        dest!: s_ReadFull_takes)
next
  case (RHandle hdr)
  obtain h where h: "handle_frame e (rv_flag r) hdr (rv_sess r) = Some h"
    using assms(2) RHandle by (cases "handle_frame e (rv_flag r) hdr (rv_sess r)") (auto simp: recv_step_def Let_def)
  then have "length (input_of (handled_sess h)) \<le> length (input_of (rv_sess r))"
    using handle_frame_eats [of "rv_sess r" e "rv_flag r" hdr] by simp
  then show ?thesis using assms(2) RHandle h
    by (cases h) (auto simp: recv_step_def Let_def loop_measure_def recv_return_def)
next
  case (RPush ref b)
  then have "ref < length (s_objs (rv_sess r))" using assms(1) by (simp add: recv_good_def)
  then have "loop_measure (recv_pushed ref (rv_flag r) (rv_sess r) (pipe_write b (str_pipe (obj (rv_sess r) ref))))
      \<le> length (input_of (rv_sess r)) + 2"
    using pipe_write_waits by (rule recv_pushed_measure)
  moreover have "r' = recv_pushed ref (rv_flag r) (rv_sess r) (pipe_write b (str_pipe (obj (rv_sess r) ref)))"
    using assms(2) RPush by (simp add: recv_step_def Let_def)
  ultimately show ?thesis by (simp add: loop_measure_def [of r] RPush)
next
  case (RWaitSpace ref b)
  then have "ref < length (s_objs (rv_sess r))" using assms(1) by (simp add: recv_good_def)
  let ?p = "str_pipe (obj (rv_sess r) ref)"
  have pushed: "loop_measure (recv_pushed ref (rv_flag r) (rv_sess r) (write_loop b 0 (?p\<lparr>p_spaceReady := False\<rparr>)))
      \<le> length (input_of (rv_sess r)) + 2"
    using \<open>ref < _\<close> write_loop_waits by (rule recv_pushed_measure)
  show ?thesis
  proof (cases "p_done ?p")
    case True
    then show ?thesis using assms(2) RWaitSpace by (auto simp: recv_step_def Let_def loop_measure_def)
  next
    case False
    then have "p_spaceReady ?p" and
      "r' = recv_pushed ref (rv_flag r) (rv_sess r) (write_loop b 0 (?p\<lparr>p_spaceReady := False\<rparr>))"
      using assms(2) RWaitSpace by (simp_all add: recv_step_def Let_def split: if_splits)
    then show ?thesis using pushed by (simp add: loop_measure_def [of r] RWaitSpace)
  qed
next
  case (RDone err)
  then show ?thesis using assms(2) by (simp add: recv_step_def)
qed

text \<open>Where the loop stops.\<close>

definition loop_stopped :: "recv \<Rightarrow> bool" where
  "loop_stopped r \<longleftrightarrow>
     (case rv_pc r of
        RDone err \<Rightarrow> True
      | RWaitSpace ref b \<Rightarrow> \<not> p_done (str_pipe (obj (rv_sess r) ref)) \<and> \<not> p_spaceReady (str_pipe (obj (rv_sess r) ref))
      | _ \<Rightarrow> False)"

lemma recv_step_blocks:
  assumes "recv_good r"
  shows "recv_step e r = Block \<longleftrightarrow> loop_stopped r"
proof -
  have "\<exists>h. handle_frame e (rv_flag r) hdr (rv_sess r) = Some h" for hdr
    using handle_frame_good [of "rv_sess r"] assms unfolding recv_good_def by blast
  then show ?thesis
    by (cases "rv_pc r") (auto simp: recv_step_def loop_stopped_def Let_def split: option.splits handled.splits
        sum.splits prod.splits)
qed

lemma recv_run_ends:
  "recv_good r \<Longrightarrow> \<exists>n r'. n \<le> loop_measure r \<and> recv_run e n r = Ret r' \<and> loop_stopped r' \<and> recv_good r'"
proof (induction "loop_measure r" arbitrary: r rule: less_induct)
  case less
  show ?case
  proof (cases "recv_step e r")
    case (Ret r1)
    have good: "recv_good r1" using recv_step_good [OF less.prems] Ret by blast
    have dec: "loop_measure r1 < loop_measure r" by (rule recv_step_decreases [OF less.prems Ret])
    obtain n r' where "n \<le> loop_measure r1" "recv_run e n r1 = Ret r'" "loop_stopped r'" "recv_good r'"
      using less.hyps [OF dec good] by blast
    then show ?thesis using Ret dec by (intro exI [of _ "Suc n"] exI [of _ r']) simp
  next
    case Block
    then have "loop_stopped r" using recv_step_blocks [OF less.prems] by blast
    then show ?thesis using less.prems by (intro exI [of _ 0] exI [of _ r]) simp
  next
    case Panic
    then show ?thesis using recv_step_good [OF less.prems] by blast
  qed
qed

section \<open>Property\<close>

text \<open>C20: The receive loop of a session in order, run on its own, stops after at most one step more than
  the bytes of its input: either it has returned, or it waits for room in the open pipe of a
  stream, whatever the bytes are.\<close>

theorem recv_loop_ends:
  assumes "session_inv s" and "\<forall>p. s_padding s = Some p \<longrightarrow> factory_ok p"
  shows "\<exists>n r'. n \<le> length (c_in (s_conn s)) + 1 \<and> recv_run e n (recv_start s) = Ret r' \<and>
     recv_step e r' = Block \<and>
     (case rv_pc r' of
        RDone err \<Rightarrow> True
      | RWaitSpace ref b \<Rightarrow> ref < length (s_objs (rv_sess r')) \<and> \<not> p_done (str_pipe (obj (rv_sess r') ref))
      | _ \<Rightarrow> False)"
proof -
  have good: "recv_good (recv_start s)" using assms by (simp add: recv_good_def recv_start_def good_def padding_safe_def)
  obtain n r' where run: "n \<le> loop_measure (recv_start s)" "recv_run e n (recv_start s) = Ret r'"
    "loop_stopped r'" "recv_good r'"
    using recv_run_ends [OF good] by blast
  have "loop_measure (recv_start s) = length (c_in (s_conn s)) + 1"
    by (simp add: loop_measure_def recv_start_def input_of_def)
  then show ?thesis using run recv_step_blocks [OF run(4), of e]
    by (intro exI [of _ n] exI [of _ r']) (auto simp: loop_stopped_def recv_good_def split: recv_pc.splits)
qed

theorem recv_loop_ends_witness:
  "\<exists>n r'. n \<le> length (c_in (s_conn demo_server)) + 1 \<and> recv_run demo_env n (recv_start demo_server) = Ret r' \<and>
     recv_step demo_env r' = Block"
proof -
  have "\<forall>p. s_padding demo_server = Some p \<longrightarrow> factory_ok p"
    using demo_server_ok(2) by (simp add: healthy_def)
  from recv_loop_ends [OF demo_server_ok(1) this, of demo_env] show ?thesis by blast
qed

end
