(* ===== verification/Protocol.thy ===== *)
theory Protocol
  imports Delivery
begin

text \<open>
  The session protocol as the two ends run it: the client's first flight, the server's answer
  to the settings, the guard on streams before the settings, the opening and closing of
  streams by frames, and the one interleaving in which a stream outlives its session.
\<close>

section \<open>Handling one frame\<close>

lemma Session_Close_buffer [simp]: "s_buffer (snd (Session_Close s)) = s_buffer s"
proof -
  have loc: "s_buffer (closeLocally ref s) = s_buffer s" for ref s
    by (simp add: closeLocally_def Let_def split: option.split)
  have "s_buffer (foldl (\<lambda>s' ref. closeLocally ref s') s refs) = s_buffer s" for refs s
    by (induction refs arbitrary: s) (simp_all add: loc)
  moreover have "s_buffer (close_begin s) = s_buffer s"
    by (simp add: close_begin_def emit_def split: option.split)
  ultimately show ?thesis
    by (cases "s_die s") (simp_all add: Session_Close_open, simp add: Session_Close_def)
qed

lemma framed_Session_Close [simp]: "framed (snd (Session_Close s)) hs = framed s hs"
  by (simp add: framed_def sent_def wire_out_def Session_Close_conn(1))

lemma framed_set_in [simp]: "framed (set_in x s) hs = framed s hs" "healthy (set_in x s) = healthy s"
  by (simp_all add: framed_def sent_def wire_out_def healthy_def set_in_def)

lemma handle_run:
  assumes "rv_pc r = RHeader" and "open_in (rv_sess r) x" and "decode_frame x = Some (f, rest)"
  shows "\<exists>hdr. announces hdr f \<and>
           recv_run e 2 r = (case handle_frame e (rv_flag r) hdr (set_in (frame_data f @ rest) (rv_sess r)) of
              None \<Rightarrow> Panic
            | Some (HNext flag' s1) \<Rightarrow> Ret \<lparr>rv_pc = RHeader, rv_flag = flag', rv_sess = s1\<rparr>
            | Some (HPush ref b flag' s1) \<Rightarrow> Ret \<lparr>rv_pc = RPush ref b, rv_flag = flag', rv_sess = s1\<rparr>
            | Some (HReturn err s1) \<Rightarrow> Ret (recv_return err (rv_flag r) s1))"
proof -
  obtain hdr where h: "recv_step e r = Ret (r\<lparr>rv_pc := RHandle hdr, rv_sess := set_in (frame_data f @ rest) (rv_sess r)\<rparr>)"
    "announces hdr f"
    using header_step [OF assms] by blast
  then show ?thesis
    by (intro exI [of _ hdr])
       (auto simp: numeral_2_eq_2 recv_step_def split: option.split handled.split)
qed

section \<open>Streams\<close>

lemma handle_SYN_new:
  assumes "s_isClient s \<or> flag" and "map_of (s_streams s) (StreamID hdr) = None"
  shows "\<exists>s'. handle_SYN flag hdr s = Some (HNext flag s') \<and>
           s_objs s' = s_objs s @ [newStream_obj (StreamID hdr)] \<and>
           map_of (s_streams s') = (map_of (s_streams s))(StreamID hdr \<mapsto> length (s_objs s)) \<and>
           s_events s' = s_events s @ [EvNewStream (length (s_objs s))] \<and>
           s_conn s' = s_conn s \<and> s_die s' = s_die s"
  using assms
  by (cases "s_isClient s"; cases flag)
     (simp_all add: handle_SYN_def newStream_def Let_def update_conv' fun_upd_def)

section \<open>The client's first flight\<close>

text \<open>While a session is buffering, a control frame only adds to the buffer.\<close>

lemma writeControlFrame_buffering:
  assumes "s_buffering s" and "c_deadline (s_conn s) = None"
  shows "writeControlFrame f s = Some ((length (frame_data f), None), s\<lparr>s_buffer := s_buffer s @ frame_bytes f\<rparr>)"
  using assms
  by (cases s; cases "s_conn s")
     (simp add: writeControlFrame_def writeConnWithDeadline_def writeConnLocked_def set_conn_deadline_def
       frame_bytes_def Let_def)

definition settings_frame :: "env \<Rightarrow> PaddingFactory \<Rightarrow> frame" where
  "settings_frame e p = (newFrame cmdSettings 0)\<lparr>frame_data := ToBytes (env_order e (settings_map p))\<rparr>"

text \<open>The session after \<open>Run\<close> and the first \<open>OpenStream\<close>.\<close>

definition opened :: "env \<Rightarrow> PaddingFactory \<Rightarrow> Session \<Rightarrow> Session" where
  "opened e p s = s\<lparr>s_buffer := frame_bytes (settings_frame e p) @ frame_bytes (newFrame cmdSYN 1),
     s_buffering := False, s_streamId := 1, s_objs := [newStream_obj 1], s_streams := [(1, 0)]\<rparr>"

lemma client_opens:
  assumes "s = NewClientSession c (Some p) rg" and "c_deadline c = None"
  shows "\<exists>s1. Run_client e s = Some (True, s1) \<and> OpenStream s1 = Some (Inr 0, opened e p s)"
proof -
  let ?s1 = "s\<lparr>s_buffering := True, s_buffer := frame_bytes (settings_frame e p)\<rparr>"
  have "Run_client e s = Some (True, ?s1)"
    using assms writeControlFrame_buffering [of "s\<lparr>s_buffering := True\<rparr>" "settings_frame e p"]
    by (simp add: Run_client_def NewClientSession_def settings_frame_def newFrame_def Let_def)
  moreover have "OpenStream ?s1 = Some (Inr 0, opened e p s)"
    using assms
      writeControlFrame_buffering [of "(snd (newStream 1 (?s1\<lparr>s_streamId := 1\<rparr>)))" "newFrame cmdSYN 1"]
    by (simp add: OpenStream_def IsClosed_def NewClientSession_def newStream_def newFrame_def opened_def Let_def)
  ultimately show ?thesis by blast
qed

lemma opened_simps:
  "s = NewClientSession c (Some p) rg \<Longrightarrow> s_conn (opened e p s) = c"
  "s = NewClientSession c (Some p) rg \<Longrightarrow> \<not> s_buffering (opened e p s)"
  "s = NewClientSession c (Some p) rg \<Longrightarrow> s_padding (opened e p s) = Some p"
  "s = NewClientSession c (Some p) rg \<Longrightarrow> obj (opened e p s) 0 = newStream_obj 1"
  "s_buffer (opened e p s) = frames_bytes [settings_frame e p, newFrame cmdSYN 1]"
  by (simp_all add: opened_def NewClientSession_def obj_def)

lemma wire_out_append: "c_out (s_conn s') = c_out (s_conn s) @ es \<Longrightarrow> wire_out s' = wire_out s @ concat (map fst es)"
  by (simp add: wire_out_def)

lemma newStream_obj_fields [simp]:
  "str_id (newStream_obj sid) = sid" "str_dieErr (newStream_obj sid) = None" "str_dieOnce (newStream_obj sid) = False"
  "str_pipe (newStream_obj sid) = Pipe" "\<not> deadline_passed (str_writeDeadline (newStream_obj sid))"
  "str_dieHook (newStream_obj sid) = None" "str_reportOnce (newStream_obj sid) = False"
  by (simp_all add: newStream_obj_def deadline_passed_def isClosedChan_def deadline_Wait_def MakePipeDeadline_def)

section \<open>The server's answer to the settings\<close>

definition update_frame :: "PaddingFactory \<Rightarrow> frame" where
  "update_frame p = (newFrame cmdUpdatePaddingScheme 0)\<lparr>frame_data := RawScheme p\<rparr>"

definition server_settings_frame :: frame where
  "server_settings_frame = (newFrame cmdServerSettings 0)\<lparr>frame_data := ToBytes [(''v'', ''2'')]\<rparr>"

lemma settings_parsed:
  assumes "mset it = mset (settings_map pc)" and "newline \<notin> set (Md5 pc)"
  shows "sm_get (StringMapFromBytes (ToBytes it)) ''v'' = ''2''"
    and "sm_get (StringMapFromBytes (ToBytes it)) ''padding-md5'' = Md5 pc"
    and "ToBytes it \<noteq> []"
proof -
  have "sm_clean (settings_map pc)" "distinct (map fst (settings_map pc))"
    using assms(2) by (simp_all add: sm_clean_def settings_map_def)
  then have it: "sm_clean it" "distinct (map fst it)"
    using mset_eq_setD [OF assms(1)] assms(1)
    by (simp_all add: sm_clean_def) (metis mset_map mset_eq_imp_distinct_iff)
  have "map_of it = map_of (settings_map pc)"
    by (rule map_of_eqI_distinct) (use it mset_eq_setD [OF assms(1)] in \<open>simp_all add: settings_map_def\<close>)
  then have m: "map_of (StringMapFromBytes (ToBytes it)) = map_of (settings_map pc)"
    using StringMapFromBytes_ToBytes [OF it] by simp
  then show "sm_get (StringMapFromBytes (ToBytes it)) ''v'' = ''2''"
    "sm_get (StringMapFromBytes (ToBytes it)) ''padding-md5'' = Md5 pc"
    by (simp_all add: sm_get_def settings_map_def)
  show "ToBytes it \<noteq> []"
  proof
    assume "ToBytes it = []"
    then have "map_of (StringMapFromBytes []) ''v'' = Some ''2''" using m by (simp add: settings_map_def)
    then show False
      by (simp add: map_of_StringMapFromBytes string_of_bytes_def List.map_filter_simps line_entry_def)
  qed
qed

lemma Atoi_2: "Atoi ''2'' = Some 2"
  by (simp add: number_eval)

lemma server_settings_ok: "frame_ok server_settings_frame"
proof -
  have "length (ToBytes [(''v'', ''2'')]) < 65536" by (simp add: ToBytes_def kv_line_def bytes_of_string_def)
  then show ?thesis by (simp add: frame_ok_def server_settings_frame_def newFrame_def has_payload_def)
qed

lemma settings_update_sent:
  assumes "healthy s" and "framed s hs" and "length (RawScheme p) < 65536"
  shows "\<exists>s' gs. settings_update m p s = Some (None, s') \<and> healthy s' \<and> framed s' (hs @ gs) \<and>
           filter (\<lambda>g. \<not> is_waste g) gs = (if sm_get m ''padding-md5'' \<noteq> Md5 p then [update_frame p] else []) \<and>
           write_changes s s'"
proof (cases "sm_get m ''padding-md5'' = Md5 p")
  case True
  then show ?thesis using assms by (intro exI [of _ s] exI [of _ "[]"]) (simp add: settings_update_def)
next
  case False
  have "frame_ok (update_frame p)"
    using assms(3) by (simp add: frame_ok_def update_frame_def newFrame_def has_payload_def)
  then obtain s' gs where w: "writeControlFrame (update_frame p) s = Some ((length (frame_data (update_frame p)), None), s')"
    "healthy s'" "framed s' (hs @ update_frame p # gs)" "list_all is_waste gs" "write_changes s s'"
    using control_frame_sent [OF assms(1) _ assms(2)] by blast
  have "\<not> is_waste (update_frame p)" by (simp add: is_waste_def update_frame_def newFrame_def cmd_defs)
  then show ?thesis using False w filter_waste_frames [OF w(4)]
    by (intro exI [of _ s'] exI [of _ "update_frame p # gs"])
       (simp add: settings_update_def update_frame_def)
qed

lemma settings_version_sent:
  assumes "healthy s" and "framed s hs" and "sm_get m ''v'' = ''2''"
  shows "\<exists>s' gs. settings_version m s = Some (None, s') \<and> healthy s' \<and> framed s' (hs @ gs) \<and>
           filter (\<lambda>g. \<not> is_waste g) gs = [server_settings_frame] \<and> s_peerVersion s' = 2 \<and>
           input_of s' = input_of s"
proof -
  let ?s = "s\<lparr>s_peerVersion := word_of_int 2\<rparr>"
  have "healthy ?s" "framed ?s hs" using assms(1,2) by (simp_all add: healthy_def framed_def sent_def wire_out_def)
  then obtain s' gs where w:
    "writeControlFrame server_settings_frame ?s = Some ((length (frame_data server_settings_frame), None), s')"
    "healthy s'" "framed s' (hs @ server_settings_frame # gs)" "list_all is_waste gs" "write_changes ?s s'"
    using control_frame_sent [OF _ server_settings_ok] by blast
  have "\<not> is_waste server_settings_frame"
    by (simp add: is_waste_def server_settings_frame_def newFrame_def cmd_defs)
  moreover have "s_peerVersion s' = 2" using write_changesD(7) [OF w(5)] by simp
  moreover have "input_of s' = input_of s" using input_of_writeControlFrame [OF w(1)] by simp
  ultimately show ?thesis using assms(3) w filter_waste_frames [OF w(4)]
    by (intro exI [of _ s'] exI [of _ "server_settings_frame # gs"])
       (simp add: settings_version_def Atoi_2 server_settings_frame_def)
qed

section \<open>Properties\<close>

text \<open>C32: the client's first flight is one write: \<open>Run\<close> and the first \<open>OpenStream\<close> put nothing on
  the connection, and the first data written to the stream goes out in a single call of the
  connection's \<open>Write\<close> that holds the settings, the SYN of stream 1 and the data, in this
  order, then padding; so the first packet can be shaped as a whole.\<close>

theorem client_first_flight:
  assumes "s = NewClientSession c (Some p) rg" and "factory_ok p"
    and "c_deadline c = None" and "\<not> c_closed c" and "list_all (\<lambda>w. w = WOk) (c_script c)"
    and "0 < length data" and "length data \<le> maxFramePayload"
  shows "\<exists>s1 s2 s3 packet gs.
     Run_client e s = Some (True, s1) \<and> OpenStream s1 = Some (Inr 0, s2) \<and> c_out (s_conn s2) = c_out c \<and>
     Stream_Write data 0 s2 = Some ((length data, None), s3) \<and>
     c_out (s_conn s3) = c_out c @ [(packet, None)] \<and>
     packet = frames_bytes ([settings_frame e p, newFrame cmdSYN 1, psh 1 data] @ gs) \<and> list_all is_waste gs"
proof -
  let ?o = "opened e p s" and ?f = "psh 1 data"
  note o = opened_simps(1-4) [OF assms(1), of e] opened_simps(5)
  obtain s1 where opens: "Run_client e s = Some (True, s1)" "OpenStream s1 = Some (Inr 0, ?o)"
    using client_opens [OF assms(1,3)] by blast
  have h: "healthy ?o" using assms(2,4,5) o(1,3) by (simp add: healthy_def)
  obtain n s3 gs where w: "writeConnLocked (frame_bytes ?f) ?o = Some ((n, None), s3)"
    "sent s3 = sent ?o @ frames_bytes (?f # gs)" "list_all is_waste gs"
    using writeConn_frame [OF h psh_ok [OF assms(7)], of 1] by blast
  obtain es where es: "c_out (s_conn s3) = c_out c @ es" "length es \<le> 1" "list_all (\<lambda>x. snd x = None) es"
    using writeConnLocked_entry [OF w(1)] o(1) assms(3) by auto
  have "s_buffer s3 = []" using writeConnLocked_flushes [OF w(1) o(2)] .
  then have wire: "wire_out s3 = wire_out ?o @ s_buffer ?o @ frames_bytes (?f # gs)"
    using w(2) by (simp add: sent_def)
  have all: "concat (map fst es) = frames_bytes ([settings_frame e p, newFrame cmdSYN 1, ?f] @ gs)"
    using wire wire_out_append [of s3 ?o es] es(1) o(1,5) by simp
  then have "es \<noteq> []" by (auto simp: frame_bytes_def frame_header_def)
  then obtain packet d where "es = [(packet, d)]" using es(2) by (cases es) auto
  then have one: "es = [(packet, None)]" using es(3) by simp
  have "min (length data) maxFramePayload = length data" using assms(7) by simp
  then have "write_chunks 1 data ?o = Some (None, s3)"
    using w(1) assms(6)
    by (simp add: write_chunks.simps [of 1 data ?o] Let_def writeConn_def frame_bytes_def psh_def)
  then have "Stream_Write data 0 ?o = Some ((length data, None), s3)"
    using o(4) by (simp add: Stream_Write_def writeDataFrame_def)
  then show ?thesis using opens es(1) one all w(3) o(1)
    by (intro exI [of _ s1] exI [of _ ?o] exI [of _ s3] exI [of _ packet] exI [of _ gs]) simp
qed

theorem client_first_flight_witness:
  "\<exists>s1 s2 s3 packet. Run_client demo_env demo_client = Some (True, s1) \<and> OpenStream s1 = Some (Inr 0, s2) \<and>
     Stream_Write [104, 105] 0 s2 = Some ((2, None), s3) \<and> c_out (s_conn s3) = [(packet, None)]"
proof -
  have "factory_ok demo_factory" using demo_client_ok(1)
    by (simp add: healthy_def demo_client_def NewClientSession_def)
  from client_first_flight [OF demo_client_def this, of "[104, 105]" demo_env]
  show ?thesis by (fastforce simp: demo_conn_def maxFramePayload_def)
qed

text \<open>C33: the server answers the settings of a client, however the client's runtime ordered them:
  it reads version 2 and the client's padding checksum out of them, sends its own padding
  scheme exactly when the checksums differ, then its own settings, remembers the version, and
  from then on accepts streams.\<close>

theorem server_answers_settings:
  assumes "rv_pc r = RHeader" and "\<not> s_isClient (rv_sess r)" and "s_padding (rv_sess r) = Some p"
    and "healthy (rv_sess r)" and "framed (rv_sess r) hs" and "length (RawScheme p) < 65536"
    and "mset it = mset (settings_map pc)" and "newline \<notin> set (Md5 pc)" and "length (ToBytes it) < 65536"
    and "input_of (rv_sess r) = frame_bytes ((newFrame cmdSettings 0)\<lparr>frame_data := ToBytes it\<rparr>) @ rest"
  shows "\<exists>r' gs. recv_run e 2 r = Ret r' \<and> rv_pc r' = RHeader \<and> rv_flag r' \<and>
           s_peerVersion (rv_sess r') = 2 \<and> input_of (rv_sess r') = rest \<and>
           framed (rv_sess r') (hs @ gs) \<and>
           filter (\<lambda>g. \<not> is_waste g) gs =
             (if Md5 pc \<noteq> Md5 p then [update_frame p] else []) @ [server_settings_frame]"
proof -
  let ?f = "(newFrame cmdSettings 0)\<lparr>frame_data := ToBytes it\<rparr>" and ?m = "StringMapFromBytes (ToBytes it)"
  let ?t = "set_in (ToBytes it @ rest) (rv_sess r)" and ?u = "set_in rest (rv_sess r)"
  note parsed = settings_parsed [OF assms(7,8)]
  have ok: "frame_ok ?f" using assms(9) by (simp add: frame_ok_def newFrame_def has_payload_def)
  have live: "\<not> c_closed (s_conn (rv_sess r))" using assms(4) by (simp add: healthy_def)
  then have "open_in (rv_sess r) (frame_bytes ?f @ rest)" using assms(10) by (simp add: open_in_def input_of_def)
  from handle_run [OF assms(1) this decode_frame_bytes [OF ok], of e]
  obtain hdr where h: "announces hdr ?f"
    "recv_run e 2 r = (case handle_frame e (rv_flag r) hdr ?t of
              None \<Rightarrow> Panic
            | Some (HNext flag' s1) \<Rightarrow> Ret \<lparr>rv_pc = RHeader, rv_flag = flag', rv_sess = s1\<rparr>
            | Some (HPush ref b flag' s1) \<Rightarrow> Ret \<lparr>rv_pc = RPush ref b, rv_flag = flag', rv_sess = s1\<rparr>
            | Some (HReturn err s1) \<Rightarrow> Ret (recv_return err (rv_flag r) s1))"
    by (auto simp: newFrame_def)
  have pay: "Cmd hdr = cmdSettings" "unat (Length hdr) = length (ToBytes it)" "Length hdr > 0"
    using h(1) parsed(3) announces_pos [OF h(1)] by (simp_all add: announces_def newFrame_def has_payload_def)
  obtain s1 gs1 where a: "settings_update ?m p ?u = Some (None, s1)" "healthy s1" "framed s1 (hs @ gs1)"
    "filter (\<lambda>g. \<not> is_waste g) gs1 = (if Md5 pc \<noteq> Md5 p then [update_frame p] else [])" "write_changes ?u s1"
    using settings_update_sent [of ?u hs p ?m] assms(4,5,6) parsed(2) by auto
  obtain s2 gs2 where b: "settings_version ?m s1 = Some (None, s2)" "framed s2 ((hs @ gs1) @ gs2)"
    "filter (\<lambda>g. \<not> is_waste g) gs2 = [server_settings_frame]" "s_peerVersion s2 = 2" "input_of s2 = input_of s1"
    using settings_version_sent [OF a(2,3) parsed(1)] by blast
  have "input_of s2 = rest" using b(5) settings_update_input [OF a(1)] by simp
  have "open_in ?t (ToBytes it @ rest)" using live by simp
  from with_payload_ok [OF this pay(2)]
  have "handle_frame e (rv_flag r) hdr ?t = Some (HNext True s2)"
    using pay(1,3) assms(2,3) a(1) b(1)
    by (simp add: handle_frame_def cmd_defs handle_Settings_def Let_def)
  then show ?thesis using h(2) a(4) b \<open>input_of s2 = rest\<close>
    by (intro exI [of _ "\<lparr>rv_pc = RHeader, rv_flag = True, rv_sess = s2\<rparr>"] exI [of _ "gs1 @ gs2"]) simp
qed

text \<open>C34: a server refuses streams from a client that has not sent its settings: it answers the SYN
  with an alert, creates no stream, and closes the session.\<close>

theorem syn_before_settings_refused:
  assumes "rv_pc r = RHeader" and "\<not> rv_flag r" and "\<not> s_isClient (rv_sess r)" and "\<not> s_die (rv_sess r)"
    and "healthy (rv_sess r)" and "framed (rv_sess r) hs"
    and "input_of (rv_sess r) = frame_bytes (newFrame cmdSYN sid) @ rest"
  shows "\<exists>r' gs. recv_run e 2 r = Ret r' \<and> rv_pc r' = RDone None \<and> s_die (rv_sess r') \<and>
           c_closed (s_conn (rv_sess r')) \<and> s_streams (rv_sess r') = [] \<and>
           length (s_objs (rv_sess r')) = length (s_objs (rv_sess r)) \<and>
           framed (rv_sess r') (hs @ (newFrame cmdAlert 0)\<lparr>frame_data := alert_text\<rparr> # gs) \<and> list_all is_waste gs"
proof -
  let ?f = "newFrame cmdSYN sid" and ?t = "set_in rest (rv_sess r)"
  let ?a = "(newFrame cmdAlert 0)\<lparr>frame_data := alert_text\<rparr>"
  have ok: "frame_ok ?f" by (simp add: frame_ok_def newFrame_def)
  have live: "\<not> c_closed (s_conn (rv_sess r))" using assms(5) by (simp add: healthy_def)
  then have "open_in (rv_sess r) (frame_bytes ?f @ rest)" using assms(7) by (simp add: open_in_def input_of_def)
  from handle_run [OF assms(1) this decode_frame_bytes [OF ok], of e]
  obtain hdr where h: "announces hdr ?f"
    "recv_run e 2 r = (case handle_frame e (rv_flag r) hdr ?t of
              None \<Rightarrow> Panic
            | Some (HNext flag' s1) \<Rightarrow> Ret \<lparr>rv_pc = RHeader, rv_flag = flag', rv_sess = s1\<rparr>
            | Some (HPush ref b flag' s1) \<Rightarrow> Ret \<lparr>rv_pc = RPush ref b, rv_flag = flag', rv_sess = s1\<rparr>
            | Some (HReturn err s1) \<Rightarrow> Ret (recv_return err (rv_flag r) s1))"
    by (auto simp: newFrame_def)
  have cmd: "Cmd hdr = cmdSYN" using h(1) by (simp add: announces_def newFrame_def)
  have "frame_ok ?a" by (simp add: frame_ok_def newFrame_def has_payload_def alert_text_def bytes_of_string_def)
  then obtain s1 gs where w: "writeControlFrame ?a ?t = Some ((length (frame_data ?a), None), s1)"
    "framed s1 (hs @ ?a # gs)" "list_all is_waste gs" "write_changes ?t s1"
    using control_frame_sent [of ?t ?a hs] assms(5,6) by auto
  have "handle_frame e (rv_flag r) hdr ?t = Some (HReturn None s1)"
    using w(1) assms(2,3) cmd by (simp add: handle_frame_def cmd_defs handle_SYN_def)
  then have run: "recv_run e 2 r = Ret (recv_return None (rv_flag r) s1)" using h(2) by simp
  have "\<not> s_die s1" "length (s_objs s1) = length (s_objs (rv_sess r))"
    using write_changesD(2,3) [OF w(4)] assms(4) by simp_all
  then have "s_streams (snd (Session_Close s1)) = []"
    "length (s_objs (snd (Session_Close s1))) = length (s_objs (rv_sess r))"
    "c_closed (s_conn (snd (Session_Close s1)))" "s_die (snd (Session_Close s1))"
    using Session_Close_conn(3,4) [of s1] by (simp_all add: Session_Close_open)
  then show ?thesis using run w(2,3)
    by (intro exI [of _ "recv_return None (rv_flag r) s1"] exI [of _ gs]) (simp add: recv_return_def)
qed

text \<open>C35: a FIN closes its stream and only that: nothing is sent back, the id leaves the map, the
  stream is dead with \<open>net.ErrClosed\<close>, what it had received stays readable, and the other
  streams are untouched.\<close>

theorem fin_closes_stream:
  assumes "rv_pc r = RHeader" and "\<not> c_closed (s_conn (rv_sess r))" and "session_inv (rv_sess r)"
    and "input_of (rv_sess r) = frame_bytes (newFrame cmdFIN sid) @ rest"
    and "map_of (s_streams (rv_sess r)) sid = Some ref" and "\<not> str_dieOnce (obj (rv_sess r) ref)"
  shows "\<exists>r'. recv_run e 2 r = Ret r' \<and> rv_pc r' = RHeader \<and> input_of (rv_sess r') = rest \<and>
           c_out (s_conn (rv_sess r')) = c_out (s_conn (rv_sess r)) \<and>
           map_of (s_streams (rv_sess r')) = (map_of (s_streams (rv_sess r)))(sid := None) \<and>
           str_dieErr (obj (rv_sess r') ref) = Some ErrNetClosed \<and> p_done (str_pipe (obj (rv_sess r') ref)) \<and>
           unread (str_pipe (obj (rv_sess r') ref)) = unread (str_pipe (obj (rv_sess r) ref)) \<and>
           (\<forall>ref'. ref' \<noteq> ref \<longrightarrow> obj (rv_sess r') ref' = obj (rv_sess r) ref')"
proof -
  let ?f = "newFrame cmdFIN sid" and ?t = "set_in rest (rv_sess r)"
  let ?u = "?t\<lparr>s_streams := AList.delete sid (s_streams (rv_sess r))\<rparr>"
  have ok: "frame_ok ?f" by (simp add: frame_ok_def newFrame_def)
  have "open_in (rv_sess r) (frame_bytes ?f @ rest)" using assms(2,4) by (simp add: open_in_def input_of_def)
  from handle_run [OF assms(1) this decode_frame_bytes [OF ok], of e]
  obtain hdr where h: "announces hdr ?f"
    "recv_run e 2 r = (case handle_frame e (rv_flag r) hdr ?t of
              None \<Rightarrow> Panic
            | Some (HNext flag' s1) \<Rightarrow> Ret \<lparr>rv_pc = RHeader, rv_flag = flag', rv_sess = s1\<rparr>
            | Some (HPush ref b flag' s1) \<Rightarrow> Ret \<lparr>rv_pc = RPush ref b, rv_flag = flag', rv_sess = s1\<rparr>
            | Some (HReturn err s1) \<Rightarrow> Ret (recv_return err (rv_flag r) s1))"
    by (auto simp: newFrame_def)
  have hdr: "Cmd hdr = cmdFIN" "StreamID hdr = sid" using h(1) by (simp_all add: announces_def newFrame_def)
  have ref: "ref < length (s_objs ?u)"
    using assms(3,5) by (auto simp: session_inv_def dest: map_of_SomeD streams_ok_refs)
  have "handle_frame e (rv_flag r) hdr ?t = Some (HNext (rv_flag r) (closeLocally ref ?u))"
    using hdr assms(5) by (simp add: handle_frame_def cmd_defs handle_FIN_def)
  then have run: "recv_run e 2 r = Ret \<lparr>rv_pc = RHeader, rv_flag = rv_flag r, rv_sess = closeLocally ref ?u\<rparr>"
    using h(2) by simp
  have "c_out (s_conn ?t) = c_out (s_conn (rv_sess r))" by (simp add: set_in_def)
  then show ?thesis using run assms(6) closeLocally_obj [OF ref]
    by (simp add: delete_conv' fun_upd_def PipeReader_Close_def)
qed

text \<open>a SYN handled after the session was closed leaves a stream behind: the loop does not look
  at \<open>die\<close> when it registers a stream, so with the header already read when another goroutine
  closes the session, the stream is created, its handler is started, and the loop then ends
  without closing it, as the session is closed already; the stream is alive in a dead session,
  and a read from it waits for ever.\<close>

theorem late_syn_leaks_stream:
  assumes "rv_pc r = RHandle hdr" and "Cmd hdr = cmdSYN" and "rv_flag r"
    and "s_die (rv_sess r)" and "c_closed (s_conn (rv_sess r))" and "s_streams (rv_sess r) = []"
    and "ref = length (s_objs (rv_sess r))"
  shows "\<exists>r'. recv_run e 2 r = Ret r' \<and> rv_pc r' = RDone (Some ErrNetClosed) \<and>
           s_streams (rv_sess r') = [(StreamID hdr, ref)] \<and>
           EvNewStream ref \<in> set (s_events (rv_sess r')) \<and>
           \<not> str_dieOnce (obj (rv_sess r') ref) \<and> Stream_Read n ref (rv_sess r') = Block \<and>
           Session_Close (rv_sess r') = (Some ErrClosedPipe, rv_sess r')"
proof -
  let ?s = "rv_sess r"
  let ?u = "(emit (EvNewStream ref) (?s\<lparr>s_objs := s_objs ?s @ [newStream_obj (StreamID hdr)]\<rparr>))
      \<lparr>s_streams := [(StreamID hdr, ref)]\<rparr>"
  have "handle_frame e True hdr ?s = Some (HNext True ?u)"
    using assms by (simp add: handle_frame_def cmd_defs handle_SYN_def newStream_def emit_def)
  then have "recv_step e r = Ret \<lparr>rv_pc = RHeader, rv_flag = True, rv_sess = ?u\<rparr>"
    using assms(1,3) by (simp add: recv_step_def)
  moreover have "s_ReadFull headerOverHeadSize ?u = (Inl ErrNetClosed, ?u)"
    using assms(5) by (simp add: s_ReadFull_def conn_ReadFull_def emit_def)
  moreover have "Session_Close ?u = (Some ErrClosedPipe, ?u)"
    using assms(4) by (simp add: Session_Close_def)
  ultimately have run: "recv_run e 2 r = Ret \<lparr>rv_pc = RDone (Some ErrNetClosed), rv_flag = True, rv_sess = ?u\<rparr>"
    by (simp add: numeral_2_eq_2 recv_step_def recv_return_def)
  have o: "obj ?u ref = newStream_obj (StreamID hdr)" using assms(7) by (simp add: obj_def emit_def)
  have "Stream_Read n ref ?u = Block"
    using o by (simp add: Stream_Read_def pipe_read_def Pipe_def bufLen_def deadline_passed_def
        isClosedChan_def deadline_Wait_def MakePipeDeadline_def)
  then show ?thesis using run o \<open>Session_Close ?u = (Some ErrClosedPipe, ?u)\<close> by simp
qed

section \<open>Witnesses\<close>

definition demo_input :: "frame \<Rightarrow> recv" where
  "demo_input f = recv_start (set_in (frame_bytes f) demo_server)"

lemma demo_input_ok:
  "rv_pc (demo_input f) = RHeader" "\<not> rv_flag (demo_input f)" "rv_sess (demo_input f) = set_in (frame_bytes f) demo_server"
  "input_of (rv_sess (demo_input f)) = frame_bytes f @ []" "\<not> s_isClient (rv_sess (demo_input f))"
  "s_padding (rv_sess (demo_input f)) = Some demo_factory" "healthy (rv_sess (demo_input f))"
  "framed (rv_sess (demo_input f)) []" "\<not> s_die (rv_sess (demo_input f))" "\<not> c_closed (s_conn (rv_sess (demo_input f)))"
  "session_inv (rv_sess (demo_input f))"
proof -
  have "session_inv (set_in x demo_server)" for x
    using demo_server_ok(1) by (simp add: set_in_def)
  moreover have "\<not> c_closed (s_conn demo_server)" using demo_server_ok(2) by (simp add: healthy_def)
  ultimately show
    "rv_pc (demo_input f) = RHeader" "\<not> rv_flag (demo_input f)" "rv_sess (demo_input f) = set_in (frame_bytes f) demo_server"
    "input_of (rv_sess (demo_input f)) = frame_bytes f @ []" "\<not> s_isClient (rv_sess (demo_input f))"
    "s_padding (rv_sess (demo_input f)) = Some demo_factory" "healthy (rv_sess (demo_input f))"
    "framed (rv_sess (demo_input f)) []" "\<not> s_die (rv_sess (demo_input f))" "\<not> c_closed (s_conn (rv_sess (demo_input f)))"
    "session_inv (rv_sess (demo_input f))"
    using demo_server_ok(2,3,5)
    by (simp_all add: demo_input_def recv_start_def) (simp_all add: demo_server_def NewServerSession_def)
qed

theorem server_answers_settings_witness:
  "\<exists>r' gs. recv_run demo_env 2 (demo_input ((newFrame cmdSettings 0)\<lparr>frame_data := ToBytes (settings_map (demo_factory\<lparr>Md5 := ''0f''\<rparr>))\<rparr>)) = Ret r' \<and>
     framed (rv_sess r') gs \<and> filter (\<lambda>g. \<not> is_waste g) gs = [update_frame demo_factory, server_settings_frame]"
proof -
  let ?pc = "demo_factory\<lparr>Md5 := ''0f''\<rparr>"
  have "length (RawScheme demo_factory) < 65536" "newline \<notin> set (Md5 ?pc)" "Md5 ?pc \<noteq> Md5 demo_factory"
    "length (ToBytes (settings_map ?pc)) < 65536"
    by (simp_all add: demo_factory_def ToBytes_def settings_map_def kv_line_def bytes_of_string_def)
  then show ?thesis
    using server_answers_settings [OF demo_input_ok(1,5,6,7,8) _ refl _ _ demo_input_ok(4), of ?pc demo_env] by auto
qed

theorem syn_before_settings_refused_witness:
  "\<exists>r'. recv_run demo_env 2 (demo_input (newFrame cmdSYN 9)) = Ret r' \<and> c_closed (s_conn (rv_sess r')) \<and>
     length (s_objs (rv_sess r')) = 1"
proof -
  have "length (s_objs (rv_sess (demo_input (newFrame cmdSYN 9)))) = 1"
    by (simp add: demo_input_ok(3)) (simp add: demo_server_def)
  then show ?thesis
    using syn_before_settings_refused [OF demo_input_ok(1,2,5,9,7,8,4), of demo_env] by metis
qed

theorem fin_closes_stream_witness:
  "\<exists>r'. recv_run demo_env 2 (demo_input (newFrame cmdFIN 7)) = Ret r' \<and>
     str_dieErr (obj (rv_sess r') 0) = Some ErrNetClosed"
proof -
  have "map_of (s_streams (rv_sess (demo_input (newFrame cmdFIN 7)))) 7 = Some 0"
    "\<not> str_dieOnce (obj (rv_sess (demo_input (newFrame cmdFIN 7))) 0)"
    using demo_server_ok(6) by (simp_all add: demo_input_ok(3)) (simp add: demo_server_def)
  from fin_closes_stream [OF demo_input_ok(1,10,11,4) this, of demo_env] show ?thesis by blast
qed

theorem late_syn_leaks_stream_witness:
  "\<exists>r'. recv_run demo_env 2 \<lparr>rv_pc = RHandle (frame_header cmdSYN 9 0), rv_flag = True,
          rv_sess = snd (Session_Close demo_server)\<rparr> = Ret r' \<and> Stream_Read 10 1 (rv_sess r') = Block"
proof -
  let ?s = "snd (Session_Close demo_server)"
  let ?r = "\<lparr>rv_pc = RHandle (frame_header cmdSYN 9 0), rv_flag = True, rv_sess = ?s\<rparr>"
  have "s_die ?s" "c_closed (s_conn ?s)" "s_streams ?s = []" "1 = length (s_objs ?s)"
    using demo_server_ok(5) Session_Close_conn(3,4) [of demo_server]
    by (simp_all add: Session_Close_open) (simp add: demo_server_def)
  then show ?thesis
    using late_syn_leaks_stream [of ?r "frame_header cmdSYN 9 0" 1 demo_env 10] by (auto simp: wire_simps)
qed

end
