(* ===== verification/Watcher.thy ===== *)
theory Watcher
  imports Main
begin

text \<open>
  \<open>internal/pkg/util/deadline.go\<close>: \<open>NewDeadlineWatcher(ddl, timeOut)\<close>, which a client session uses
  to close itself when a stream is not acknowledged. Its goroutine waits for the timer or for
  the returned function \<open>done\<close>, whichever comes first. Theory \<open>Recv\<close> uses the watcher as armed
  or disarmed; here it runs step by step.
\<close>

section \<open>State\<close>

text \<open>The goroutine: not yet at its \<open>select\<close>, waiting in it, with the timer's case chosen, ended.\<close>

datatype watcher_pc = GStart | GSelect | GTimeOut | GEnd

text \<open>The timer has sent into its channel; \<open>closeCh\<close> is closed; \<open>once\<close> has been used; and, for the
  properties, how often \<open>timeOut\<close> has been called.\<close>

record watcher =
  wt_fired :: bool
  wt_closed :: bool
  wt_once :: bool
  wt_pc :: watcher_pc
  g_runs :: nat

definition NewDeadlineWatcher :: watcher where
  "NewDeadlineWatcher = \<lparr>wt_fired = False, wt_closed = False, wt_once = False, wt_pc = GStart, g_runs = 0\<rparr>"

section \<open>Steps\<close>

text \<open>
  A goroutine waiting in its \<open>select\<close> is woken with the case that became ready; one that comes to
  it with both cases ready takes either. \<open>close\<close> of a closed channel would panic (\<open>None\<close>).
\<close>

definition watcher_done :: "watcher \<Rightarrow> watcher option" where
  "watcher_done w =
     (if wt_once w then Some w
      else if wt_closed w then None
      else Some (w\<lparr>wt_once := True, wt_closed := True, wt_pc := (if wt_pc w = GSelect then GEnd else wt_pc w)\<rparr>))"

inductive watcher_step :: "watcher \<Rightarrow> watcher \<Rightarrow> bool" where
  wt_fire: "\<not> wt_fired w \<Longrightarrow> wt_pc w \<noteq> GEnd \<Longrightarrow>
     watcher_step w (w\<lparr>wt_fired := True, wt_pc := (if wt_pc w = GSelect then GTimeOut else wt_pc w)\<rparr>)"
| wt_done: "watcher_done w = Some w' \<Longrightarrow> watcher_step w w'"
| wt_wait: "wt_pc w = GStart \<Longrightarrow> \<not> wt_closed w \<Longrightarrow> \<not> wt_fired w \<Longrightarrow> watcher_step w (w\<lparr>wt_pc := GSelect\<rparr>)"
| wt_take_close: "wt_pc w = GStart \<Longrightarrow> wt_closed w \<Longrightarrow> watcher_step w (w\<lparr>wt_pc := GEnd\<rparr>)"
| wt_take_timer: "wt_pc w = GStart \<Longrightarrow> wt_fired w \<Longrightarrow> watcher_step w (w\<lparr>wt_pc := GTimeOut\<rparr>)"
| wt_run: "wt_pc w = GTimeOut \<Longrightarrow> watcher_step w (w\<lparr>wt_pc := GEnd, g_runs := g_runs w + 1\<rparr>)"

inductive watcher_reach :: "watcher \<Rightarrow> bool" where
  watcher_init: "watcher_reach NewDeadlineWatcher"
| watcher_more: "watcher_reach w \<Longrightarrow> watcher_step w w' \<Longrightarrow> watcher_reach w'"

inductive_cases watcher_stepE: "watcher_step w w'"

section \<open>Invariant\<close>

definition watcher_inv :: "watcher \<Rightarrow> bool" where
  "watcher_inv w \<longleftrightarrow>
     wt_once w = wt_closed w \<and> g_runs w \<le> 1 \<and>
     (wt_pc w \<noteq> GEnd \<longrightarrow> g_runs w = 0) \<and> (wt_pc w = GSelect \<longrightarrow> \<not> wt_closed w \<and> \<not> wt_fired w) \<and>
     (wt_pc w = GTimeOut \<or> g_runs w > 0 \<longrightarrow> wt_fired w) \<and> (wt_pc w = GEnd \<longrightarrow> wt_closed w \<or> g_runs w = 1)"

lemma watcher_inv_step: "watcher_step w w' \<Longrightarrow> watcher_inv w \<Longrightarrow> watcher_inv w'"
  by (erule watcher_stepE) (auto simp: watcher_inv_def watcher_done_def split: if_splits)

lemma watcher_reach_inv: "watcher_reach w \<Longrightarrow> watcher_inv w"
proof (induction rule: watcher_reach.induct)
  case watcher_init
  show ?case by (simp add: watcher_inv_def NewDeadlineWatcher_def)
next
  case (watcher_more w w')
  then show ?case by (blast intro: watcher_inv_step)
qed

text \<open>Nothing but \<open>timeOut\<close> or \<open>done\<close> ends the goroutine, and what ended stays ended.\<close>

lemma watcher_ended: "watcher_step\<^sup>*\<^sup>* w w' \<Longrightarrow> wt_pc w = GEnd \<Longrightarrow> wt_pc w' = GEnd \<and> g_runs w' = g_runs w"
  by (induction rule: rtranclp_induct) (auto elim!: watcher_stepE simp: watcher_done_def split: if_splits)

section \<open>Properties\<close>

text \<open>\<open>timeOut\<close> is called at most once and only after the timer has run out; \<open>done\<close> can be called
  any number of times without a panic; and called while the goroutine waits, which is before
  the timer has run out, it ends the goroutine with \<open>timeOut\<close> never to be called.\<close>

theorem watcher_sound:
  assumes "watcher_reach w"
  shows "g_runs w \<le> 1 \<and> (g_runs w > 0 \<longrightarrow> wt_fired w) \<and>
     (\<exists>w'. watcher_done w = Some w' \<and> wt_closed w' \<and> watcher_done w' = Some w' \<and>
        (wt_pc w = GSelect \<longrightarrow> (\<forall>v. watcher_step\<^sup>*\<^sup>* w' v \<longrightarrow> g_runs v = 0)))"
proof -
  have inv: "watcher_inv w" using assms by (rule watcher_reach_inv)
  then obtain w' where d: "watcher_done w = Some w'" "wt_closed w'" "watcher_done w' = Some w'"
    "wt_pc w = GSelect \<Longrightarrow> wt_pc w' = GEnd \<and> g_runs w' = 0"
    by (cases "wt_once w") (auto simp: watcher_inv_def watcher_done_def)
  then have "g_runs v = 0" if "wt_pc w = GSelect" "watcher_step\<^sup>*\<^sup>* w' v" for v
    using watcher_ended [OF that(2)] that(1) by simp
  then show ?thesis using inv d by (auto simp: watcher_inv_def)
qed

theorem watcher_sound_witness:
  "\<exists>w. watcher_reach w \<and> wt_pc w = GSelect \<and> (\<exists>w'. watcher_done w = Some w' \<and> (\<forall>v. watcher_step\<^sup>*\<^sup>* w' v \<longrightarrow> g_runs v = 0))"
proof -
  let ?w = "NewDeadlineWatcher\<lparr>wt_pc := GSelect\<rparr>"
  have "watcher_step NewDeadlineWatcher ?w" by (rule wt_wait) (simp_all add: NewDeadlineWatcher_def)
  then have "watcher_reach ?w" using watcher_init watcher_more by blast
  then show ?thesis using watcher_sound [of ?w] by (intro exI [of _ ?w]) auto
qed

text \<open>A \<open>done\<close> that comes before the goroutine has reached its \<open>select\<close> does not have the last word:
  if the timer runs out before it gets there, \<open>timeOut\<close> may still be called.\<close>

theorem done_overtaken:
  "\<exists>w w' v. watcher_reach w \<and> \<not> wt_fired w \<and> watcher_done w = Some w' \<and> watcher_step\<^sup>*\<^sup>* w' v \<and> g_runs v = 1"
proof -
  let ?w = "NewDeadlineWatcher"
  let ?w1 = "?w\<lparr>wt_once := True, wt_closed := True\<rparr>"
  let ?w2 = "?w1\<lparr>wt_fired := True\<rparr>"
  let ?w3 = "?w2\<lparr>wt_pc := GTimeOut\<rparr>" and ?w4 = "?w2\<lparr>wt_pc := GEnd, g_runs := 1\<rparr>"
  have "watcher_done ?w = Some ?w1" by (simp add: watcher_done_def NewDeadlineWatcher_def)
  moreover have "watcher_step ?w1 ?w2" using wt_fire [of ?w1] by (simp add: NewDeadlineWatcher_def)
  moreover have "watcher_step ?w2 ?w3" by (rule wt_take_timer) (simp_all add: NewDeadlineWatcher_def)
  moreover have "watcher_step ?w3 ?w4" using wt_run [of ?w3] by (simp add: NewDeadlineWatcher_def)
  ultimately have "watcher_done ?w = Some ?w1" "watcher_step\<^sup>*\<^sup>* ?w1 ?w4"
    by (blast, meson converse_rtranclp_into_rtranclp rtranclp.rtrancl_refl)
  then show ?thesis using watcher_init by (intro exI [of _ ?w] exI [of _ ?w1] exI [of _ ?w4]) (simp add: NewDeadlineWatcher_def)
qed

end
