(* ===== verification/ClientPool.thy ===== *)
theory ClientPool
  imports Protocol
begin

text \<open>
  \<open>internal/pkg/proxy/session/client.go\<close>: the client's sessions and its pool of idle ones.
  The pool is an \<open>stl4go.SkipList\<close>, code outside the repository: its operations are a record
  of functions, and \<open>skiplist_laws\<close> states what its documentation promises, a map ordered by
  key. A session of the client is its receive loop's state together with the session; it is
  named by its index in \<open>cl_objs\<close>.
\<close>

section \<open>The skip list\<close>

record 'l skiplist =
  sl_new :: 'l
  sl_Insert :: "u64 \<Rightarrow> nat \<Rightarrow> 'l \<Rightarrow> 'l"
  sl_Remove :: "u64 \<Rightarrow> 'l \<Rightarrow> 'l"
  sl_entries :: "'l \<Rightarrow> (u64 \<times> nat) list"

text \<open>\<open>sl_entries\<close> lists what an iterator from the front visits.\<close>

definition skiplist_laws :: "'l skiplist \<Rightarrow> bool" where
  "skiplist_laws sl \<longleftrightarrow>
     sl_entries sl (sl_new sl) = [] \<and>
     (\<forall>l. sorted_wrt (<) (map fst (sl_entries sl l))) \<and>
     (\<forall>k v l. map_of (sl_entries sl (sl_Insert sl k v l)) = (map_of (sl_entries sl l))(k \<mapsto> v)) \<and>
     (\<forall>k l. map_of (sl_entries sl (sl_Remove sl k l)) = (map_of (sl_entries sl l))(k := None))"

section \<open>State\<close>

record 'l Client =
  cl_die :: bool
  cl_counter :: u64
  cl_idle :: 'l
  cl_sessions :: "(u64 \<times> nat) list"
  cl_objs :: "recv list"
  cl_padding :: "PaddingFactory option"
  cl_interval :: int
  cl_timeout :: int
  cl_minIdle :: int

definition second :: int where
  "second = 1000000000"

definition NewClient :: "'l skiplist \<Rightarrow> PaddingFactory option \<Rightarrow> int \<Rightarrow> int \<Rightarrow> int \<Rightarrow> 'l Client" where
  "NewClient sl default_padding interval timeout minIdle =
     \<lparr>cl_die = False, cl_counter = 0, cl_idle = sl_new sl, cl_sessions = [], cl_objs = [],
      cl_padding = default_padding,
      cl_interval = (if interval \<le> 5 * second then 30 * second else interval),
      cl_timeout = (if timeout \<le> 5 * second then 30 * second else timeout),
      cl_minIdle = minIdle\<rparr>"

definition MaxUint64 :: u64 where
  "MaxUint64 = - 1"

abbreviation sess :: "'l Client \<Rightarrow> nat \<Rightarrow> Session" where
  "sess c i \<equiv> rv_sess (cl_objs c ! i)"

definition set_sess :: "nat \<Rightarrow> Session \<Rightarrow> 'l Client \<Rightarrow> 'l Client" where
  "set_sess i s c = c\<lparr>cl_objs := (cl_objs c)[i := (cl_objs c ! i)\<lparr>rv_sess := s\<rparr>]\<rparr>"

section \<open>The two hooks\<close>

text \<open>The closure \<open>createSession\<close> gives a session to run when it closes.\<close>

definition session_hook :: "'l skiplist \<Rightarrow> nat \<Rightarrow> 'l Client \<Rightarrow> 'l Client" where
  "session_hook sl i c =
     c\<lparr>cl_idle := sl_Remove sl (MaxUint64 - s_seq (sess c i)) (cl_idle c),
       cl_sessions := AList.delete (s_seq (sess c i)) (cl_sessions c)\<rparr>"

text \<open>
  \<open>session.Close()\<close> on a session of the client: the hook runs when \<open>die\<close> is closed, that is
  once. The stream hooks that run inside see a closed session and do nothing.
\<close>

definition close_session :: "'l skiplist \<Rightarrow> nat \<Rightarrow> 'l Client \<Rightarrow> 'l Client" where
  "close_session sl i c =
     (let c1 = set_sess i (snd (Session_Close (sess c i))) c
      in if s_die (sess c i) then c1 else session_hook sl i c1)"

text \<open>The closure \<open>CreateStream\<close> gives a stream to run when it closes.\<close>

definition stream_hook :: "'l skiplist \<Rightarrow> int \<Rightarrow> nat \<Rightarrow> 'l Client \<Rightarrow> 'l Client" where
  "stream_hook sl now i c =
     (if IsClosed (sess c i) then c
      else if cl_die c then close_session sl i c
      else
        (let c1 = set_sess i ((sess c i)\<lparr>s_idleSince := now\<rparr>) c
         in c1\<lparr>cl_idle := sl_Insert sl (MaxUint64 - s_seq (sess c i)) i (cl_idle c1)\<rparr>))"

fun is_stream_hook :: "event \<Rightarrow> bool" where
  "is_stream_hook (EvStreamHook ref h) = True"
| "is_stream_hook _ = False"

text \<open>
  The padding pointer of every session of the client is the global one, so a scheme that one
  session stores is seen by all.
\<close>

definition share_padding :: "PaddingFactory option \<Rightarrow> 'l Client \<Rightarrow> 'l Client" where
  "share_padding p c =
     c\<lparr>cl_padding := p, cl_objs := map (\<lambda>v. v\<lparr>rv_sess := (rv_sess v)\<lparr>s_padding := p\<rparr>\<rparr>) (cl_objs c)\<rparr>"

text \<open>
  A step of session \<open>i\<close>, by its receive loop or the user of one of its streams: the new state,
  then the hooks that the step ran.
\<close>

definition client_update :: "'l skiplist \<Rightarrow> int \<Rightarrow> nat \<Rightarrow> recv \<Rightarrow> 'l Client \<Rightarrow> 'l Client" where
  "client_update sl now i v c =
     (let old = sess c i;
          c1 = c\<lparr>cl_objs := (cl_objs c)[i := v]\<rparr>;
          c2 = (if filter is_stream_hook (drop (length (s_events old)) (s_events (rv_sess v))) \<noteq> []
                then stream_hook sl now i c1 else c1);
          c3 = (if s_padding (rv_sess v) \<noteq> s_padding old then share_padding (s_padding (rv_sess v)) c2 else c2)
      in if s_die (rv_sess v) \<and> \<not> s_die old then session_hook sl i c3 else c3)"

section \<open>The operations\<close>

definition getIdleSession :: "'l skiplist \<Rightarrow> 'l Client \<Rightarrow> nat option \<times> 'l Client" where
  "getIdleSession sl c =
     (case sl_entries sl (cl_idle c) of
        [] \<Rightarrow> (None, c)
      | (k, i) # _ \<Rightarrow> (Some i, c\<lparr>cl_idle := sl_Remove sl k (cl_idle c)\<rparr>))"

text \<open>
  \<open>createSession\<close>: \<open>dial\<close> is what \<open>dialOut\<close> gives. The \<open>_padding\<close> argument of \<open>NewClient\<close> is
  not used: the session gets the global factory.
\<close>

definition createSession ::
  "'l skiplist \<Rightarrow> env \<Rightarrow> rng \<Rightarrow> go_error + conn \<Rightarrow> 'l Client \<Rightarrow> ((go_error + nat) \<times> 'l Client) panics" where
  "createSession sl e rg dial c =
     (case dial of
        Inl err \<Rightarrow> Some (Inl err, c)
      | Inr underlying \<Rightarrow>
          (let seq = cl_counter c + 1;
               i = length (cl_objs c);
               s = (NewClientSession underlying (cl_padding c) rg)\<lparr>s_seq := seq, s_dieHook := Some i\<rparr>;
               c1 = c\<lparr>cl_counter := seq, cl_objs := cl_objs c @ [recv_start s],
                      cl_sessions := AList.update seq i (cl_sessions c)\<rparr>
           in case Run_client e s of
                None \<Rightarrow> None
              | Some (_, s') \<Rightarrow> Some (Inr i, client_update sl 0 i (recv_start s') c1)))"

text \<open>\<open>CreateStream\<close>: the stream as the indices of its session and of its object there.\<close>

definition open_on ::
  "'l skiplist \<Rightarrow> nat \<Rightarrow> 'l Client \<Rightarrow> ((go_error + nat \<times> nat) \<times> 'l Client) panics" where
  "open_on sl i c =
     (case OpenStream (sess c i) of
        None \<Rightarrow> None
      | Some (Inl err, s') \<Rightarrow>
          Some (Inl (ErrWrap ''failed to create stream'' err),
                close_session sl i (client_update sl 0 i ((cl_objs c ! i)\<lparr>rv_sess := s'\<rparr>) c))
      | Some (Inr ref, s') \<Rightarrow>
          Some (Inr (i, ref), set_sess i (set_obj ref ((obj s' ref)\<lparr>str_dieHook := Some i\<rparr>) s') c))"

definition CreateStream ::
  "'l skiplist \<Rightarrow> env \<Rightarrow> rng \<Rightarrow> go_error + conn \<Rightarrow> 'l Client \<Rightarrow>
   ((go_error + nat \<times> nat) \<times> 'l Client) panics" where
  "CreateStream sl e rg dial c =
     (if cl_die c then Some (Inl ErrClosedPipe, c)
      else
        (case getIdleSession sl c of
           (Some i, c1) \<Rightarrow> open_on sl i c1
         | (None, c1) \<Rightarrow>
             (case createSession sl e rg dial c1 of
                None \<Rightarrow> None
              | Some (Inl err, c2) \<Rightarrow> Some (Inl (ErrWrap ''failed to create session'' err), c2)
              | Some (Inr i, c2) \<Rightarrow> open_on sl i c2)))"

text \<open>\<open>Close\<close>: every session of the map as it was, in its iteration order.\<close>

definition Client_Close :: "'l skiplist \<Rightarrow> 'l Client \<Rightarrow> 'l Client" where
  "Client_Close sl c =
     foldl (\<lambda>c' i. close_session sl i c') (c\<lparr>cl_die := True, cl_sessions := []\<rparr>) (map snd (cl_sessions c))"

text \<open>The loop of \<open>idleCleanupExpTime\<close> over the entries, and the whole of it.\<close>

fun cleanup_loop ::
  "'l skiplist \<Rightarrow> int \<Rightarrow> int \<Rightarrow> (u64 \<times> nat) list \<Rightarrow> int \<Rightarrow> nat list \<Rightarrow> 'l Client \<Rightarrow> nat list \<times> 'l Client" where
  "cleanup_loop sl expTime now [] active toClose c = (toClose, c)"
| "cleanup_loop sl expTime now ((key, i) # es) active toClose c =
     (if \<not> s_idleSince (sess c i) < expTime then cleanup_loop sl expTime now es (active + 1) toClose c
      else if active < cl_minIdle c then
        cleanup_loop sl expTime now es (active + 1) toClose
          (set_sess i ((sess c i)\<lparr>s_idleSince := now\<rparr>) c)
      else
        cleanup_loop sl expTime now es active (toClose @ [i])
          (c\<lparr>cl_idle := sl_Remove sl key (cl_idle c)\<rparr>))"

definition idleCleanupExpTime :: "'l skiplist \<Rightarrow> int \<Rightarrow> int \<Rightarrow> 'l Client \<Rightarrow> 'l Client" where
  "idleCleanupExpTime sl expTime now c =
     (case cleanup_loop sl expTime now (sl_entries sl (cl_idle c)) 0 [] c of
        (toClose, c1) \<Rightarrow> foldl (\<lambda>c' i. close_session sl i c') c1 toClose)"

definition idleCleanup :: "'l skiplist \<Rightarrow> int \<Rightarrow> 'l Client \<Rightarrow> 'l Client" where
  "idleCleanup sl now c = idleCleanupExpTime sl (now - cl_timeout c) now c"

section \<open>What a session's steps keep\<close>

text \<open>A session keeps its number, and once closed it stays closed.\<close>

definition same_id :: "Session \<Rightarrow> Session \<Rightarrow> bool" where
  "same_id s s' \<longleftrightarrow> s_seq s' = s_seq s \<and> (s_die s \<longrightarrow> s_die s')"

lemma same_id_refl [simp]: "same_id s s"
  by (simp add: same_id_def)

lemma same_id_trans: "same_id s s' \<Longrightarrow> same_id s' s'' \<Longrightarrow> same_id s s''"
  by (simp add: same_id_def)

lemma same_id_simps [simp]:
  "same_id s (set_obj ref st s') = same_id s s'" "same_id (set_obj ref st s) s' = same_id s s'"
  "same_id s (emit e s') = same_id s s'" "same_id (emit e s) s' = same_id s s'"
  "same_id s (s'\<lparr>s_streams := x\<rparr>) = same_id s s'" "same_id s (s'\<lparr>s_conn := c\<rparr>) = same_id s s'"
  "same_id s (s'\<lparr>s_synDone := d\<rparr>) = same_id s s'" "same_id (s\<lparr>s_synDone := d\<rparr>) s' = same_id s s'"
  "same_id s (s'\<lparr>s_padding := p\<rparr>) = same_id s s'" "same_id s (s'\<lparr>s_peerVersion := v\<rparr>) = same_id s s'"
  "same_id (s\<lparr>s_peerVersion := v\<rparr>) s' = same_id s s'" "same_id s (s'\<lparr>s_buffering := b\<rparr>) = same_id s s'"
  "same_id (s\<lparr>s_streamId := i\<rparr>) s' = same_id s s'" "same_id s (s'\<lparr>s_watches := w\<rparr>) = same_id s s'"
  "same_id (s\<lparr>s_conn := c\<rparr>) s' = same_id s s'" "same_id s (s'\<lparr>s_dieHook := h\<rparr>) = same_id s s'"
  "same_id s (set_pipe ref q s') = same_id s s'"
  by (simp_all add: same_id_def set_obj_def emit_def set_pipe_def)

lemma same_id_write_changes: "write_changes s s' \<Longrightarrow> same_id s s'"
proof -
  assume w: "write_changes s s'"
  then have "s_seq s' = s_seq s" by (cases s; cases s') (simp add: write_changes_def)
  then show ?thesis using write_changesD(3) [OF w] by (simp add: same_id_def)
qed

lemma same_id_closeLocally [simp]: "same_id s (closeLocally ref s') = same_id s s'"
  by (simp add: closeLocally_def Let_def split: option.split)

lemma same_id_close_streams [simp]:
  "same_id s (foldl (\<lambda>s' ref. closeLocally ref s') s' refs) = same_id s s'"
  by (induction refs arbitrary: s') simp_all

lemma same_id_Session_Close: "same_id s (snd (Session_Close s))"
proof (cases "s_die s")
  case True
  then show ?thesis by (simp add: Session_Close_def)
next
  case False
  have "same_id s (close_begin s)"
    by (simp add: close_begin_def split: option.split) (simp add: same_id_def)
  then show ?thesis by (simp add: Session_Close_open [OF False])
qed

lemma same_id_writeControlFrame: "writeControlFrame f s = Some (r, s') \<Longrightarrow> same_id s s'"
  by (erule writeControlFrame_cases)
     (auto intro: same_id_write_changes same_id_trans same_id_Session_Close)

lemma same_id_closeWithError: "closeWithError e ref s = Some (r, s') \<Longrightarrow> same_id s s'"
  by (auto simp: closeWithError_def streamClosed_def Let_def dest!: same_id_writeControlFrame
      split: if_splits option.splits)

lemma same_id_newStream: "newStream sid s = (ref, s') \<Longrightarrow> same_id s s'"
  by (auto simp: newStream_def same_id_def)

lemma same_id_call_synDone [simp]: "same_id s (call_synDone s') = same_id s s'"
  "same_id (call_synDone s) s' = same_id s s'"
  by (simp_all add: call_synDone_def split: option.split)

lemma same_id_OpenStream: "OpenStream s = Some (r, s') \<Longrightarrow> same_id s s'"
proof (cases "IsClosed s")
  case True
  assume "OpenStream s = Some (r, s')"
  then show ?thesis using True by (simp add: OpenStream_def)
next
  case False
  let ?sid = "s_streamId s + 1"
  obtain ref s1 where s1: "newStream ?sid (s\<lparr>s_streamId := ?sid\<rparr>) = (ref, s1)" by fastforce
  let ?s2 = "if ?sid \<ge> 2 \<and> s_peerVersion s1 \<ge> 2 then arm_watch (call_synDone s1) else s1"
  have "same_id s ?s2" using same_id_newStream [OF s1] by (simp add: arm_watch_def)
  then have "same_id s s3" if "writeControlFrame (newFrame cmdSYN ?sid) ?s2 = Some (x, s3)" for x s3
    using same_id_trans same_id_writeControlFrame [OF that] by blast
  moreover assume "OpenStream s = Some (r, s')"
  ultimately show ?thesis using False s1
    by (auto simp: OpenStream_def Let_def split: option.splits if_splits)
qed

definition handled_same :: "Session \<Rightarrow> handled panics \<Rightarrow> bool" where
  "handled_same s h \<longleftrightarrow> (\<forall>x. h = Some x \<longrightarrow> same_id s (handled_sess x))"

lemma handled_same_simps [simp]:
  "handled_same s None" "handled_same s (Some h) \<longleftrightarrow> same_id s (handled_sess h)"
  by (simp_all add: handled_same_def)

lemma with_payload_same:
  assumes "\<And>b t. same_id s t \<Longrightarrow> handled_same s (k b t)" and "same_id s u"
  shows "handled_same s (with_payload hdr u k)"
  using assms by (auto simp: with_payload_def s_ReadFull_def split: prod.split sum.split)

lemma same_id_settings:
  "settings_update m p s = Some (r, s') \<Longrightarrow> same_id s s'"
  "settings_version m s = Some (r, s') \<Longrightarrow> same_id s s'"
  by (auto simp: settings_update_def settings_version_def dest!: same_id_writeControlFrame
      split: if_splits option.splits)

lemma handle_frame_same: "handled_same s (handle_frame e flag hdr s)"
proof -
  have "handled_same s (handle_PSH flag hdr s)"
    by (auto simp: handle_PSH_def intro!: with_payload_same split: option.split)
  moreover have "handled_same s (handle_SYN flag hdr s)"
    by (auto simp: handle_SYN_def dest!: same_id_writeControlFrame same_id_newStream split: option.split prod.split)
  moreover have "handled_same s (handle_SYNACK flag hdr s)"
    by (auto simp: handle_SYNACK_def Let_def dest!: same_id_closeWithError intro!: with_payload_same
        intro: same_id_trans split: option.split)
  moreover have "handled_same s (handle_FIN flag hdr s)"
    by (simp add: handle_FIN_def Let_def split: option.split)
  moreover have "handled_same s (handle_Waste flag hdr s)" "handled_same s (handle_Alert flag hdr s)"
    "handled_same s (handle_UpdatePaddingScheme e flag hdr s)" "handled_same s (handle_ServerSettings flag hdr s)"
    by (auto simp: handle_Waste_def handle_Alert_def handle_UpdatePaddingScheme_def handle_ServerSettings_def
        intro!: with_payload_same split: option.split)
  moreover have "handled_same s (handle_Settings flag hdr s)"
    by (auto simp: handle_Settings_def Let_def dest!: same_id_settings intro!: with_payload_same
        split: option.split; meson same_id_trans)
  moreover have "handled_same s (handle_HeartRequest flag hdr s)"
    by (auto simp: handle_HeartRequest_def dest!: same_id_writeControlFrame split: option.split)
  ultimately show ?thesis by (simp add: handle_frame_def Let_def)
qed

lemma recv_step_same: "recv_step e r = Ret r' \<Longrightarrow> same_id (rv_sess r) (rv_sess r')"
proof (cases "rv_pc r")
  case (RHandle hdr)
  assume "recv_step e r = Ret r'"
  then show ?thesis using RHandle handle_frame_same [of "rv_sess r" e "rv_flag r" hdr]
    by (auto simp: recv_step_def Let_def recv_return_def handled_sess_def
        intro: same_id_trans [OF _ same_id_Session_Close] split: option.splits handled.splits)
next
  case RHeader
  assume "recv_step e r = Ret r'"
  then show ?thesis using RHeader same_id_trans [OF _ same_id_Session_Close]
    by (auto simp: recv_step_def Let_def recv_return_def s_ReadFull_def split: prod.splits sum.splits)
qed (auto simp: recv_step_def Let_def recv_pushed_def split: if_splits sum.splits prod.splits)

lemma stream_op_same:
  "Stream_Read n ref s = Ret (rr, s') \<Longrightarrow> same_id s s'"
  "Stream_Write b ref s = Some (rw, s') \<Longrightarrow> same_id s s'"
  "HandshakeSuccess ref s = Some (re, s') \<Longrightarrow> same_id s s'"
  "HandshakeFailure etext err ref s = Some (re, s') \<Longrightarrow> same_id s s'"
  "Stream_SetReadDeadline now t ref s = Ret (re, s') \<Longrightarrow> same_id s s'"
  "Stream_SetWriteDeadline now t ref s = Ret (re, s') \<Longrightarrow> same_id s s'"
  by (auto simp: Stream_Read_def Stream_Write_def HandshakeSuccess_def HandshakeFailure_def Let_def
      Stream_SetReadDeadline_def Stream_SetWriteDeadline_def
      dest!: same_id_writeControlFrame writeDataFrame_changes
      split: outcome.splits prod.splits if_splits option.splits intro: same_id_write_changes)

lemma sys_step_same: "sys_step e r r' \<Longrightarrow> same_id (rv_sess r) (rv_sess r')"
proof (induction rule: sys_step.induct)
  case (sy_recv r r')
  then show ?case by (rule recv_step_same)
next
  case (sy_token r ref b p)
  then show ?case by (simp add: recv_pushed_def split: sum.split prod.split)
next
  case (sy_timeout r w)
  then show ?case by (simp add: watch_timeout_def same_id_Session_Close)
qed (auto simp: Stream_Close_def SetDieHook_def same_id_Session_Close
      dest: same_id_OpenStream same_id_closeWithError stream_op_same)

end
