(* ===== verification/ClientInv.thy ===== *)
theory ClientInv
  imports ClientPool
begin

text \<open>
  The client's pool: it holds only open sessions, each under its own key, a session handed out
  leaves it, and the cleanup closes expired sessions only and keeps a minimum of them.
\<close>

section \<open>The pool as a map\<close>

definition pool :: "'l skiplist \<Rightarrow> 'l Client \<Rightarrow> u64 \<rightharpoonup> nat" where
  "pool sl c = map_of (sl_entries sl (cl_idle c))"

lemma skiplist_entries:
  assumes "skiplist_laws sl"
  shows "sorted_wrt (<) (map fst (sl_entries sl l))" "distinct (map fst (sl_entries sl l))"
    "map_of (sl_entries sl (sl_Insert sl k v l)) = (map_of (sl_entries sl l))(k \<mapsto> v)"
    "map_of (sl_entries sl (sl_Remove sl k l)) = (map_of (sl_entries sl l))(k := None)"
    "sl_entries sl (sl_new sl) = []"
proof -
  show s: "sorted_wrt (<) (map fst (sl_entries sl l))" using assms by (simp add: skiplist_laws_def)
  then show "distinct (map fst (sl_entries sl l))" by (simp add: strict_sorted_iff)
qed (use assms in \<open>simp_all add: skiplist_laws_def\<close>)

lemma pool_entry:
  "skiplist_laws sl \<Longrightarrow> (k, i) \<in> set (sl_entries sl (cl_idle c)) \<longleftrightarrow> pool sl c k = Some i"
  unfolding pool_def using skiplist_entries(2) by (metis map_of_eq_Some_iff)

lemma pool_size: "skiplist_laws sl \<Longrightarrow> length (sl_entries sl (cl_idle c)) = card (dom (pool sl c))"
  unfolding pool_def
  by (metis (no_types) distinct_card dom_map_of_conv_image_fst length_map list.set_map skiplist_entries(2))

text \<open>Which fields of the client an operation leaves alone.\<close>

lemma set_sess_simps [simp]:
  "cl_idle (set_sess i s c) = cl_idle c" "cl_sessions (set_sess i s c) = cl_sessions c"
  "cl_counter (set_sess i s c) = cl_counter c" "length (cl_objs (set_sess i s c)) = length (cl_objs c)"
  "cl_die (set_sess i s c) = cl_die c" "cl_minIdle (set_sess i s c) = cl_minIdle c"
  "pool sl (set_sess i s c) = pool sl c"
  by (simp_all add: set_sess_def pool_def)

lemma sess_set_sess: "i < length (cl_objs c) \<Longrightarrow> sess (set_sess i s c) j = (if j = i then s else sess c j)"
  by (simp add: set_sess_def)

lemma session_hook_simps [simp]:
  "cl_objs (session_hook sl i c) = cl_objs c" "cl_counter (session_hook sl i c) = cl_counter c"
  "cl_die (session_hook sl i c) = cl_die c"
  "cl_sessions (session_hook sl i c) = AList.delete (s_seq (sess c i)) (cl_sessions c)"
  by (simp_all add: session_hook_def)

lemma pool_session_hook:
  "skiplist_laws sl \<Longrightarrow> pool sl (session_hook sl i c) = (pool sl c)(MaxUint64 - s_seq (sess c i) := None)"
  by (simp add: session_hook_def pool_def skiplist_entries(4))

section \<open>The invariant\<close>

text \<open>The number the \<open>i\<close>-th session of a client gets.\<close>

definition seq_of :: "nat \<Rightarrow> u64" where
  "seq_of i = of_nat (Suc i)"

lemma unat_seq_of: "Suc i < 2 ^ 64 \<Longrightarrow> unat (seq_of i) = Suc i"
  unfolding seq_of_def by (rule unat_of_nat_lt) simp

lemma seq_of_inj: "seq_of i = seq_of j \<Longrightarrow> Suc i < 2 ^ 64 \<Longrightarrow> Suc j < 2 ^ 64 \<Longrightarrow> i = j"
  by (metis unat_seq_of Suc_inject)

lemma seq_of_less: "i < j \<Longrightarrow> Suc j < 2 ^ 64 \<Longrightarrow> seq_of i < seq_of j"
  by (subst word_less_nat_alt) (subst unat_seq_of, linarith, subst unat_seq_of, assumption, simp)

definition client_inv :: "'l skiplist \<Rightarrow> 'l Client \<Rightarrow> bool" where
  "client_inv sl c \<longleftrightarrow>
     (\<forall>k i. pool sl c k = Some i \<longrightarrow>
        i < length (cl_objs c) \<and> k = MaxUint64 - s_seq (sess c i) \<and> \<not> s_die (sess c i)) \<and>
     (\<forall>(q, i) \<in> set (cl_sessions c). i < length (cl_objs c) \<and> q = s_seq (sess c i)) \<and>
     distinct (map fst (cl_sessions c)) \<and>
     (\<forall>i < length (cl_objs c). s_seq (sess c i) = seq_of i) \<and>
     cl_counter c = of_nat (length (cl_objs c)) \<and> Suc (length (cl_objs c)) < 2 ^ 64"

lemma client_invD:
  assumes "client_inv sl c"
  shows "pool sl c k = Some i \<Longrightarrow> i < length (cl_objs c)"
    "pool sl c k = Some i \<Longrightarrow> k = MaxUint64 - s_seq (sess c i)"
    "pool sl c k = Some i \<Longrightarrow> \<not> s_die (sess c i)"
    "(q, i) \<in> set (cl_sessions c) \<Longrightarrow> i < length (cl_objs c) \<and> q = s_seq (sess c i)"
    "i < length (cl_objs c) \<Longrightarrow> s_seq (sess c i) = seq_of i"
  using assms unfolding client_inv_def by blast+

lemma seq_inj:
  assumes "client_inv sl c" and "i < length (cl_objs c)" and "j < length (cl_objs c)"
    and "s_seq (sess c i) = s_seq (sess c j)"
  shows "i = j"
proof -
  have "seq_of i = seq_of j" using assms(4) client_invD(5) [OF assms(1)] assms(2,3) by metis
  moreover have "Suc i < 2 ^ 64" "Suc j < 2 ^ 64" using assms(1-3) by (auto simp: client_inv_def)
  ultimately show ?thesis by (rule seq_of_inj)
qed

text \<open>Replacing a session by a later state of itself, with its pool entry gone if it has died.\<close>

lemma client_inv_update:
  assumes "client_inv sl c" and "skiplist_laws sl" and "i < length (cl_objs c)"
    and "s_seq s = s_seq (sess c i)" and "length (cl_objs c') = length (cl_objs c)"
    and "\<And>j. j < length (cl_objs c) \<Longrightarrow> s_seq (sess c' j) = s_seq (sess c j)"
    and "\<And>j. j < length (cl_objs c) \<Longrightarrow> j \<noteq> i \<Longrightarrow> s_die (sess c' j) = s_die (sess c j)"
    and "pool sl c' = pool sl c \<and> \<not> s_die (sess c' i) \<or>
         pool sl c' = (pool sl c)(MaxUint64 - s_seq (sess c i) := None) \<or>
         pool sl c' = (pool sl c)(MaxUint64 - s_seq (sess c i) \<mapsto> i) \<and> \<not> s_die (sess c' i) \<or>
         pool sl c' = pool sl c \<and> s_die (sess c i)"
    and "set (cl_sessions c') \<subseteq> set (cl_sessions c)" and "distinct (map fst (cl_sessions c'))"
    and "cl_counter c' = cl_counter c"
  shows "client_inv sl c'"
proof -
  note inv = client_invD [OF assms(1)]
  have "j < length (cl_objs c') \<and> k = MaxUint64 - s_seq (sess c' j) \<and> \<not> s_die (sess c' j)"
    if p: "pool sl c' k = Some j" for k j
  proof (cases "j = i \<and> pool sl c k \<noteq> Some j")
    case True
    then have "pool sl c' = (pool sl c)(MaxUint64 - s_seq (sess c i) \<mapsto> i) \<and> \<not> s_die (sess c' i)"
      using assms(8) p by (auto split: if_splits)
    then show ?thesis using True p assms(3,5,6) by (auto split: if_splits)
  next
    case False
    have j: "pool sl c k = Some j"
      using False p assms(8) by (auto split: if_splits)
    have len: "j < length (cl_objs c)" and key: "k = MaxUint64 - s_seq (sess c j)" and live: "\<not> s_die (sess c j)"
      using inv(1-3) [OF j] by auto
    have "\<not> s_die (sess c' j)"
    proof (cases "j = i")
      case True
      then show ?thesis using assms(8) p key live by (auto split: if_splits)
    next
      case False
      then show ?thesis using assms(7) [OF len False] live by simp
    qed
    then show ?thesis using len key assms(5,6) by simp
  qed
  moreover have "\<forall>(q, j) \<in> set (cl_sessions c'). j < length (cl_objs c') \<and> q = s_seq (sess c' j)"
    using inv(4) assms(5,6,9) by fastforce
  moreover have "\<forall>j < length (cl_objs c'). s_seq (sess c' j) = seq_of j" using inv(5) assms(5,6) by simp
  moreover have "cl_counter c' = of_nat (length (cl_objs c'))" "Suc (length (cl_objs c')) < 2 ^ 64"
    using assms(1,5,11) by (simp_all add: client_inv_def)
  ultimately show ?thesis using assms(10) unfolding client_inv_def by blast
qed

section \<open>The operations keep it\<close>

lemma client_inv_same:
  assumes "client_inv sl c" and "length (cl_objs c') = length (cl_objs c)"
    and "\<And>j. j < length (cl_objs c) \<Longrightarrow> s_seq (sess c' j) = s_seq (sess c j) \<and> s_die (sess c' j) = s_die (sess c j)"
    and "cl_sessions c' = cl_sessions c" and "cl_counter c' = cl_counter c"
    and "\<And>k i. pool sl c' k = Some i \<Longrightarrow> pool sl c k = Some i \<or>
           i < length (cl_objs c) \<and> k = MaxUint64 - s_seq (sess c i) \<and> \<not> s_die (sess c i)"
  shows "client_inv sl c'"
proof -
  note inv = client_invD [OF assms(1)]
  have "\<forall>k i. pool sl c' k = Some i \<longrightarrow>
      i < length (cl_objs c') \<and> k = MaxUint64 - s_seq (sess c' i) \<and> \<not> s_die (sess c' i)"
    using inv(1-3) assms(2,3,6) by metis
  moreover have "\<forall>(q, j) \<in> set (cl_sessions c'). j < length (cl_objs c') \<and> q = s_seq (sess c' j)"
    using inv(4) assms(2,3,4) by fastforce
  moreover have "\<forall>j < length (cl_objs c'). s_seq (sess c' j) = seq_of j" using inv(5) assms(2,3) by simp
  moreover have "cl_counter c' = of_nat (length (cl_objs c'))" "Suc (length (cl_objs c')) < 2 ^ 64"
    "distinct (map fst (cl_sessions c'))"
    using assms(1,2,4,5) by (simp_all add: client_inv_def)
  ultimately show ?thesis unfolding client_inv_def by blast
qed

lemma cl_fields_pool [simp]:
  "pool sl (c\<lparr>cl_objs := x\<rparr>) = pool sl c" "pool sl (c\<lparr>cl_sessions := y\<rparr>) = pool sl c"
  "pool sl (c\<lparr>cl_die := d\<rparr>) = pool sl c" "pool sl (c\<lparr>cl_padding := p\<rparr>) = pool sl c"
  "pool sl (c\<lparr>cl_counter := q\<rparr>) = pool sl c"
  by (simp_all add: pool_def)

lemma share_padding_simps [simp]:
  "length (cl_objs (share_padding p c)) = length (cl_objs c)" "pool sl (share_padding p c) = pool sl c"
  "cl_sessions (share_padding p c) = cl_sessions c" "cl_counter (share_padding p c) = cl_counter c"
  "j < length (cl_objs c) \<Longrightarrow> sess (share_padding p c) j = (sess c j)\<lparr>s_padding := p\<rparr>"
  by (simp_all add: share_padding_def)

lemma client_inv_share: "client_inv sl c \<Longrightarrow> client_inv sl (share_padding p c)"
  by (rule client_inv_same [of sl c]) simp_all

lemma client_inv_touch:
  assumes "client_inv sl c" and "i < length (cl_objs c)"
  shows "client_inv sl (set_sess i ((sess c i)\<lparr>s_idleSince := now\<rparr>) c)"
  by (rule client_inv_same [OF assms(1)]) (simp_all add: sess_set_sess assms(2))

lemma delete_sub: "set (AList.delete k al) \<subseteq> set al" "distinct (map fst al) \<Longrightarrow> distinct (map fst (AList.delete k al))"
  using distinct_delete [of al k] by (auto simp: AList.delete_eq)

lemma client_inv_hook:
  assumes "client_inv sl c" and "skiplist_laws sl" and "i < length (cl_objs c)"
    and "length (cl_objs c') = length (cl_objs c)" and "\<And>j. j < length (cl_objs c) \<Longrightarrow> j \<noteq> i \<Longrightarrow> sess c' j = sess c j"
    and "s_seq (sess c' i) = s_seq (sess c i)" and "cl_idle c' = cl_idle c"
    and "cl_sessions c' = cl_sessions c" and "cl_counter c' = cl_counter c"
  shows "client_inv sl (session_hook sl i c')"
proof (rule client_inv_update [OF assms(1-3), of "sess c i"])
  have "pool sl c' = pool sl c" using assms(7) by (simp add: pool_def)
  then show "pool sl (session_hook sl i c') = pool sl c \<and> \<not> s_die (sess (session_hook sl i c') i) \<or>
      pool sl (session_hook sl i c') = (pool sl c)(MaxUint64 - s_seq (sess c i) := None) \<or>
      pool sl (session_hook sl i c') = (pool sl c)(MaxUint64 - s_seq (sess c i) \<mapsto> i) \<and>
        \<not> s_die (sess (session_hook sl i c') i) \<or>
      pool sl (session_hook sl i c') = pool sl c \<and> s_die (sess c i)"
    using pool_session_hook [OF assms(2), of i c'] assms(6) by simp
  show "distinct (map fst (cl_sessions (session_hook sl i c')))"
  proof -
    have "distinct (map fst (cl_sessions c))" using assms(1) by (simp add: client_inv_def)
    from delete_sub(2) [OF this] show ?thesis using assms(8) by simp
  qed
  show "set (cl_sessions (session_hook sl i c')) \<subseteq> set (cl_sessions c)"
    using assms(8) delete_sub(1) by simp
qed (use assms in \<open>auto split: if_splits\<close>, metis)

lemma client_inv_dead:
  assumes "client_inv sl c" and "i < length (cl_objs c)" and "s_die (sess c i)"
    and "s_seq s = s_seq (sess c i)" and "s_die s"
  shows "client_inv sl (set_sess i s c)"
  by (rule client_inv_same [OF assms(1)]) (use assms in \<open>auto simp: sess_set_sess\<close>)

lemma close_session_inv:
  assumes "client_inv sl c" and "skiplist_laws sl" and "i < length (cl_objs c)"
  shows "client_inv sl (close_session sl i c)"
proof (cases "s_die (sess c i)")
  case True
  then show ?thesis
    using client_inv_dead [OF assms(1,3) True, of "snd (Session_Close (sess c i))"]
      same_id_Session_Close [of "sess c i"]
    by (simp add: close_session_def Let_def same_id_def)
next
  case False
  have "client_inv sl (session_hook sl i (set_sess i (snd (Session_Close (sess c i))) c))"
    by (rule client_inv_hook [OF assms])
      (use same_id_Session_Close [of "sess c i"] in \<open>simp_all add: sess_set_sess assms(3) same_id_def\<close>)
  then show ?thesis using False by (simp add: close_session_def Let_def)
qed

lemma close_session_length [simp]: "length (cl_objs (close_session sl i c)) = length (cl_objs c)"
  by (simp add: close_session_def Let_def)

lemma close_sessions_inv:
  "client_inv sl c \<Longrightarrow> skiplist_laws sl \<Longrightarrow> \<forall>i \<in> set is. i < length (cl_objs c) \<Longrightarrow>
   client_inv sl (foldl (\<lambda>c' i. close_session sl i c') c is)"
  by (induction "is" arbitrary: c) (simp_all add: close_session_inv)

lemma client_inv_remove:
  assumes "client_inv sl c" and "skiplist_laws sl"
  shows "client_inv sl (c\<lparr>cl_idle := sl_Remove sl k (cl_idle c)\<rparr>)"
proof -
  have p: "pool sl (c\<lparr>cl_idle := sl_Remove sl k (cl_idle c)\<rparr>) = (pool sl c)(k := None)"
    using skiplist_entries(4) [OF assms(2)] by (simp add: pool_def)
  show ?thesis by (rule client_inv_same [OF assms(1)]) (simp_all add: p split: if_splits)
qed

lemma client_inv_insert:
  assumes "client_inv sl c" and "skiplist_laws sl" and "i < length (cl_objs c)" and "\<not> s_die (sess c i)"
  shows "client_inv sl (c\<lparr>cl_idle := sl_Insert sl (MaxUint64 - s_seq (sess c i)) i (cl_idle c)\<rparr>)"
proof -
  have p: "pool sl (c\<lparr>cl_idle := sl_Insert sl k i (cl_idle c)\<rparr>) = (pool sl c)(k \<mapsto> i)" for k
    using skiplist_entries(3) [OF assms(2)] by (simp add: pool_def)
  show ?thesis by (rule client_inv_same [OF assms(1)]) (use assms(3,4) in \<open>auto simp: p split: if_splits\<close>)
qed

lemma stream_hook_inv:
  assumes "client_inv sl c" and "skiplist_laws sl" and "i < length (cl_objs c)"
  shows "client_inv sl (stream_hook sl now i c)"
proof (cases "IsClosed (sess c i) \<or> cl_die c")
  case True
  then show ?thesis using assms close_session_inv by (auto simp: stream_hook_def)
next
  case False
  let ?c1 = "set_sess i ((sess c i)\<lparr>s_idleSince := now\<rparr>) c"
  have "client_inv sl ?c1" "i < length (cl_objs ?c1)" "\<not> s_die (sess ?c1 i)" "s_seq (sess ?c1 i) = s_seq (sess c i)"
    using client_inv_touch [OF assms(1,3)] assms(3) False by (simp_all add: sess_set_sess IsClosed_def)
  then show ?thesis using client_inv_insert [of sl ?c1 i] assms(2) False by (simp add: stream_hook_def)
qed

lemma stream_hook_length [simp]: "length (cl_objs (stream_hook sl now i c)) = length (cl_objs c)"
  by (simp add: stream_hook_def Let_def)

lemma stream_hook_dead: "s_die (sess c i) \<Longrightarrow> stream_hook sl now i c = c"
  by (simp add: stream_hook_def IsClosed_def)

lemma client_update_inv:
  assumes "client_inv sl c" and "skiplist_laws sl" and "i < length (cl_objs c)" and "same_id (sess c i) (rv_sess v)"
  shows "client_inv sl (client_update sl now i v c)"
proof -
  let ?c1 = "c\<lparr>cl_objs := (cl_objs c)[i := v]\<rparr>"
  let ?c2 = "if filter is_stream_hook (drop (length (s_events (sess c i))) (s_events (rv_sess v))) \<noteq> []
      then stream_hook sl now i ?c1 else ?c1"
  let ?c3 = "if s_padding (rv_sess v) \<noteq> s_padding (sess c i) then share_padding (s_padding (rv_sess v)) ?c2 else ?c2"
  have sess1: "sess ?c1 j = (if j = i then rv_sess v else sess c j)" for j using assms(3) by simp
  have seq: "s_seq (rv_sess v) = s_seq (sess c i)" "s_die (sess c i) \<Longrightarrow> s_die (rv_sess v)"
    using assms(4) by (simp_all add: same_id_def)
  show ?thesis
  proof (cases "s_die (rv_sess v) = s_die (sess c i)")
    case True
    have "client_inv sl ?c1" by (rule client_inv_same [OF assms(1)]) (simp_all add: nth_list_update seq True assms(3))
    then have "client_inv sl ?c2" using stream_hook_inv [OF _ assms(2), of ?c1 i now] assms(3) by simp
    then have "client_inv sl ?c3"
      by (cases "s_padding (rv_sess v) \<noteq> s_padding (sess c i)") (simp_all only: if_True if_False simp_thms client_inv_share)
    then show ?thesis using True by (simp add: client_update_def Let_def)
  next
    case False
    then have dead: "s_die (rv_sess v)" "\<not> s_die (sess c i)" using seq(2) by auto
    have "?c2 = ?c1" using stream_hook_dead [of ?c1 i sl now] dead(1) sess1 by simp
    then have upd: "client_update sl now i v c = session_hook sl i
        (if s_padding (rv_sess v) \<noteq> s_padding (sess c i) then share_padding (s_padding (rv_sess v)) ?c1 else ?c1)"
      using dead by (simp add: client_update_def Let_def)
    have "client_inv sl (session_hook sl i ?c1)"
      by (rule client_inv_hook [OF assms(1-3)]) (simp_all add: nth_list_update seq assms(3))
    moreover have "session_hook sl i (share_padding p ?c1) = share_padding p (session_hook sl i ?c1)" for p
      using assms(3) by (simp add: session_hook_def share_padding_def)
    ultimately show ?thesis using upd by (simp add: client_inv_share)
  qed
qed

lemma client_update_length [simp]: "length (cl_objs (client_update sl now i v c)) = length (cl_objs c)"
  by (simp add: client_update_def Let_def)

lemma getIdleSession_inv:
  assumes "getIdleSession sl c = (x, c')" and "client_inv sl c" and "skiplist_laws sl"
  shows "client_inv sl c' \<and> cl_objs c' = cl_objs c \<and> (\<forall>i. x = Some i \<longrightarrow> i < length (cl_objs c))"
proof (cases "sl_entries sl (cl_idle c)")
  case Nil
  then show ?thesis using assms(1,2) by (auto simp: getIdleSession_def)
next
  case (Cons e es)
  obtain k i where e: "e = (k, i)" by (cases e)
  have "pool sl c k = Some i" using Cons e by (simp add: pool_def)
  then show ?thesis
    using assms(1) Cons e client_inv_remove [OF assms(2,3), of k] client_invD(1) [OF assms(2)]
    by (auto simp: getIdleSession_def)
qed

lemma open_on_inv:
  assumes "open_on sl i c = Some (x, c')" and "client_inv sl c" and "skiplist_laws sl" and "i < length (cl_objs c)"
  shows "client_inv sl c'"
proof -
  obtain y s' where o: "OpenStream (sess c i) = Some (y, s')" and same: "same_id (sess c i) s'"
    using assms(1) same_id_OpenStream by (auto simp: open_on_def split: option.splits)
  show ?thesis
  proof (cases y)
    case (Inl err)
    let ?v = "(cl_objs c ! i)\<lparr>rv_sess := s'\<rparr>"
    have "client_inv sl (client_update sl 0 i ?v c)"
      using client_update_inv [OF assms(2,3,4), of ?v 0] same by simp
    from close_session_inv [OF this assms(3), of i] show ?thesis using assms(1,4) o Inl by (auto simp: open_on_def)
  next
    case (Inr ref)
    have "\<not> s_die s'" using o Inr
      by (auto simp: OpenStream_def Let_def split: if_splits option.splits prod.splits)
    then have "s_die s' = s_die (sess c i)" "s_seq s' = s_seq (sess c i)" using same by (auto simp: same_id_def)
    then have "client_inv sl (set_sess i (set_obj ref st s') c)" for st
      by (intro client_inv_same [OF assms(2)]) (simp_all add: sess_set_sess assms(4), simp_all add: set_obj_def)
    then show ?thesis using assms(1) o Inr by (auto simp: open_on_def)
  qed
qed

lemma Run_client_same: "Run_client e s = Some (b, s') \<Longrightarrow> same_id s s'"
  by (auto simp: Run_client_def Let_def split: option.splits dest!: same_id_writeControlFrame)
     (simp add: same_id_def)

lemma createSession_inv:
  assumes "createSession sl e rg dial c = Some (x, c')" and "client_inv sl c" and "skiplist_laws sl"
    and "Suc (Suc (length (cl_objs c))) < 2 ^ 64"
  shows "client_inv sl c' \<and> (\<forall>i. x = Inr i \<longrightarrow> i = length (cl_objs c) \<and> length (cl_objs c') = Suc i)"
proof (cases dial)
  case (Inl err)
  then show ?thesis using assms(1,2) by (auto simp: createSession_def)
next
  case (Inr underlying)
  let ?i = "length (cl_objs c)" and ?seq = "cl_counter c + 1"
  let ?s = "(NewClientSession underlying (cl_padding c) rg)\<lparr>s_seq := ?seq, s_dieHook := Some ?i\<rparr>"
  let ?c1 = "c\<lparr>cl_counter := ?seq, cl_objs := cl_objs c @ [recv_start ?s],
      cl_sessions := AList.update ?seq ?i (cl_sessions c)\<rparr>"
  note inv = client_invD [OF assms(2)]
  have seq: "?seq = seq_of ?i" using assms(2) by (simp add: client_inv_def seq_of_def)
  have sess1: "sess ?c1 j = (if j = ?i then ?s else sess c j)" if "j \<le> ?i" for j
    using that by (auto simp: nth_append recv_start_def)
  have "\<forall>k j. pool sl ?c1 k = Some j \<longrightarrow>
      j < length (cl_objs ?c1) \<and> k = MaxUint64 - s_seq (sess ?c1 j) \<and> \<not> s_die (sess ?c1 j)"
  proof (intro allI impI)
    fix k j
    assume "pool sl ?c1 k = Some j"
    then have j: "pool sl c k = Some j" by (simp add: pool_def)
    then show "j < length (cl_objs ?c1) \<and> k = MaxUint64 - s_seq (sess ?c1 j) \<and> \<not> s_die (sess ?c1 j)"
      using inv(1-3) [OF j] sess1 [of j] by auto
  qed
  moreover have "\<forall>(q, j) \<in> set (cl_sessions ?c1). j < length (cl_objs ?c1) \<and> q = s_seq (sess ?c1 j)"
    using inv(4) sess1 by (fastforce dest!: AList_update_set)
  moreover have "\<forall>j < length (cl_objs ?c1). s_seq (sess ?c1 j) = seq_of j"
    using inv(5) sess1 seq by (auto simp: less_Suc_eq recv_start_def)
  moreover have "distinct (map fst (cl_sessions ?c1))" "cl_counter ?c1 = of_nat (length (cl_objs ?c1))"
    using assms(2) by (simp_all add: client_inv_def distinct_update)
  moreover have "Suc (length (cl_objs ?c1)) < 2 ^ 64" using assms(4) by simp
  ultimately have inv1: "client_inv sl ?c1" unfolding client_inv_def by blast
  obtain b s' where run: "Run_client e ?s = Some (b, s')"
    using assms(1) Inr by (auto simp: createSession_def Let_def split: option.splits)
  have "client_inv sl (client_update sl 0 ?i (recv_start s') ?c1)"
    using client_update_inv [OF inv1 assms(3), of ?i "recv_start s'" 0] Run_client_same [OF run] sess1 [of ?i]
    by (simp add: recv_start_def)
  moreover have "x = Inr ?i" "c' = client_update sl 0 ?i (recv_start s') ?c1"
    using assms(1) Inr run by (simp_all add: createSession_def Let_def)
  ultimately show ?thesis by simp
qed

lemma CreateStream_inv:
  assumes "CreateStream sl e rg dial c = Some (x, c')" and "client_inv sl c" and "skiplist_laws sl"
    and "Suc (Suc (length (cl_objs c))) < 2 ^ 64"
  shows "client_inv sl c'"
proof (cases "cl_die c")
  case True
  then show ?thesis using assms(1,2) by (simp add: CreateStream_def)
next
  case False
  obtain y c1 where g: "getIdleSession sl c = (y, c1)" by fastforce
  have c1: "client_inv sl c1" "cl_objs c1 = cl_objs c" "\<And>i. y = Some i \<Longrightarrow> i < length (cl_objs c)"
    using getIdleSession_inv [OF g assms(2,3)] by auto
  show ?thesis
  proof (cases y)
    case (Some i)
    then show ?thesis using assms(1) False g open_on_inv [OF _ c1(1) assms(3)] c1(2,3) by (simp add: CreateStream_def)
  next
    case None
    obtain z c2 where cr: "createSession sl e rg dial c1 = Some (z, c2)"
      using assms(1) False g None by (auto simp: CreateStream_def split: option.splits)
    have c2: "client_inv sl c2" "\<And>i. z = Inr i \<Longrightarrow> i < length (cl_objs c2)"
      using createSession_inv [OF cr c1(1) assms(3)] assms(4) c1(2) by auto
    show ?thesis
    proof (cases z)
      case (Inl err)
      then show ?thesis using assms(1) False g None cr c2(1) by (auto simp: CreateStream_def)
    next
      case (Inr i)
      then show ?thesis using assms(1) False g None cr open_on_inv [OF _ c2(1) assms(3)] c2(2)
        by (simp add: CreateStream_def)
    qed
  qed
qed

section \<open>The cleanup loop\<close>

text \<open>
  What the loop leaves: the entries \<open>closed\<close> are taken out of the pool; the sessions of the
  others that had expired have a new \<open>idleSince\<close>.
\<close>

definition cleaned ::
  "'l skiplist \<Rightarrow> int \<Rightarrow> int \<Rightarrow> (u64 \<times> nat) list \<Rightarrow> (u64 \<times> nat) list \<Rightarrow> 'l Client \<Rightarrow> 'l Client \<Rightarrow> bool" where
  "cleaned sl expTime now es closed c c' \<longleftrightarrow>
     pool sl c' = (\<lambda>k. if k \<in> fst ` set closed then None else pool sl c k) \<and>
     length (cl_objs c') = length (cl_objs c) \<and> cl_sessions c' = cl_sessions c \<and>
     cl_counter c' = cl_counter c \<and> cl_minIdle c' = cl_minIdle c \<and>
     (\<forall>j. sess c' j =
        (if \<exists>k. (k, j) \<in> set es \<and> (k, j) \<notin> set closed \<and> s_idleSince (sess c j) < expTime
         then (sess c j)\<lparr>s_idleSince := now\<rparr> else sess c j))"

text \<open>One entry more: taken out of the pool, or kept.\<close>

lemma cleaned_out:
  assumes "skiplist_laws sl" and "\<And>k. (k, i) \<notin> set es" and "set closed \<subseteq> set es"
    and "cleaned sl expTime now es closed (c\<lparr>cl_idle := sl_Remove sl key (cl_idle c)\<rparr>) c'"
  shows "cleaned sl expTime now ((key, i) # es) ((key, i) # closed) c c'"
proof -
  have "pool sl (c\<lparr>cl_idle := sl_Remove sl key (cl_idle c)\<rparr>) = (pool sl c)(key := None)"
    using skiplist_entries(4) [OF assms(1)] by (simp add: pool_def)
  then show ?thesis using assms(2-4) by (auto simp: cleaned_def fun_eq_iff)
qed

definition freshened :: "int \<Rightarrow> int \<Rightarrow> nat \<Rightarrow> 'l Client \<Rightarrow> 'l Client" where
  "freshened expTime now i c =
     (if s_idleSince (sess c i) < expTime then set_sess i ((sess c i)\<lparr>s_idleSince := now\<rparr>) c else c)"

lemma freshened_fields [simp]:
  "length (cl_objs (freshened expTime now i c)) = length (cl_objs c)"
  "cl_minIdle (freshened expTime now i c) = cl_minIdle c" "pool sl (freshened expTime now i c) = pool sl c"
  "cl_sessions (freshened expTime now i c) = cl_sessions c" "cl_counter (freshened expTime now i c) = cl_counter c"
  by (simp_all add: freshened_def)

lemma sess_freshened: "i < length (cl_objs c) \<Longrightarrow> sess (freshened expTime now i c) j =
    (if j = i \<and> s_idleSince (sess c i) < expTime then (sess c i)\<lparr>s_idleSince := now\<rparr> else sess c j)"
  by (simp add: freshened_def sess_set_sess)

lemma cleaned_kept:
  assumes "i < length (cl_objs c)" and "\<And>k. (k, i) \<notin> set es" and "set closed \<subseteq> set es"
    and "cleaned sl expTime now es closed (freshened expTime now i c) c'"
  shows "cleaned sl expTime now ((key, i) # es) closed c c'"
  unfolding cleaned_def
proof (intro conjI allI)
  fix j
  show "sess c' j = (if \<exists>k. (k, j) \<in> set ((key, i) # es) \<and> (k, j) \<notin> set closed \<and> s_idleSince (sess c j) < expTime
     then (sess c j)\<lparr>s_idleSince := now\<rparr> else sess c j)"
  proof (cases "j = i")
    case True
    then have "sess c' j = sess (freshened expTime now i c) j" "(key, j) \<notin> set closed"
      using assms(2-4) by (auto simp: cleaned_def)
    then show ?thesis using True assms(1) by (auto simp: sess_freshened)
  next
    case False
    then show ?thesis using assms(1,4) by (auto simp: cleaned_def sess_freshened)
  qed
qed (use assms(4) in \<open>simp_all add: cleaned_def cong: if_cong\<close>)

lemma cleanup_loop_cleaned:
  assumes "skiplist_laws sl" and "distinct (map snd es)" and "\<forall>(k, i) \<in> set es. i < length (cl_objs c)"
  shows "\<exists>closed c'. cleanup_loop sl expTime now es active toClose c = (toClose @ map snd closed, c') \<and>
           set closed \<subseteq> set es \<and> distinct closed \<and> cleaned sl expTime now es closed c c' \<and>
           (\<forall>(k, i) \<in> set closed. s_idleSince (sess c i) < expTime) \<and>
           (closed \<noteq> [] \<longrightarrow> cl_minIdle c \<le> active + int (length es - length closed))"
  using assms(2,3)
proof (induction es arbitrary: active toClose c)
  case Nil
  then show ?case
    by (intro exI [of _ "[]"] exI [of _ c]) (simp add: cleaned_def)
next
  case (Cons e es)
  obtain key i where e: "e = (key, i)" by (cases e)
  have es: "distinct (map snd es)" "i \<notin> snd ` set es" and i: "i < length (cl_objs c)"
    using Cons.prems e by auto
  then have notin: "(k, i) \<notin> set es" for k by force
  show ?case
  proof (cases "s_idleSince (sess c i) < expTime \<and> \<not> active < cl_minIdle c")
    case True
    let ?c = "c\<lparr>cl_idle := sl_Remove sl key (cl_idle c)\<rparr>"
    obtain closed c' where IH:
      "cleanup_loop sl expTime now es active (toClose @ [i]) ?c = ((toClose @ [i]) @ map snd closed, c')"
      "set closed \<subseteq> set es" "distinct closed" "cleaned sl expTime now es closed ?c c'"
      "\<forall>(k, i) \<in> set closed. s_idleSince (sess ?c i) < expTime"
      using Cons.IH [OF es(1), of ?c active "toClose @ [i]"] Cons.prems e by auto
    have "distinct ((key, i) # closed)" using IH(2,3) notin by auto
    then show ?thesis using IH(1,2,5) cleaned_out [OF assms(1) notin IH(2,4)] True e
      by (intro exI [of _ "(key, i) # closed"] exI [of _ c']) auto
  next
    case keep: False
    let ?c = "freshened expTime now i c"
    have loop: "cleanup_loop sl expTime now (e # es) active toClose c =
        cleanup_loop sl expTime now es (active + 1) toClose ?c"
      using keep e by (auto simp: freshened_def)
    obtain closed c' where IH:
      "cleanup_loop sl expTime now es (active + 1) toClose ?c = (toClose @ map snd closed, c')"
      "set closed \<subseteq> set es" "distinct closed" "cleaned sl expTime now es closed ?c c'"
      "\<forall>(k, i) \<in> set closed. s_idleSince (sess ?c i) < expTime"
      "closed \<noteq> [] \<longrightarrow> cl_minIdle ?c \<le> active + 1 + int (length es - length closed)"
      using Cons.IH [OF es(1), of ?c "active + 1" toClose] Cons.prems e by auto
    have "\<forall>(k, j) \<in> set closed. s_idleSince (sess c j) < expTime"
      using IH(2,5) notin i by (fastforce simp: sess_freshened split: if_splits)
    moreover have "length closed \<le> length es"
      using IH(2,3) by (metis card_mono distinct_card card_length le_trans List.finite_set)
    ultimately show ?thesis using IH(1-3,6) loop cleaned_kept [OF i notin IH(2,4)] e
      by (intro exI [of _ closed] exI [of _ c']) (auto simp: of_nat_diff)
  qed
qed

lemma cleaned_inv:
  assumes "client_inv sl c" and "cleaned sl expTime now es closed c c'"
  shows "client_inv sl c'"
proof (rule client_inv_same [OF assms(1)])
  show "s_seq (sess c' j) = s_seq (sess c j) \<and> s_die (sess c' j) = s_die (sess c j)" for j
    using assms(2) by (simp add: cleaned_def)
  show "pool sl c k = Some i \<or> i < length (cl_objs c) \<and> k = MaxUint64 - s_seq (sess c i) \<and> \<not> s_die (sess c i)"
    if "pool sl c' k = Some i" for k i
    using assms(2) that by (simp add: cleaned_def split: if_splits)
qed (use assms(2) in \<open>simp_all add: cleaned_def\<close>)

lemma close_session_sess:
  "i < length (cl_objs c) \<Longrightarrow>
   sess (close_session sl i c) j = (if j = i then snd (Session_Close (sess c i)) else sess c j)"
  by (simp add: close_session_def Let_def sess_set_sess)

lemma close_session_pool:
  assumes "skiplist_laws sl" and "i < length (cl_objs c)"
  shows "pool sl (close_session sl i c) =
    (if s_die (sess c i) then pool sl c else (pool sl c)(MaxUint64 - s_seq (sess c i) := None))"
  using same_id_Session_Close [of "sess c i"] pool_session_hook [OF assms(1)] assms(2)
  by (simp add: close_session_def Let_def sess_set_sess same_id_def)

lemma Session_Close_twice: "s_die s \<Longrightarrow> snd (Session_Close s) = s"
  by (simp add: Session_Close_def)

lemma close_sessions_sess:
  "\<forall>i \<in> set is. i < length (cl_objs c) \<Longrightarrow>
   sess (foldl (\<lambda>c' i. close_session sl i c') c is) j =
     (if j \<in> set is then snd (Session_Close (sess c j)) else sess c j)"
proof (induction "is" arbitrary: c)
  case (Cons i "is")
  then show ?case
    using Session_Close_conn(3) [of "sess c i"] Session_Close_twice [of "snd (Session_Close (sess c i))"]
    by (auto simp: close_session_sess)
qed simp

lemma close_sessions_pool:
  assumes "skiplist_laws sl"
  shows "\<forall>i \<in> set is. i < length (cl_objs c) \<and> pool sl c (MaxUint64 - s_seq (sess c i)) = None \<Longrightarrow>
   pool sl (foldl (\<lambda>c' i. close_session sl i c') c is) = pool sl c"
proof (induction "is" arbitrary: c)
  case (Cons i "is")
  let ?c = "close_session sl i c"
  have p: "pool sl ?c = pool sl c"
    using close_session_pool [OF assms, of i c] Cons.prems by (auto simp: fun_eq_iff)
  have "s_seq (sess ?c j) = s_seq (sess c j)" for j
    using close_session_sess [of i c sl j] Cons.prems same_id_Session_Close [of "sess c i"]
    by (auto simp: same_id_def)
  then have "pool sl (foldl (\<lambda>c' i. close_session sl i c') ?c is) = pool sl ?c"
    using Cons.prems p by (intro Cons.IH) auto
  then show ?case using p by simp
qed simp

lemma pool_entries_sound:
  assumes "client_inv sl c" and "skiplist_laws sl"
  shows "distinct (map snd (sl_entries sl (cl_idle c)))"
    "\<forall>(k, i) \<in> set (sl_entries sl (cl_idle c)). i < length (cl_objs c)"
proof -
  have entry: "pool sl c k = Some i" if "(k, i) \<in> set (sl_entries sl (cl_idle c))" for k i
    using pool_entry [OF assms(2), of k i c] that by simp
  show "\<forall>(k, i) \<in> set (sl_entries sl (cl_idle c)). i < length (cl_objs c)"
    using entry client_invD(1) [OF assms(1)] by auto
  have "inj_on snd (set (sl_entries sl (cl_idle c)))"
    using entry client_invD(2) [OF assms(1)] by (auto simp: inj_on_def) metis
  moreover have "distinct (sl_entries sl (cl_idle c))"
    using skiplist_entries(2) [OF assms(2)] by (simp add: distinct_map)
  ultimately show "distinct (map snd (sl_entries sl (cl_idle c)))" by (simp add: distinct_map)
qed

lemma idleCleanupExpTime_inv:
  assumes "client_inv sl c" and "skiplist_laws sl"
  shows "client_inv sl (idleCleanupExpTime sl expTime now c)"
proof -
  note es = pool_entries_sound [OF assms]
  obtain closed c' where l:
    "cleanup_loop sl expTime now (sl_entries sl (cl_idle c)) 0 [] c = (map snd closed, c')"
    "set closed \<subseteq> set (sl_entries sl (cl_idle c))" "cleaned sl expTime now (sl_entries sl (cl_idle c)) closed c c'"
    using cleanup_loop_cleaned [OF assms(2) es, of expTime now 0 "[]"] by auto
  have len: "length (cl_objs c') = length (cl_objs c)" using l(3) by (simp add: cleaned_def)
  have "\<forall>i \<in> set (map snd closed). i < length (cl_objs c')"
    using l(2) es(2) unfolding len by fastforce
  then show ?thesis
    using close_sessions_inv [OF cleaned_inv [OF assms(1) l(3)] assms(2)] l(1)
    by (simp add: idleCleanupExpTime_def)
qed

lemma Client_Close_inv:
  assumes "client_inv sl c" and "skiplist_laws sl"
  shows "client_inv sl (Client_Close sl c)"
proof -
  have "client_inv sl (c\<lparr>cl_die := True, cl_sessions := []\<rparr>)"
    using assms(1) unfolding client_inv_def cl_fields_pool
    by (elim conjE, intro conjI) simp_all
  then show ?thesis
    unfolding Client_Close_def using client_invD(4) [OF assms(1)]
    by (intro close_sessions_inv assms(2)) fastforce+
qed

section \<open>Everything a client does\<close>

inductive client_step :: "'l skiplist \<Rightarrow> env \<Rightarrow> 'l Client \<Rightarrow> 'l Client \<Rightarrow> bool" for sl e where
  cs_create: "CreateStream sl e rg dial c = Some (x, c') \<Longrightarrow> Suc (Suc (length (cl_objs c))) < 2 ^ 64 \<Longrightarrow>
     client_step sl e c c'"
| cs_session: "i < length (cl_objs c) \<Longrightarrow> sys_step e (cl_objs c ! i) v \<Longrightarrow>
     client_step sl e c (client_update sl now i v c)"
| cs_cleanup: "client_step sl e c (idleCleanup sl now c)"
| cs_close: "client_step sl e c (Client_Close sl c)"

inductive client_reach :: "'l skiplist \<Rightarrow> env \<Rightarrow> 'l Client \<Rightarrow> bool" for sl e where
  cr_new: "client_reach sl e (NewClient sl p interval timeout minIdle)"
| cr_step: "client_reach sl e c \<Longrightarrow> client_step sl e c c' \<Longrightarrow> client_reach sl e c'"

lemma client_step_inv: "client_step sl e c c' \<Longrightarrow> skiplist_laws sl \<Longrightarrow> client_inv sl c \<Longrightarrow> client_inv sl c'"
proof (induction rule: client_step.induct)
  case (cs_create rg dial c x c')
  then show ?case using CreateStream_inv by blast
next
  case (cs_session i c v now)
  then show ?case using client_update_inv sys_step_same by blast
next
  case (cs_cleanup c now)
  then show ?case by (simp add: idleCleanup_def idleCleanupExpTime_inv)
next
  case (cs_close c)
  then show ?case by (simp add: Client_Close_inv)
qed

lemma client_reach_inv: "client_reach sl e c \<Longrightarrow> skiplist_laws sl \<Longrightarrow> client_inv sl c"
proof (induction rule: client_reach.induct)
  case (cr_new p interval timeout minIdle)
  then show ?case using skiplist_entries(5) [of sl] by (simp add: client_inv_def NewClient_def pool_def)
next
  case (cr_step c c')
  then show ?case using client_step_inv by blast
qed

section \<open>Properties\<close>

lemma MaxUint64_minus_less: "MaxUint64 - a < MaxUint64 - b \<longleftrightarrow> b < (a :: u64)"
proof -
  have u: "unat (MaxUint64 - x) = 2 ^ 64 - 1 - unat x" for x
  proof -
    have "x \<le> MaxUint64" by (simp add: MaxUint64_def)
    then have "unat (MaxUint64 - x) = unat MaxUint64 - unat x" by (rule unat_sub)
    moreover have "unat MaxUint64 = 2 ^ 64 - 1" by (simp add: MaxUint64_def unsigned_minus_1_eq_mask mask_eq_exp_minus_1)
    ultimately show ?thesis by simp
  qed
  have "unat a < 2 ^ 64" "unat b < 2 ^ 64" using unat_less_pow [of a] unat_less_pow [of b] by simp_all
  then show ?thesis by (auto simp: word_less_nat_alt u)
qed


text \<open>What the whole cleanup leaves: \<open>closed\<close> are the entries it takes out and closes.\<close>

definition swept :: "'l skiplist \<Rightarrow> int \<Rightarrow> int \<Rightarrow> (u64 \<times> nat) list \<Rightarrow> 'l Client \<Rightarrow> 'l Client \<Rightarrow> bool" where
  "swept sl expTime now closed c c' \<longleftrightarrow>
     (\<forall>(k, i) \<in> set closed. pool sl c k = Some i \<and> s_idleSince (sess c i) < expTime) \<and>
     (closed \<noteq> [] \<longrightarrow> cl_minIdle c \<le> int (length (sl_entries sl (cl_idle c)) - length closed)) \<and>
     pool sl c' = (\<lambda>k. if k \<in> fst ` set closed then None else pool sl c k) \<and>
     (\<forall>j. sess c' j =
        (if j \<in> snd ` set closed then snd (Session_Close (sess c j))
         else if (\<exists>k. pool sl c k = Some j) \<and> s_idleSince (sess c j) < expTime
         then (sess c j)\<lparr>s_idleSince := now\<rparr> else sess c j))"

lemma idleCleanupExpTime_swept:
  assumes inv: "client_inv sl c" and laws: "skiplist_laws sl"
  shows "\<exists>closed. swept sl expTime now closed c (idleCleanupExpTime sl expTime now c)"
proof -
  note D = client_invD [OF inv] and es = pool_entries_sound [OF inv laws]
  let ?es = "sl_entries sl (cl_idle c)"
  obtain closed c1 where l:
    "cleanup_loop sl expTime now ?es 0 [] c = (map snd closed, c1)"
    "set closed \<subseteq> set ?es" "cleaned sl expTime now ?es closed c c1"
    "\<forall>(k, i) \<in> set closed. s_idleSince (sess c i) < expTime"
    "closed \<noteq> [] \<longrightarrow> cl_minIdle c \<le> int (length ?es - length closed)"
    using cleanup_loop_cleaned [OF laws es, of expTime now 0 "[]"] by auto
  let ?c' = "foldl (\<lambda>c' i. close_session sl i c') c1 (map snd closed)"
  have entry: "(k, i) \<in> set ?es \<longleftrightarrow> pool sl c k = Some i" for k i using pool_entry [OF laws] .
  have closed: "pool sl c k = Some i \<and> i < length (cl_objs c) \<and> k = MaxUint64 - s_seq (sess c i)"
    if "(k, i) \<in> set closed" for k i using that l(2) entry D(1,2) by blast
  have pool1: "pool sl c1 = (\<lambda>k. if k \<in> fst ` set closed then None else pool sl c k)"
    and len: "length (cl_objs c1) = length (cl_objs c)"
    and sess1: "\<And>j. sess c1 j = (if \<exists>k. pool sl c k = Some j \<and> (k, j) \<notin> set closed \<and> s_idleSince (sess c j) < expTime
         then (sess c j)\<lparr>s_idleSince := now\<rparr> else sess c j)"
    using l(3) by (simp_all add: cleaned_def entry)
  have idx: "\<forall>i \<in> set (map snd closed). i < length (cl_objs c1) \<and> pool sl c1 (MaxUint64 - s_seq (sess c1 i)) = None"
    using closed by (force simp: len pool1 sess1)
  have mine: "(\<exists>k. pool sl c k = Some j \<and> (k, j) \<notin> set closed \<and> P) \<longleftrightarrow> (\<exists>k. pool sl c k = Some j) \<and> j \<notin> snd ` set closed \<and> P"
    for j P using closed D(2) by force
  have "sess ?c' j =
        (if j \<in> snd ` set closed then snd (Session_Close (sess c j))
         else if (\<exists>k. pool sl c k = Some j) \<and> s_idleSince (sess c j) < expTime
         then (sess c j)\<lparr>s_idleSince := now\<rparr> else sess c j)" for j
    using close_sessions_sess [of "map snd closed" c1 sl j] idx unfolding sess1 mine by auto
  moreover have "pool sl ?c' = pool sl c1" by (rule close_sessions_pool [OF laws idx])
  moreover have "\<forall>(k, i) \<in> set closed. pool sl c k = Some i \<and> s_idleSince (sess c i) < expTime"
    using closed l(4) by auto
  ultimately have "swept sl expTime now closed c ?c'" using l(5) pool1 by (simp add: swept_def)
  then show ?thesis using l(1) by (auto simp: idleCleanupExpTime_def)
qed

lemma swept_min:
  assumes "swept sl expTime now closed c c'" and "skiplist_laws sl"
  shows "min (cl_minIdle c) (int (length (sl_entries sl (cl_idle c)))) \<le> int (length (sl_entries sl (cl_idle c')))"
proof -
  have "dom (pool sl c') = dom (pool sl c) - fst ` set closed" using assms(1) by (auto simp: swept_def dom_def)
  moreover have "fst ` set closed \<subseteq> dom (pool sl c)" using assms(1) by (force simp: swept_def)
  moreover have "finite (fst ` set closed)" by simp
  ultimately have "card (dom (pool sl c')) = card (dom (pool sl c)) - card (fst ` set closed)"
    by (simp add: card_Diff_subset)
  moreover have "card (fst ` set closed) \<le> length closed" by (metis card_length length_map list.set_map)
  ultimately have "length (sl_entries sl (cl_idle c)) - length closed \<le> length (sl_entries sl (cl_idle c'))"
    using pool_size [OF assms(2)] by (metis diff_le_mono2)
  then show ?thesis using assms(1) by (cases "closed = []") (auto simp: swept_def)
qed

lemma swept_pooled:
  assumes inv: "client_inv sl c" and swept: "swept sl expTime now closed c c'" and p: "pool sl c k = Some i"
  shows "(pool sl c' k = Some i \<and> \<not> s_die (sess c' i) \<and>
      sess c' i = (if s_idleSince (sess c i) < expTime then (sess c i)\<lparr>s_idleSince := now\<rparr> else sess c i)) \<or>
     (pool sl c' k = None \<and> s_die (sess c' i) \<and> c_closed (s_conn (sess c' i)) \<and> s_idleSince (sess c i) < expTime)"
proof (cases "(k, i) \<in> set closed")
  case True
  then have "i \<in> snd ` set closed" "k \<in> fst ` set closed" by force+
  then show ?thesis using True swept client_invD(3) [OF inv p] Session_Close_conn(3,4) [of "sess c i"]
    by (auto simp: swept_def)
next
  case False
  have pooled: "pool sl c k' = Some i'" if "(k', i') \<in> set closed" for k' i' using swept that by (auto simp: swept_def)
  have "(k', i) \<notin> set closed" for k'
  proof
    assume c: "(k', i) \<in> set closed"
    have "k' = k" using client_invD(2) [OF inv p] client_invD(2) [OF inv pooled [OF c]] by simp
    then show False using c False by simp
  qed
  then have "i \<notin> snd ` set closed" by auto
  then have "sess c' i = (if s_idleSince (sess c i) < expTime then (sess c i)\<lparr>s_idleSince := now\<rparr> else sess c i)"
    using swept p unfolding swept_def by (elim conjE) (simp del: Session.ext_inject, blast)
  moreover have "(k, i') \<notin> set closed" for i' using False pooled [of k i'] p by auto
  then have "k \<notin> fst ` set closed" by auto
  then have "pool sl c' k = Some i" using swept p unfolding swept_def by (elim conjE) simp
  ultimately show ?thesis using client_invD(3) [OF inv p] by simp
qed

text \<open>the idle cleanup: each pooled session either stays, open and untouched but for a fresh
  \<open>idleSince\<close> when it had expired, or had expired and is closed and out of the pool; nothing
  new gets into the pool, the pool keeps at least the configured minimum (or all it had, if
  less), and sessions outside the pool are not touched.\<close>

theorem idle_cleanup_effect:
  assumes "client_inv sl c" and "skiplist_laws sl" and "c' = idleCleanupExpTime sl expTime now c"
  shows "(\<forall>k i. pool sl c k = Some i \<longrightarrow>
            (pool sl c' k = Some i \<and> \<not> s_die (sess c' i) \<and>
             sess c' i = (if s_idleSince (sess c i) < expTime then (sess c i)\<lparr>s_idleSince := now\<rparr> else sess c i)) \<or>
            (pool sl c' k = None \<and> s_die (sess c' i) \<and> c_closed (s_conn (sess c' i)) \<and>
             s_idleSince (sess c i) < expTime)) \<and>
         (\<forall>k. pool sl c k = None \<longrightarrow> pool sl c' k = None) \<and>
         min (cl_minIdle c) (int (length (sl_entries sl (cl_idle c))))
           \<le> int (length (sl_entries sl (cl_idle c'))) \<and>
         (\<forall>i. (\<forall>k. pool sl c k \<noteq> Some i) \<longrightarrow> sess c' i = sess c i)"
proof -
  obtain closed where sw: "swept sl expTime now closed c c'"
    using idleCleanupExpTime_swept [OF assms(1,2)] assms(3) by blast
  have "\<forall>k. pool sl c k = None \<longrightarrow> pool sl c' k = None" using sw by (simp add: swept_def)
  moreover have "\<forall>i. (\<forall>k. pool sl c k \<noteq> Some i) \<longrightarrow> sess c' i = sess c i" using sw by (auto simp: swept_def)
  ultimately show ?thesis using swept_pooled [OF assms(1) sw] swept_min [OF sw assms(2)] by blast
qed

text \<open>
  That the laws can hold: an association list, its entries listed by key with the first
  binding of each.
\<close>

definition list_skiplist :: "(u64 \<times> nat) list skiplist" where
  "list_skiplist =
     \<lparr>sl_new = [], sl_Insert = (\<lambda>k v l. (k, v) # l), sl_Remove = (\<lambda>k l. filter (\<lambda>e. fst e \<noteq> k) l),
      sl_entries = (\<lambda>l. map (\<lambda>k. (k, the (map_of l k))) (sorted_list_of_set (fst ` set l)))\<rparr>"

lemma list_skiplist_entries: "map_of (sl_entries list_skiplist l) = map_of l"
  by (simp add: list_skiplist_def map_of_map_keys dom_map_of_conv_image_fst)

lemma list_skiplist_laws: "skiplist_laws list_skiplist"
proof -
  have "map_of (filter (\<lambda>e. fst e \<noteq> k) l) = (map_of l)(k := None)" for k and l :: "(u64 \<times> nat) list"
    by (induction l) auto
  moreover have "sorted_wrt (<) (map fst (sl_entries list_skiplist l))" for l
    by (simp add: list_skiplist_def comp_def)
  moreover have "sl_entries list_skiplist (sl_new list_skiplist) = []" by (simp add: list_skiplist_def)
  ultimately show ?thesis
    unfolding skiplist_laws_def list_skiplist_entries by (simp add: list_skiplist_def)
qed

definition demo_pool :: "(u64 \<times> nat) list Client" where
  "demo_pool = NewClient list_skiplist (Some demo_factory) 0 0 1"

lemmas pool_run_defs = CreateStream_def NewClient_def getIdleSession_def list_skiplist_def createSession_def
  NewClientSession_def Run_client_def open_on_def client_update_def OpenStream_def IsClosed_def newStream_def
  recv_start_def writeControlFrame_def writeConnWithDeadline_def writeConnLocked_def s_conn_Write_def conn_Write_def
  set_conn_deadline_def set_sess_def set_obj_def obj_def newStream_obj_def demo_conn_def share_padding_def
  frame_bytes_def newFrame_def second_def Let_def

text \<open>A client that has opened a stream on a new session, and the session after the stream's close.\<close>

definition busy_pool :: "(u64 \<times> nat) list Client" where
  "busy_pool = snd (the (CreateStream list_skiplist demo_env (\<lambda>_. 0) (Inr demo_conn)
     (NewClient list_skiplist None 0 0 1)))"

definition idle_recv :: recv where
  "idle_recv = (cl_objs busy_pool ! 0)\<lparr>rv_sess := snd (the (Stream_Close 0 (sess busy_pool 0)))\<rparr>"

lemma busy_pool_run:
  "CreateStream list_skiplist demo_env (\<lambda>_. 0) (Inr demo_conn) (NewClient list_skiplist None 0 0 1) =
     Some (Inr (0, 0), busy_pool)"
  "length (cl_objs busy_pool) = 1"
  by (simp_all add: pool_run_defs busy_pool_def)

lemma idle_recv_run: "Stream_Close 0 (sess busy_pool 0) = Some (None, rv_sess idle_recv)"
  "client_update list_skiplist 7 0 idle_recv busy_pool =
     busy_pool\<lparr>cl_objs := [idle_recv\<lparr>rv_sess := (rv_sess idle_recv)\<lparr>s_idleSince := 7\<rparr>\<rparr>], cl_idle := [(MaxUint64 - 1, 0)]\<rparr>"
  by (simp_all add: pool_run_defs busy_pool_def idle_recv_def Stream_Close_def closeWithError_def streamClosed_def
      PipeReader_Close_def closeRead_def emit_def Pipe_def wakeWriter_def onceError_Store_def stream_hook_def)

definition demo_idle :: "nat \<Rightarrow> int \<Rightarrow> recv" where
  "demo_idle i t = recv_start (demo_client\<lparr>s_seq := seq_of i, s_idleSince := t\<rparr>)"

definition demo_pool2 :: "(u64 \<times> nat) list Client" where
  "demo_pool2 = demo_pool\<lparr>cl_counter := 2, cl_objs := [demo_idle 0 1, demo_idle 1 2],
     cl_idle := [(MaxUint64 - seq_of 1, 1), (MaxUint64 - seq_of 0, 0)]\<rparr>"

lemma demo_pool2_inv: "client_inv list_skiplist demo_pool2"
proof -
  have ne: "MaxUint64 - seq_of 0 \<noteq> MaxUint64 - seq_of 1" by (simp add: seq_of_def)
  have "pool list_skiplist demo_pool2 = [MaxUint64 - seq_of 1 \<mapsto> 1, MaxUint64 - seq_of 0 \<mapsto> 0]"
    using ne by (auto simp: pool_def list_skiplist_entries demo_pool2_def fun_eq_iff)
  then show ?thesis
    by (auto simp: client_inv_def demo_pool2_def demo_pool_def NewClient_def demo_idle_def recv_start_def
        less_Suc_eq demo_client_def NewClientSession_def split: if_splits)
qed

theorem idle_cleanup_effect_witness:
  "1 \<le> length (sl_entries list_skiplist (cl_idle (idleCleanupExpTime list_skiplist 5 9 demo_pool2)))"
proof -
  have "length (sl_entries list_skiplist (cl_idle demo_pool2)) = 2"
    by (simp add: list_skiplist_def demo_pool2_def seq_of_def)
  moreover have "cl_minIdle demo_pool2 = 1" by (simp add: demo_pool2_def demo_pool_def NewClient_def)
  ultimately show ?thesis using idle_cleanup_effect [OF demo_pool2_inv list_skiplist_laws refl, of 5 9] by simp
qed

end
