(* ===== verification/GoNet.thy ===== *)
theory GoNet
  imports GoStd
begin

text \<open>
  More of Go's standard library, as the server package uses it: \<open>net.ParseIP\<close>,
  \<open>net.JoinHostPort\<close> and what \<open>net.SplitHostPort\<close> does with its results, and the lexical
  part of \<open>path/filepath\<close> on a Unix system.
\<close>

section \<open>IP addresses\<close>

text \<open>An address is its sixteen bytes, as \<open>net.ParseIP\<close> returns it.\<close>

type_synonym IP = "byte list"

definition octet :: "string \<Rightarrow> byte option" where
  "octet s =
     (if s = [] \<or> (hd s = CHR ''0'' \<and> length s > 1) then None
      else (case parse_digits 0 s of
              None \<Rightarrow> None
            | Some v \<Rightarrow> if v \<le> 255 then Some (of_nat v) else None))"

definition parseIPv4 :: "string \<Rightarrow> byte list option" where
  "parseIPv4 s = (let fields = Split (CHR ''.'') s in if length fields = 4 then those (map octet fields) else None)"

definition hex_val :: "char \<Rightarrow> nat option" where
  "hex_val c =
     (let n = (of_char c :: nat)
      in if 48 \<le> n \<and> n \<le> 57 then Some (n - 48)
         else if 97 \<le> n \<and> n \<le> 102 then Some (n - 87)
         else if 65 \<le> n \<and> n \<le> 70 then Some (n - 55)
         else None)"

definition hex_number :: "string \<Rightarrow> nat" where
  "hex_number s = foldl (\<lambda>acc c. acc * 16 + (case hex_val c of Some v \<Rightarrow> v | None \<Rightarrow> 0)) 0 s"

text \<open>
  The loop of \<open>netip.parseIPv6\<close> over at most eight groups: the groups left, the text left, the
  bytes so far, and where \<open>::\<close> was seen.
\<close>

fun v6_groups :: "nat \<Rightarrow> string \<Rightarrow> byte list \<Rightarrow> nat option \<Rightarrow> (byte list \<times> nat option \<times> string) option" where
  "v6_groups 0 s ip ell = Some (ip, ell, s)"
| "v6_groups (Suc n) s ip ell =
     (let digits = takeWhile (\<lambda>c. hex_val c \<noteq> None) s;
          rest = drop (length digits) s;
          acc = hex_number digits;
          ip' = ip @ [of_nat (acc div 256), of_nat (acc mod 256)]
      in if digits = [] \<or> length digits > 4 then None
         else if rest \<noteq> [] \<and> hd rest = CHR ''.'' then
           (if (ell = None \<and> length ip \<noteq> 12) \<or> length ip + 4 > 16 then None
            else (case parseIPv4 s of None \<Rightarrow> None | Some v4 \<Rightarrow> Some (ip @ v4, ell, [])))
         else if rest = [] then Some (ip', ell, [])
         else if hd rest \<noteq> CHR '':'' \<or> tl rest = [] then None
         else if hd (tl rest) = CHR '':'' then
           (if ell \<noteq> None then None
            else if tl (tl rest) = [] then Some (ip', Some (length ip'), [])
            else v6_groups n (tl (tl rest)) ip' (Some (length ip')))
         else v6_groups n (tl rest) ip' ell)"

definition parseIPv6 :: "string \<Rightarrow> byte list option" where
  "parseIPv6 s =
     (let lead = (take 2 s = ''::''); s0 = (if lead then drop 2 s else s)
      in if lead \<and> s0 = [] then Some (replicate 16 0)
         else
           (case v6_groups 8 s0 [] (if lead then Some 0 else None) of
              None \<Rightarrow> None
            | Some (ip, ell, rest) \<Rightarrow>
                if rest \<noteq> [] then None
                else if length ip < 16 then
                  (case ell of
                     None \<Rightarrow> None
                   | Some e \<Rightarrow> Some (take e ip @ replicate (16 - length ip) 0 @ drop e ip))
                else if ell \<noteq> None then None
                else Some ip))"

text \<open>\<open>net.ParseIP\<close>: the first of \<open>.\<close>, \<open>:\<close> and \<open>%\<close> decides, and no zone is allowed.\<close>

definition ParseIP :: "string \<Rightarrow> IP option" where
  "ParseIP s =
     (case filter (\<lambda>c. c = CHR ''.'' \<or> c = CHR '':'' \<or> c = CHR ''%'') s of
        [] \<Rightarrow> None
      | c # _ \<Rightarrow>
          if c = CHR ''.'' then map_option (\<lambda>v4. replicate 10 0 @ [255, 255] @ v4) (parseIPv4 s)
          else if c = CHR '':'' \<and> CHR ''%'' \<notin> set s then parseIPv6 s
          else None)"

lemma length_those: "those xs = Some ys \<Longrightarrow> length ys = length xs"
  by (induction xs arbitrary: ys) (auto split: option.splits)

lemma length_parseIPv4: "parseIPv4 s = Some v4 \<Longrightarrow> length v4 = 4"
  by (auto simp: parseIPv4_def Let_def dest: length_those split: if_splits)

lemma v6_groups_length:
  "v6_groups n s ip ell = Some (ip', ell', rest) \<Longrightarrow> length ip + 2 * n \<le> 16 \<Longrightarrow>
   (case ell of Some e \<Rightarrow> e \<le> length ip | None \<Rightarrow> True) \<Longrightarrow>
   length ip' \<le> 16 \<and> (case ell' of Some e \<Rightarrow> e \<le> length ip' | None \<Rightarrow> True)"
proof (induction n arbitrary: s ip ell)
  case 0
  then show ?case by auto
next
  case (Suc n)
  let ?rest = "drop (length (takeWhile (\<lambda>c. hex_val c \<noteq> None) s)) s"
  let ?acc = "hex_number (takeWhile (\<lambda>c. hex_val c \<noteq> None) s)"
  let ?ip = "ip @ [of_nat (?acc div 256), of_nat (?acc mod 256)]"
  have more: "v6_groups n u ?ip e = Some (ip', ell', rest) \<Longrightarrow>
      (case e of Some x \<Rightarrow> x \<le> length ?ip | None \<Rightarrow> True) \<Longrightarrow>
      length ip' \<le> 16 \<and> (case ell' of Some x \<Rightarrow> x \<le> length ip' | None \<Rightarrow> True)" for u e
    by (rule Suc.IH) (use Suc.prems(2) in simp_all)
  have ell: "case ell of Some x \<Rightarrow> x \<le> length ?ip | None \<Rightarrow> True"
    using Suc.prems(3) by (auto split: option.splits)
  consider (v4) v where "parseIPv4 s = Some v" "length ip + 4 \<le> 16" "ip' = ip @ v" "ell' = ell"
    | (stop) "ip' = ?ip" "ell' = ell"
    | (stop2) "ip' = ?ip" "ell' = Some (length ?ip)"
    | (go) u where "v6_groups n u ?ip ell = Some (ip', ell', rest)"
    | (go2) u where "v6_groups n u ?ip (Some (length ?ip)) = Some (ip', ell', rest)"
    using Suc.prems(1) unfolding v6_groups.simps Let_def
    by (simp split: if_split_asm option.split_asm)
  then show ?case
  proof cases
    case v4
    then show ?thesis using Suc.prems(3) length_parseIPv4 [OF v4(1)] by (auto split: option.splits)
  next
    case stop
    then show ?thesis using Suc.prems(2) ell by (auto split: option.splits)
  next
    case stop2
    then show ?thesis using Suc.prems(2) by auto
  next
    case go
    then show ?thesis using more ell by blast
  next
    case go2
    then show ?thesis using more by (metis order_refl option.simps(5))
  qed
qed

lemma length_parseIPv6:
  assumes "parseIPv6 s = Some ip"
  shows "length ip = 16"
proof -
  have "length ip = 16"
    if "v6_groups 8 u [] e = Some (ip0, ell, rest)" "\<forall>x. e = Some x \<longrightarrow> x = 0"
      "(if rest \<noteq> [] then None else if length ip0 < 16 then
          (case ell of None \<Rightarrow> None | Some x \<Rightarrow> Some (take x ip0 @ replicate (16 - length ip0) 0 @ drop x ip0))
        else if ell \<noteq> None then None else Some ip0) = Some ip" for u e ip0 ell rest
  proof -
    have "length ip0 \<le> 16 \<and> (case ell of Some x \<Rightarrow> x \<le> length ip0 | None \<Rightarrow> True)"
      by (rule v6_groups_length [OF that(1)]) (use that(2) in \<open>auto split: option.split\<close>)
    with that(3) show ?thesis by (auto split: if_splits option.splits)
  qed
  with assms show ?thesis
    unfolding parseIPv6_def Let_def by (auto split: if_split_asm option.split_asm prod.split_asm)
qed

lemma length_ParseIP: "ParseIP s = Some ip \<Longrightarrow> length ip = 16"
  by (auto simp: ParseIP_def dest: length_parseIPv4 length_parseIPv6 split: list.splits if_splits)

section \<open>Hosts and ports\<close>

definition JoinHostPort :: "string \<Rightarrow> string \<Rightarrow> string" where
  "JoinHostPort host port =
     (if CHR '':'' \<in> set host \<or> CHR ''%'' \<in> set host then ''['' @ host @ '']:'' @ port
      else host @ '':'' @ port)"

text \<open>\<open>strconv.FormatUint(n, 10)\<close>.\<close>

fun FormatUint :: "nat \<Rightarrow> string" where
  "FormatUint n = (if n < 10 then [char_of (48 + n)] else FormatUint (n div 10) @ [char_of (48 + n mod 10)])"

declare FormatUint.simps [simp del]

lemma takeWhile_neq_append: "x \<notin> set xs \<Longrightarrow> takeWhile (\<lambda>y. y \<noteq> x) (xs @ x # ys) = xs"
  by (induction xs) auto

lemma last_index_of_append: "x \<notin> set ys \<Longrightarrow> last_index_of x (xs @ x # ys) = Some (length xs)"
proof -
  assume "x \<notin> set ys"
  then have "takeWhile (\<lambda>y. y \<noteq> x) (rev ys @ x # rev xs) = rev ys"
    by (simp add: takeWhile_neq_append)
  then show ?thesis by (simp add: last_index_of_def)
qed

lemma index_of_append: "x \<notin> set xs \<Longrightarrow> index_of x (xs @ x # ys) = Some (length xs)"
  by (simp add: index_of_def takeWhile_neq_append)

lemma SplitHostPort_plain:
  assumes "CHR '':'' \<notin> set host" and "CHR ''['' \<notin> set host" and "CHR '']'' \<notin> set host"
    and "set port \<inter> {CHR '':'', CHR ''['', CHR '']''} = {}"
  shows "SplitHostPort (host @ '':'' @ port) = Inr (host, port)"
proof -
  have i: "last_index_of (CHR '':'') (host @ CHR '':'' # port) = Some (length host)"
    using assms(4) by (intro last_index_of_append) auto
  have hd: "(host @ CHR '':'' # port) ! 0 \<noteq> CHR ''[''"
    using assms(2) by (cases host) auto
  show ?thesis using assms hd by (auto simp: SplitHostPort_def i Let_def)
qed

lemma SplitHostPort_bracketed:
  assumes "CHR ''['' \<notin> set host" and "CHR '']'' \<notin> set host"
    and "set port \<inter> {CHR '':'', CHR ''['', CHR '']''} = {}"
  shows "SplitHostPort (''['' @ host @ '']:'' @ port) = Inr (host, port)"
proof -
  let ?hp = "CHR ''['' # host @ CHR '']'' # CHR '':'' # port"
  have i: "last_index_of (CHR '':'') ?hp = Some (length host + 2)"
    using last_index_of_append [of "CHR '':''" port "CHR ''['' # host @ [CHR '']'']"] assms(3) by auto
  have e: "index_of (CHR '']'') ?hp = Some (length host + 1)"
    using index_of_append [of "CHR '']''" "CHR ''['' # host" "CHR '':'' # port"] assms(2) by auto
  show ?thesis using assms by (auto simp: SplitHostPort_def i e Let_def)
qed

lemma digit_val_char: "d < 10 \<Longrightarrow> digit_val (char_of (48 + d)) = Some d"
proof -
  assume "d < 10"
  then have "(of_char (char_of (48 + d) :: char) :: nat) = 48 + d" by simp
  with \<open>d < 10\<close> show ?thesis by (simp add: digit_val_def)
qed

lemma parse_digits_append:
  "parse_digits acc (xs @ ys) = (case parse_digits acc xs of Some a \<Rightarrow> parse_digits a ys | None \<Rightarrow> None)"
  by (induction acc xs rule: parse_digits.induct) (auto split: option.splits)

lemma parse_digits_FormatUint: "parse_digits 0 (FormatUint n) = Some n"
proof (induction n rule: FormatUint.induct)
  case (1 n)
  show ?case
  proof (cases "n < 10")
    case True
    then show ?thesis by (simp add: FormatUint.simps [of n] digit_val_char)
  next
    case False
    have "digit_val (char_of (48 + n mod 10)) = Some (n mod 10)" by (rule digit_val_char) simp
    moreover have "n div 10 * 10 + n mod 10 = n" by simp
    ultimately show ?thesis
      using False 1 by (simp add: FormatUint.simps [of n] parse_digits_append)
  qed
qed

lemma FormatUint_not_Nil: "FormatUint n \<noteq> []"
  by (subst FormatUint.simps) simp

lemma parse_digits_set: "parse_digits acc s = Some v \<Longrightarrow> c \<in> set s \<Longrightarrow> digit_val c \<noteq> None"
  by (induction acc s rule: parse_digits.induct) (auto split: option.splits)

lemma FormatUint_digits: "set (FormatUint n) \<inter> {CHR '':'', CHR ''['', CHR '']''} = {}"
proof -
  have "digit_val (CHR '':'') = None" "digit_val (CHR ''['') = None" "digit_val (CHR '']'') = None"
    by (simp_all add: digit_val_def)
  then show ?thesis using parse_digits_set [OF parse_digits_FormatUint [of n]] by blast
qed

lemma ParseUint_FormatUint: "n < 2 ^ bits \<Longrightarrow> ParseUint (FormatUint n) bits = Some n"
  by (simp add: ParseUint_def parse_digits_FormatUint FormatUint_not_Nil)

lemma SplitHostPort_Join:
  assumes "CHR ''['' \<notin> set host" and "CHR '']'' \<notin> set host"
  shows "SplitHostPort (JoinHostPort host (FormatUint n)) = Inr (host, FormatUint n)"
  using assms FormatUint_digits [of n] SplitHostPort_plain [of host "FormatUint n"]
    SplitHostPort_bracketed [of host "FormatUint n"]
  by (auto simp: JoinHostPort_def)

section \<open>Paths\<close>

text \<open>\<open>filepath.Clean\<close> on the elements of a path; those kept so far are in reverse.\<close>

fun clean_parts :: "bool \<Rightarrow> string list \<Rightarrow> string list \<Rightarrow> string list" where
  "clean_parts rooted acc [] = rev acc"
| "clean_parts rooted acc (p # ps) =
     (if p = '''' \<or> p = ''.'' then clean_parts rooted acc ps
      else if p = ''..'' then
        (case acc of
           [] \<Rightarrow> clean_parts rooted (if rooted then [] else [''..'']) ps
         | a # as \<Rightarrow> clean_parts rooted (if a = ''..'' then ''..'' # acc else as) ps)
      else clean_parts rooted (p # acc) ps)"

definition Clean :: "string \<Rightarrow> string" where
  "Clean path =
     (if path = '''' then ''.''
      else
        (let rooted = (hd path = CHR ''/'');
             body = Join (CHR ''/'') (clean_parts rooted [] (Split (CHR ''/'') path))
         in if rooted then CHR ''/'' # body else if body = '''' then ''.'' else body))"

text \<open>\<open>filepath.Join\<close> of two elements.\<close>

definition Join2 :: "string \<Rightarrow> string \<Rightarrow> string" where
  "Join2 a b = (if a \<noteq> '''' then Clean (a @ ''/'' @ b) else if b \<noteq> '''' then Clean b else '''')"

definition Dir :: "string \<Rightarrow> string" where
  "Dir path = Clean (rev (dropWhile (\<lambda>c. c \<noteq> CHR ''/'') (rev path)))"

definition Ext :: "string \<Rightarrow> string" where
  "Ext path =
     (let base = takeWhile (\<lambda>c. c \<noteq> CHR ''/'') (rev path)
      in if CHR ''.'' \<in> set base then CHR ''.'' # rev (takeWhile (\<lambda>c. c \<noteq> CHR ''.'') base) else '''')"

definition IsAbs :: "string \<Rightarrow> bool" where
  "IsAbs path \<longleftrightarrow> path \<noteq> '''' \<and> hd path = CHR ''/''"

section \<open>Addresses with a port\<close>

text \<open>\<open>netip.Addr\<close>: four bytes, or sixteen and a zone; \<open>netip.ParseAddr\<close> and
  \<open>netip.ParseAddrPort\<close>.\<close>

datatype netip_Addr = Addr4 "byte list" | Addr6 "byte list" string

definition ParseAddr :: "string \<Rightarrow> netip_Addr option" where
  "ParseAddr s =
     (case filter (\<lambda>c. c = CHR ''.'' \<or> c = CHR '':'' \<or> c = CHR ''%'') s of
        [] \<Rightarrow> None
      | c # _ \<Rightarrow>
          if c = CHR ''.'' then map_option Addr4 (parseIPv4 s)
          else if c = CHR '':'' then
            (case index_of (CHR ''%'') s of
               None \<Rightarrow> map_option (\<lambda>ip. Addr6 ip '''') (parseIPv6 s)
             | Some i \<Rightarrow>
                 if drop (i + 1) s = '''' then None
                 else map_option (\<lambda>ip. Addr6 ip (drop (i + 1) s)) (parseIPv6 (take i s)))
          else None)"

definition ParseAddrPort :: "string \<Rightarrow> (netip_Addr \<times> u16) option" where
  "ParseAddrPort s =
     (case last_index_of (CHR '':'') s of
        None \<Rightarrow> None
      | Some i \<Rightarrow>
          (let ip = take i s; port = drop (i + 1) s;
               v6 = (ip \<noteq> '''' \<and> hd ip = CHR ''['')
           in if ip = '''' \<or> port = '''' \<or> (v6 \<and> (length ip < 2 \<or> last ip \<noteq> CHR '']'')) then None
              else
                (case ParseUint port 16 of
                   None \<Rightarrow> None
                 | Some port16 \<Rightarrow>
                     (case ParseAddr (if v6 then butlast (tl ip) else ip) of
                        None \<Rightarrow> None
                      | Some (Addr4 a) \<Rightarrow> if v6 then None else Some (Addr4 a, of_nat port16)
                      | Some (Addr6 a z) \<Rightarrow> if v6 then Some (Addr6 a z, of_nat port16) else None))))"

end
