(* ===== verification/Outbound.thy ===== *)
theory Outbound
  imports GoNet
begin

text \<open>
  The outbound side of the server: \<open>model.go\<close>, \<open>errors.go\<close>, \<open>utils.go\<close>, \<open>outbound.go\<close> and
  \<open>outbound_adapter.go\<close> of \<open>internal/app/server\<close>. The constructors of the acl-engine library
  (outbounds, router, dialling) are a record of functions, and so are the Unicode case
  tables behind \<open>strings.ToLower\<close>.
\<close>

section \<open>Configuration\<close>

record serverConfigOutboundDirect =
  dir_Mode :: string
  dir_BindIPv4 :: string
  dir_BindIPv6 :: string
  dir_BindDevice :: string

record serverConfigOutboundSOCKS5 =
  s5_Addr :: string
  s5_Username :: string
  s5_Password :: string

record serverConfigOutboundHTTP =
  http_URL :: string
  http_Insecure :: bool

record serverConfigOutboundEntry =
  ent_Name :: string
  ent_Type :: string
  ent_Direct :: serverConfigOutboundDirect
  ent_SOCKS5 :: serverConfigOutboundSOCKS5
  ent_HTTP :: serverConfigOutboundHTTP

record serverConfigACL =
  acl_Inline :: "string list"

record serverConfigSniff =
  sniff_Enable :: bool
  sniff_Timeout :: int
  sniff_RewriteDomain :: bool
  sniff_TCPPorts :: string
  sniff_UDPPorts :: string

record ExtConfig =
  ext_Outbounds :: "serverConfigOutboundEntry list"
  ext_ACL :: serverConfigACL
  ext_Sniff :: serverConfigSniff

text \<open>\<open>configError\<close>: its message, with the text of the error inside, and what it wraps.\<close>

definition configError_Error :: "string \<Rightarrow> string \<Rightarrow> string" where
  "configError_Error field text = ''invalid config: '' @ field @ '': '' @ text"

fun error_Unwrap :: "go_error \<Rightarrow> go_error option" where
  "error_Unwrap (ErrConfig field err) = Some err"
| "error_Unwrap (ErrWrap prefix err) = Some err"
| "error_Unwrap _ = None"

section \<open>The acl-engine\<close>

datatype DirectMode = ModeAuto | Mode64 | Mode46 | Mode6 | Mode4

record Addr =
  addr_Host :: string
  addr_Port :: u16

record ('o, 'r, 'c, 'u) engine =
  en_ToLower :: "string \<Rightarrow> string"
  en_NewDirect :: "DirectMode \<Rightarrow> 'o"
  en_NewDirectBindToIPs :: "DirectMode \<Rightarrow> IP option \<Rightarrow> IP option \<Rightarrow> go_error + 'o"
  en_NewDirectBindToDevice :: "DirectMode \<Rightarrow> string \<Rightarrow> go_error + 'o"
  en_NewSOCKS5 :: "string \<Rightarrow> string \<Rightarrow> string \<Rightarrow> 'o"
  en_NewHTTP :: "string \<Rightarrow> bool \<Rightarrow> go_error + 'o"
  en_RouterNew :: "string \<Rightarrow> (string \<times> 'o) list \<Rightarrow> go_error + 'r"
  en_DialTCP :: "'r \<Rightarrow> Addr \<Rightarrow> go_error + 'c"
  en_DialUDP :: "'r \<Rightarrow> Addr \<Rightarrow> go_error + 'u"
  en_AddrString :: "Addr \<Rightarrow> string"

section \<open>From an entry of the configuration to an outbound\<close>

definition config_error :: "string \<Rightarrow> string \<Rightarrow> go_error" where
  "config_error field msg = ErrConfig field (ErrMsg msg)"

definition direct_mode :: "(string \<Rightarrow> string) \<Rightarrow> string \<Rightarrow> DirectMode option" where
  "direct_mode lower s =
     (let m = ToLower lower s
      in if m = '''' \<or> m = ''auto'' then Some ModeAuto
         else if m = ''64'' then Some Mode64
         else if m = ''46'' then Some Mode46
         else if m = ''6'' then Some Mode6
         else if m = ''4'' then Some Mode4
         else None)"

definition serverConfigOutboundDirectToOutbound ::
  "('o, 'r, 'c, 'u) engine \<Rightarrow> serverConfigOutboundDirect \<Rightarrow> go_error + 'o" where
  "serverConfigOutboundDirectToOutbound en c =
     (case direct_mode (en_ToLower en) (dir_Mode c) of
        None \<Rightarrow> Inl (config_error ''outbounds.direct.mode'' ''unsupported mode'')
      | Some mode \<Rightarrow>
          (let bindIP = (length (dir_BindIPv4 c) > 0 \<or> length (dir_BindIPv6 c) > 0);
               bindDevice = (length (dir_BindDevice c) > 0)
           in if bindIP \<and> bindDevice then
                Inl (config_error ''outbounds.direct'' ''cannot bind both IP and device'')
              else if bindIP then
                (let ip4 = ParseIP (dir_BindIPv4 c); ip6 = ParseIP (dir_BindIPv6 c)
                 in if length (dir_BindIPv4 c) > 0 \<and> ip4 = None then
                      Inl (config_error ''outbounds.direct.bindIPv4'' ''invalid IPv4 address'')
                    else if length (dir_BindIPv6 c) > 0 \<and> ip6 = None then
                      Inl (config_error ''outbounds.direct.bindIPv6'' ''invalid IPv6 address'')
                    else en_NewDirectBindToIPs en mode ip4 ip6)
              else if bindDevice then en_NewDirectBindToDevice en mode (dir_BindDevice c)
              else Inr (en_NewDirect en mode)))"

definition serverConfigOutboundSOCKS5ToOutbound ::
  "('o, 'r, 'c, 'u) engine \<Rightarrow> serverConfigOutboundSOCKS5 \<Rightarrow> go_error + 'o" where
  "serverConfigOutboundSOCKS5ToOutbound en c =
     (if s5_Addr c = '''' then Inl (config_error ''outbounds.socks5.addr'' ''empty socks5 address'')
      else Inr (en_NewSOCKS5 en (s5_Addr c) (s5_Username c) (s5_Password c)))"

definition serverConfigOutboundHTTPToOutbound ::
  "('o, 'r, 'c, 'u) engine \<Rightarrow> serverConfigOutboundHTTP \<Rightarrow> go_error + 'o" where
  "serverConfigOutboundHTTPToOutbound en c =
     (if http_URL c = '''' then Inl (config_error ''outbounds.http.url'' ''empty http address'')
      else en_NewHTTP en (http_URL c) (http_Insecure c))"

text \<open>The body of the loop of \<open>buildOutbound\<close>, and the loop.\<close>

definition entry_outbound ::
  "('o, 'r, 'c, 'u) engine \<Rightarrow> serverConfigOutboundEntry \<Rightarrow> go_error + 'o" where
  "entry_outbound en e =
     (if ent_Name e = '''' then Inl (config_error ''outbounds.name'' ''empty outbound name'')
      else
        (let t = ToLower (en_ToLower en) (ent_Type e)
         in if t = ''direct'' then serverConfigOutboundDirectToOutbound en (ent_Direct e)
            else if t = ''socks5'' then serverConfigOutboundSOCKS5ToOutbound en (ent_SOCKS5 e)
            else if t = ''http'' then serverConfigOutboundHTTPToOutbound en (ent_HTTP e)
            else Inl (config_error ''outbounds.type'' ''unsupported outbound type'')))"

fun build_entries ::
  "('o, 'r, 'c, 'u) engine \<Rightarrow> serverConfigOutboundEntry list \<Rightarrow> go_error + (string \<times> 'o) list" where
  "build_entries en [] = Inr []"
| "build_entries en (e # es) =
     (case entry_outbound en e of
        Inl err \<Rightarrow> Inl err
      | Inr ob \<Rightarrow>
          (case build_entries en es of
             Inl err \<Rightarrow> Inl err
           | Inr obs \<Rightarrow> Inr ((ent_Name e, ob) # obs)))"

text \<open>\<open>buildOutbound\<close>: the router behind \<open>s.outbound\<close>, or the error, with \<open>s.outbound\<close> left alone.\<close>

definition buildOutbound ::
  "('o, 'r, 'c, 'u) engine \<Rightarrow> ExtConfig option \<Rightarrow> go_error + 'r" where
  "buildOutbound en extConfig =
     (case (case extConfig of
              None \<Rightarrow> Inr []
            | Some c \<Rightarrow> if length (ext_Outbounds c) > 0 then build_entries en (ext_Outbounds c) else Inr []) of
        Inl err \<Rightarrow> Inl err
      | Inr obs0 \<Rightarrow>
          (let obs = (if length obs0 = 0 then [(''default'', en_NewDirect en ModeAuto)] else obs0);
               inline = (case extConfig of None \<Rightarrow> [] | Some c \<Rightarrow> acl_Inline (ext_ACL c))
           in if length inline > 0 then
                (case en_RouterNew en (Join (CHR 0x0A) inline) obs of
                   Inl err \<Rightarrow> Inl (ErrConfig ''acl.inline'' err)
                 | Inr r \<Rightarrow> Inr r)
              else
                (case en_RouterNew en ''default(all)'' obs of
                   Inl err \<Rightarrow> Inl (ErrConfig ''outbound'' err)
                 | Inr r \<Rightarrow> Inr r)))"

section \<open>The adapter\<close>

definition parseAddr :: "string \<Rightarrow> go_error + Addr" where
  "parseAddr addr =
     (case SplitHostPort addr of
        Inl err \<Rightarrow> Inl err
      | Inr (host, portStr) \<Rightarrow>
          (case ParseUint portStr 16 of
             None \<Rightarrow> Inl (ErrMsg ''strconv.ParseUint'')
           | Some port \<Rightarrow> Inr \<lparr>addr_Host = host, addr_Port = of_nat port\<rparr>))"

definition adapter_TCP :: "('o, 'r, 'c, 'u) engine \<Rightarrow> 'r \<Rightarrow> string \<Rightarrow> go_error + 'c" where
  "adapter_TCP en r addr =
     (case parseAddr addr of Inl err \<Rightarrow> Inl err | Inr oa \<Rightarrow> en_DialTCP en r oa)"

definition adapter_UDP :: "('o, 'r, 'c, 'u) engine \<Rightarrow> 'r \<Rightarrow> string \<Rightarrow> go_error + 'u" where
  "adapter_UDP en r addr =
     (case parseAddr addr of
        Inl err \<Rightarrow> Inl err
      | Inr oa \<Rightarrow> (case en_DialUDP en r oa of Inl err \<Rightarrow> Inl err | Inr uc \<Rightarrow> Inr uc))"

text \<open>
  The two wrappers of a UDP connection. \<open>read\<close> is what the inner \<open>ReadFrom\<close> returned, \<open>write\<close>
  the inner \<open>WriteTo\<close>.
\<close>

definition wrapper_ReadFrom ::
  "('o, 'r, 'c, 'u) engine \<Rightarrow> nat \<times> Addr option \<times> go_error option \<Rightarrow> nat \<times> string \<times> go_error option" where
  "wrapper_ReadFrom en read =
     (case read of
        (n, oa, Some err) \<Rightarrow> (0, '''', Some err)
      | (n, oa, None) \<Rightarrow> (n, (case oa of None \<Rightarrow> '''' | Some a \<Rightarrow> en_AddrString en a), None))"

definition wrapper_WriteTo ::
  "(Addr \<Rightarrow> nat \<times> go_error option) \<Rightarrow> string \<Rightarrow> nat \<times> go_error option" where
  "wrapper_WriteTo write addr =
     (case parseAddr addr of Inl err \<Rightarrow> (0, Some err) | Inr oa \<Rightarrow> write oa)"

definition udpConnAdapter_ReadFrom ::
  "nat \<times> string \<times> go_error option \<Rightarrow> nat \<times> (netip_Addr \<times> u16) option \<times> go_error option" where
  "udpConnAdapter_ReadFrom read =
     (case read of
        (n, addrStr, Some err) \<Rightarrow> (0, None, Some err)
      | (n, addrStr, None) \<Rightarrow>
          (case ParseAddrPort addrStr of
             None \<Rightarrow> (0, None, Some (ErrMsg ''netip.ParseAddrPort''))
           | Some ap \<Rightarrow> (n, Some ap, None)))"

text \<open>
  \<open>udpConnAdapter.WriteTo\<close> prints the address for the inner \<open>WriteTo\<close>, \<open>text\<close> being
  \<open>addr.String()\<close>; the other methods of the adapter have nothing behind them.
\<close>

definition udpConnAdapter_WriteTo ::
  "('a \<Rightarrow> string) \<Rightarrow> (string \<Rightarrow> nat \<times> go_error option) \<Rightarrow> 'a \<Rightarrow> nat \<times> go_error option" where
  "udpConnAdapter_WriteTo text write addr = write (text addr)"

definition udpConnAdapter_LocalAddr :: "'a option" where
  "udpConnAdapter_LocalAddr = None"

definition udpConnAdapter_SetDeadline :: "int option \<Rightarrow> go_error option" where
  "udpConnAdapter_SetDeadline t = None"

section \<open>Properties\<close>

lemma build_entries_find:
  "build_entries en es =
     (case find (\<lambda>e. isl (entry_outbound en e)) es of
        Some e \<Rightarrow> Inl (projl (entry_outbound en e))
      | None \<Rightarrow> Inr (map (\<lambda>e. (ent_Name e, projr (entry_outbound en e))) es))"
proof (induction es)
  case Nil
  then show ?case by simp
next
  case (Cons e es)
  then show ?case by (cases "entry_outbound en e") (simp_all split: option.splits)
qed


text \<open>C27: A destination written as host and port, with brackets around a host that has a colon, is
  read back as that host and port; a port of 65536 or more is an error, never a smaller one.\<close>

theorem parseAddr_roundtrip:
  assumes "CHR ''['' \<notin> set host" and "CHR '']'' \<notin> set host"
  shows "parseAddr (JoinHostPort host (FormatUint port)) =
     (if port < 65536 then Inr \<lparr>addr_Host = host, addr_Port = of_nat port\<rparr>
      else Inl (ErrMsg ''strconv.ParseUint''))"
proof (cases "port < 65536")
  case True
  then have "ParseUint (FormatUint port) 16 = Some port" by (intro ParseUint_FormatUint) simp
  then show ?thesis using True by (simp add: parseAddr_def SplitHostPort_Join [OF assms])
next
  case False
  then have "ParseUint (FormatUint port) 16 = None"
    by (simp add: ParseUint_def parse_digits_FormatUint)
  then show ?thesis using False by (simp add: parseAddr_def SplitHostPort_Join [OF assms])
qed

theorem parseAddr_roundtrip_witness:
  "parseAddr (JoinHostPort ''fe80::1'' (FormatUint 443)) = Inr \<lparr>addr_Host = ''fe80::1'', addr_Port = 443\<rparr> \<and>
   parseAddr (JoinHostPort ''a.b'' (FormatUint 65536)) = Inl (ErrMsg ''strconv.ParseUint'')"
  using parseAddr_roundtrip [of "''fe80::1''" 443] parseAddr_roundtrip [of "''a.b''" 65536] by simp

text \<open>A read from the wrapped connections that fails reports no bytes and no address, and it fails
  also when the engine gives no source address, for then there is nothing to parse.\<close>

lemma udp_read_error:
  "(case udpConnAdapter_ReadFrom (wrapper_ReadFrom en read) of
      (n, ap, err) \<Rightarrow> (err = None \<longleftrightarrow> ap \<noteq> None) \<and> (err \<noteq> None \<longrightarrow> n = 0)) \<and>
   snd (snd (udpConnAdapter_ReadFrom (wrapper_ReadFrom en (n, None, None)))) \<noteq> None"
  by (auto simp: udpConnAdapter_ReadFrom_def wrapper_ReadFrom_def ParseAddrPort_def last_index_of_def
      split: prod.splits option.splits)

text \<open>A datagram sent through the adapter and the wrapper reaches the engine with the host and port
  of its address; one to an address without a port is refused and not sent.\<close>

theorem udp_write_through:
  assumes "text addr = JoinHostPort host (FormatUint (unat (port :: u16)))"
    and "CHR ''['' \<notin> set host" and "CHR '']'' \<notin> set host"
  shows "udpConnAdapter_WriteTo text (wrapper_WriteTo write) addr = write \<lparr>addr_Host = host, addr_Port = port\<rparr>"
proof -
  have "unat port < 2 ^ 16" by simp
  then show ?thesis
    using SplitHostPort_Join [OF assms(2,3)] ParseUint_FormatUint [of "unat port" 16]
    by (simp add: udpConnAdapter_WriteTo_def wrapper_WriteTo_def parseAddr_def assms(1))
qed

end
