(* ===== verification/Users.thy ===== *)
theory Users
  imports GoStd
begin

text \<open>
  \<open>internal/pkg/service/users.go\<close>: the node's users, keyed by the hash a client sends, their
  traffic counters and their connections, and the periodic tasks that fetch the user list and
  report traffic. The panel's API client is outside the repository: what it returns is an
  argument. A \<open>sync.Map\<close> and a Go map are association lists with distinct keys; where the
  order of a map's iteration shows, it is an argument \<open>order\<close>. SHA-256 is a parameter.
\<close>

section \<open>Connections of a user\<close>

text \<open>The interface the service relies on: a relation between users and connections.\<close>

locale conn_registry =
  fixes registered :: "'s \<Rightarrow> (int \<times> nat) set"
    and add :: "int \<Rightarrow> nat \<Rightarrow> 's \<Rightarrow> 's"
    and remove :: "int \<Rightarrow> nat \<Rightarrow> 's \<Rightarrow> 's"
    and take_all :: "int \<Rightarrow> 's \<Rightarrow> nat list \<times> 's"
  assumes reg_add: "registered (add u c s) = insert (u, c) (registered s)"
    and reg_remove: "registered (remove u c s) = registered s - {(u, c)}"
    and take_list: "set (fst (take_all u s)) = {c. (u, c) \<in> registered s}"
    and take_rest: "registered (snd (take_all u s)) = {x \<in> registered s. fst x \<noteq> u}"
begin

lemmas reg_laws = reg_add reg_remove take_list take_rest

lemma remove_add: "(u, c) \<notin> registered s \<Longrightarrow> registered (remove u c (add u c s)) = registered s"
  by (simp add: reg_laws)

lemma remove_absent: "(u, c) \<notin> registered s \<Longrightarrow> registered (remove u c s) = registered s"
  by (simp add: reg_laws)

lemma take_none_left: "set (fst (take_all u (snd (take_all u s)))) = {}"
  by (simp add: reg_laws)

lemma remove_after_take: "registered (remove u c (snd (take_all u s))) = registered (snd (take_all u s))"
  by (simp add: reg_laws)

lemma take_many:
  "registered (foldl (\<lambda>s' u. snd (take_all u s')) s us) = {x \<in> registered s. fst x \<notin> set us}"
  by (induction us arbitrary: s) (auto simp: reg_laws)

end

type_synonym ConnectionManager = "(int \<times> nat list) list"

text \<open>The set of connections of a user is a list without repetition.\<close>

definition ConnectionManager_Add :: "int \<Rightarrow> nat \<Rightarrow> ConnectionManager \<Rightarrow> ConnectionManager" where
  "ConnectionManager_Add userId conn cm =
     AList.update userId (List.insert conn (case map_of cm userId of None \<Rightarrow> [] | Some cs \<Rightarrow> cs)) cm"

definition ConnectionManager_Remove :: "int \<Rightarrow> nat \<Rightarrow> ConnectionManager \<Rightarrow> ConnectionManager" where
  "ConnectionManager_Remove userId conn cm =
     (case map_of cm userId of
        None \<Rightarrow> cm
      | Some cs \<Rightarrow>
          (let cs' = removeAll conn cs
           in if length cs' = 0 then AList.delete userId cm else AList.update userId cs' cm))"

text \<open>\<open>CloseAll\<close>: the connections it closes, after letting go of the lock, and the map it leaves.\<close>

definition ConnectionManager_CloseAll :: "int \<Rightarrow> ConnectionManager \<Rightarrow> nat list \<times> ConnectionManager" where
  "ConnectionManager_CloseAll userId cm =
     ((case map_of cm userId of None \<Rightarrow> [] | Some cs \<Rightarrow> cs), AList.delete userId cm)"

definition conns_of :: "ConnectionManager \<Rightarrow> (int \<times> nat) set" where
  "conns_of cm = {(u, c). \<exists>cs. map_of cm u = Some cs \<and> c \<in> set cs}"

interpretation conns: conn_registry conns_of ConnectionManager_Add ConnectionManager_Remove ConnectionManager_CloseAll
proof
  show "conns_of (ConnectionManager_Add u c s) = insert (u, c) (conns_of s)" for u c s
    by (auto simp: conns_of_def ConnectionManager_Add_def map_of_AList_update split: option.splits if_splits)
  show "conns_of (ConnectionManager_Remove u c s) = conns_of s - {(u, c)}" for u c s
    by (auto simp: conns_of_def ConnectionManager_Remove_def Let_def map_of_AList_update map_of_AList_delete
        removeAll_empty split: option.splits if_splits)
  show "set (fst (ConnectionManager_CloseAll u s)) = {c. (u, c) \<in> conns_of s}" for u s
    by (cases "map_of s u") (auto simp: conns_of_def ConnectionManager_CloseAll_def)
  show "conns_of (snd (ConnectionManager_CloseAll u s)) = {x \<in> conns_of s. fst x \<noteq> u}" for u s
    by (auto simp: conns_of_def ConnectionManager_CloseAll_def map_of_AList_delete split: if_splits)
qed

section \<open>Users\<close>

record User =
  user_ID :: int
  UUID :: string

type_synonym UserManager = "(string \<times> User) list"

definition user_key :: "(byte list \<Rightarrow> byte list) \<Rightarrow> string \<Rightarrow> string" where
  "user_key sha256 uuid = hex_EncodeToString (sha256 (bytes_of_string uuid))"

definition addUsers :: "(byte list \<Rightarrow> byte list) \<Rightarrow> User list \<Rightarrow> UserManager \<Rightarrow> UserManager" where
  "addUsers sha256 users um = foldl (\<lambda>m u. AList.update (user_key sha256 (UUID u)) u m) um users"

text \<open>\<open>deleteUsers\<close>: also the connections that get closed, in order.\<close>

fun deleteUsers ::
  "(byte list \<Rightarrow> byte list) \<Rightarrow> User list \<Rightarrow> UserManager \<Rightarrow> ConnectionManager \<Rightarrow>
   UserManager \<times> ConnectionManager \<times> nat list" where
  "deleteUsers sha256 [] um cm = (um, cm, [])"
| "deleteUsers sha256 (u # us) um cm =
     (let um1 = AList.delete (user_key sha256 (UUID u)) um;
          (closed, cm1) = ConnectionManager_CloseAll (user_ID u) cm;
          (um2, cm2, closed2) = deleteUsers sha256 us um1 cm1
      in (um2, cm2, closed @ closed2))"

definition countUsers :: "UserManager \<Rightarrow> nat" where
  "countUsers um = length um"

definition authAndGetUserId :: "string \<Rightarrow> UserManager \<Rightarrow> int option" where
  "authAndGetUserId hexString um = map_option user_ID (map_of um hexString)"

text \<open>\<open>compareUserList\<close>: the maps by UUID and the two differences.\<close>

definition by_uuid :: "User list option \<Rightarrow> (string \<times> User) list" where
  "by_uuid users = (case users of None \<Rightarrow> [] | Some us \<Rightarrow> foldl (\<lambda>m u. AList.update (UUID u) u m) [] us)"

definition compareUserList ::
  "((string \<times> User) list \<Rightarrow> (string \<times> User) list) \<Rightarrow> User list option \<Rightarrow> User list option \<Rightarrow>
   User list \<times> User list" where
  "compareUserList order oldUsers newUsers =
     (let oldMap = by_uuid oldUsers; newMap = by_uuid newUsers
      in (map snd (filter (\<lambda>e. map_of newMap (fst e) = None) (order oldMap)),
          map snd (filter (\<lambda>e. map_of oldMap (fst e) = None) (order newMap))))"

record UsersService =
  us_users :: UserManager
  us_conns :: ConnectionManager
  us_userList :: "User list option"
  us_closed :: "nat list"

text \<open>\<open>init\<close>: the first fetch. The API gives an error or a list.\<close>

definition UsersService_init ::
  "(byte list \<Rightarrow> byte list) \<Rightarrow> string \<Rightarrow> go_error + User list \<Rightarrow> UsersService \<Rightarrow>
   go_error option \<times> UsersService" where
  "UsersService_init sha256 registerID reply s =
     (if registerID = '''' then (Some (ErrMsg ''register id is not set''), s)
      else (case reply of
              Inl err \<Rightarrow> (Some err, s)
            | Inr userList \<Rightarrow>
                (None, s\<lparr>us_userList := Some userList, us_users := addUsers sha256 userList (us_users s)\<rparr>)))"

text \<open>\<open>FetchUsersTask\<close>: \<open>us_closed\<close> records the connections on which \<open>Close\<close> was called.\<close>

definition FetchUsersTask ::
  "(byte list \<Rightarrow> byte list) \<Rightarrow> ((string \<times> User) list \<Rightarrow> (string \<times> User) list) \<Rightarrow>
   go_error + User list option \<Rightarrow> UsersService \<Rightarrow> UsersService" where
  "FetchUsersTask sha256 order reply s =
     (case reply of
        Inl err \<Rightarrow> s
      | Inr newUserList \<Rightarrow>
          (let (deleted, added) = compareUserList order (us_userList s) newUserList;
               s1 = (if length deleted > 0 then
                       (let (um, cm, closed) = deleteUsers sha256 deleted (us_users s) (us_conns s)
                        in s\<lparr>us_users := um, us_conns := cm, us_closed := us_closed s @ closed\<rparr>)
                     else s);
               s2 = (if length added > 0 then s1\<lparr>us_users := addUsers sha256 added (us_users s1)\<rparr> else s1)
           in s2\<lparr>us_userList := newUserList\<rparr>))"

definition AuthAndGetUserId :: "string \<Rightarrow> UsersService \<Rightarrow> int option" where
  "AuthAndGetUserId hexString s = authAndGetUserId hexString (us_users s)"

definition RegisterConnection :: "int \<Rightarrow> nat \<Rightarrow> UsersService \<Rightarrow> UsersService" where
  "RegisterConnection userId conn s = s\<lparr>us_conns := ConnectionManager_Add userId conn (us_conns s)\<rparr>"

definition UnregisterConnection :: "int \<Rightarrow> nat \<Rightarrow> UsersService \<Rightarrow> UsersService" where
  "UnregisterConnection userId conn s = s\<lparr>us_conns := ConnectionManager_Remove userId conn (us_conns s)\<rparr>"

section \<open>The user list\<close>

definition uuids :: "User list option \<Rightarrow> string set" where
  "uuids users = (case users of None \<Rightarrow> {} | Some us \<Rightarrow> UUID ` set us)"

lemma dom_fold_update:
  "dom (map_of (foldl (\<lambda>m u. AList.update (f u) u m) m us)) = dom (map_of m) \<union> f ` set us"
  by (induction us arbitrary: m) (auto simp: map_of_AList_update)

lemma dom_by_uuid: "dom (map_of (by_uuid users)) = uuids users"
  by (simp add: by_uuid_def uuids_def dom_fold_update split: option.split)

lemma by_uuid_entry_update:
  "(\<And>k u. (k, u) \<in> set m \<Longrightarrow> k = UUID u) \<Longrightarrow> (k, u) \<in> set (foldl (\<lambda>m u. AList.update (UUID u) u m) m us) \<Longrightarrow> k = UUID u"
proof (induction us arbitrary: m)
  case (Cons v vs)
  have "k = UUID u" if "(k, u) \<in> set (AList.update (UUID v) v m)" for k u
    using AList_update_set [OF that] Cons.prems(1) by auto
  then show ?case using Cons.IH [of "AList.update (UUID v) v m"] Cons.prems(2) by simp
qed simp

lemma by_uuid_entry: "(k, u) \<in> set (by_uuid users) \<Longrightarrow> k = UUID u"
  using by_uuid_entry_update [of "[]" k u] by (auto simp: by_uuid_def split: option.splits)

lemma compareUserList_uuids:
  assumes "\<And>m. set (order m) = set m"
  shows "UUID ` set (fst (compareUserList order old new)) = uuids old - uuids new"
    and "UUID ` set (snd (compareUserList order old new)) = uuids new - uuids old"
proof -
  have sel: "UUID ` set (map snd (filter (\<lambda>e. map_of (by_uuid b) (fst e) = None) (order (by_uuid a)))) =
      uuids a - uuids b" for a b
  proof -
    have "UUID ` set (map snd (filter (\<lambda>e. map_of (by_uuid b) (fst e) = None) (order (by_uuid a)))) =
        (\<lambda>e. UUID (snd e)) ` {e \<in> set (by_uuid a). map_of (by_uuid b) (fst e) = None}"
      by (simp add: assms image_image)
    also have "\<dots> = fst ` {e \<in> set (by_uuid a). map_of (by_uuid b) (fst e) = None}"
      by (rule image_cong) (auto dest: by_uuid_entry)
    also have "\<dots> = {k. k \<in> fst ` set (by_uuid a) \<and> map_of (by_uuid b) k = None}" by force
    also have "fst ` set (by_uuid a) = uuids a"
      using dom_by_uuid [of a] by (simp add: dom_map_of_conv_image_fst)
    also have "{k. k \<in> uuids a \<and> map_of (by_uuid b) k = None} = uuids a - uuids b"
      unfolding dom_by_uuid [of b, symmetric] by (auto simp: domIff)
    finally show ?thesis .
  qed
  show "UUID ` set (fst (compareUserList order old new)) = uuids old - uuids new"
    and "UUID ` set (snd (compareUserList order old new)) = uuids new - uuids old"
    by (simp_all add: compareUserList_def Let_def sel del: set_map set_filter)
qed

text \<open>A deleted user's entry in the list is one of the old list.\<close>

lemma deleteUsers_users:
  "dom (map_of (fst (deleteUsers sha256 us um cm))) = dom (map_of um) - (\<lambda>u. user_key sha256 (UUID u)) ` set us"
  by (induction us arbitrary: um cm) (auto simp: Let_def split_beta map_of_AList_delete)

lemma deleteUsers_conns:
  "fst (snd (deleteUsers sha256 us um cm)) = foldl (\<lambda>s u. snd (ConnectionManager_CloseAll u s)) cm (map user_ID us)"
  by (induction us arbitrary: um cm) (simp_all add: Let_def split_beta)

lemma deleteUsers_closed:
  "set (snd (snd (deleteUsers sha256 us um cm))) = {c. \<exists>u \<in> set us. (user_ID u, c) \<in> conns_of cm}"
proof (induction us arbitrary: um cm)
  case (Cons v vs)
  have "set (snd (snd (deleteUsers sha256 vs um1 (snd (ConnectionManager_CloseAll (user_ID v) cm))))) =
      {c. \<exists>u \<in> set vs. (user_ID u, c) \<in> conns_of cm \<and> user_ID u \<noteq> user_ID v}" for um1
    using Cons conns.take_rest [of "user_ID v" cm] by auto
  then show ?case using conns.take_list [of "user_ID v" cm] by (auto simp: Let_def split_beta)
qed simp

text \<open>The users that can authenticate are those of the current list.\<close>

definition users_inv :: "(byte list \<Rightarrow> byte list) \<Rightarrow> UsersService \<Rightarrow> bool" where
  "users_inv sha256 s \<longleftrightarrow> dom (map_of (us_users s)) = user_key sha256 ` uuids (us_userList s)"

lemma dom_addUsers:
  "dom (map_of (addUsers sha256 us um)) = dom (map_of um) \<union> (\<lambda>u. user_key sha256 (UUID u)) ` set us"
  by (simp add: addUsers_def dom_fold_update)

lemma auth_dom: "(AuthAndGetUserId h s \<noteq> None) = (h \<in> dom (map_of (us_users s)))"
  by (auto simp: AuthAndGetUserId_def authAndGetUserId_def dom_def)

section \<open>Properties of the user list\<close>

text \<open>The state after a successful fetch.\<close>

lemma FetchUsersTask_Inr:
  assumes "compareUserList order (us_userList s) new = (deleted, added)"
  shows "FetchUsersTask sha256 order (Inr new) s =
    s\<lparr>us_users := addUsers sha256 added (fst (deleteUsers sha256 deleted (us_users s) (us_conns s))),
      us_conns := fst (snd (deleteUsers sha256 deleted (us_users s) (us_conns s))),
      us_closed := us_closed s @ snd (snd (deleteUsers sha256 deleted (us_users s) (us_conns s))),
      us_userList := new\<rparr>"
  using assms by (cases deleted; cases added) (simp_all add: FetchUsersTask_def split_beta addUsers_def Let_def)

text \<open>The keys of the table after it, if SHA-256 does not collide on the UUIDs concerned.\<close>

lemma FetchUsersTask_keys:
  assumes "users_inv sha256 s" and "\<And>m. set (order m) = set m"
    and "inj_on (user_key sha256) (uuids (us_userList s) \<union> uuids new)"
  shows "dom (map_of (us_users (FetchUsersTask sha256 order (Inr new) s))) = user_key sha256 ` uuids new"
    and "us_userList (FetchUsersTask sha256 order (Inr new) s) = new"
proof -
  obtain deleted added where cmp: "compareUserList order (us_userList s) new = (deleted, added)" by fastforce
  let ?k = "user_key sha256"
  note fetch = FetchUsersTask_Inr [OF cmp, of sha256]
  have del: "UUID ` set deleted = uuids (us_userList s) - uuids new"
    and add: "UUID ` set added = uuids new - uuids (us_userList s)"
    using compareUserList_uuids [where order = order, OF assms(2), of "us_userList s" new] cmp by simp_all
  have "dom (map_of (us_users (FetchUsersTask sha256 order (Inr new) s))) =
      (?k ` uuids (us_userList s) - ?k ` UUID ` set deleted) \<union> ?k ` UUID ` set added"
    using assms(1) by (simp add: fetch dom_addUsers deleteUsers_users users_inv_def image_image)
  also have "\<dots> = ?k ` uuids new"
    using inj_on_image_set_diff [OF assms(3), of "uuids (us_userList s)" "uuids (us_userList s) - uuids new"]
    unfolding del add by auto
  finally show "dom (map_of (us_users (FetchUsersTask sha256 order (Inr new) s))) = user_key sha256 ` uuids new" .
  show "us_userList (FetchUsersTask sha256 order (Inr new) s) = new" by (simp add: fetch)
qed

text \<open>C2: after a successful fetch exactly the users of the new list can authenticate, by the hash of
  their UUID, whatever the iteration order of the maps, if SHA-256 does not collide on the
  UUIDs concerned; every connection of a user no longer listed is closed and forgotten, and
  the connections of all other users are kept.\<close>

theorem fetch_users_effect:
  assumes "users_inv sha256 s" and "\<And>m. set (order m) = set m"
    and "inj_on (user_key sha256) (uuids (us_userList s) \<union> uuids new)"
    and "deleted = fst (compareUserList order (us_userList s) new)"
  shows "users_inv sha256 (FetchUsersTask sha256 order (Inr new) s) \<and>
         (\<forall>h. AuthAndGetUserId h (FetchUsersTask sha256 order (Inr new) s) \<noteq> None \<longleftrightarrow>
            (\<exists>uuid \<in> uuids new. h = user_key sha256 uuid)) \<and>
         UUID ` set deleted = uuids (us_userList s) - uuids new \<and>
         conns_of (us_conns (FetchUsersTask sha256 order (Inr new) s)) =
           {x \<in> conns_of (us_conns s). fst x \<notin> user_ID ` set deleted} \<and>
         (\<forall>(u, c) \<in> conns_of (us_conns s). u \<in> user_ID ` set deleted \<longrightarrow>
            c \<in> set (us_closed (FetchUsersTask sha256 order (Inr new) s)))"
proof -
  obtain added where cmp: "compareUserList order (us_userList s) new = (deleted, added)"
    using assms(4) by (cases "compareUserList order (us_userList s) new") simp
  let ?s = "FetchUsersTask sha256 order (Inr new) s"
  note fetch = FetchUsersTask_Inr [OF cmp, of sha256]
  have del: "UUID ` set deleted = uuids (us_userList s) - uuids new"
    using compareUserList_uuids(1) [where order = order, OF assms(2), of "us_userList s" new] cmp by simp
  let ?k = "user_key sha256"
  have dom: "dom (map_of (us_users ?s)) = ?k ` uuids new" by (rule FetchUsersTask_keys [OF assms(1-3)])
  then have inv: "users_inv sha256 ?s" by (simp add: users_inv_def fetch)
  have auth: "\<forall>h. AuthAndGetUserId h ?s \<noteq> None \<longleftrightarrow> (\<exists>uuid \<in> uuids new. h = ?k uuid)"
    unfolding auth_dom dom by (simp add: image_iff)
  have conns: "conns_of (us_conns ?s) = {x \<in> conns_of (us_conns s). fst x \<notin> user_ID ` set deleted}"
    using conns.take_many [of "us_conns s" "map user_ID deleted"] by (simp add: fetch deleteUsers_conns)
  have "us_closed ?s = us_closed s @ snd (snd (deleteUsers sha256 deleted (us_users s) (us_conns s)))"
    by (simp add: fetch)
  then have "c \<in> set (us_closed ?s)" if "(u, c) \<in> conns_of (us_conns s)" "u \<in> user_ID ` set deleted" for u c
  proof -
    have "c \<in> {c. \<exists>u \<in> set deleted. (user_ID u, c) \<in> conns_of (us_conns s)}" using that by blast
    then show ?thesis
      using \<open>us_closed ?s = _\<close> unfolding deleteUsers_closed [of sha256 deleted "us_users s" "us_conns s", symmetric]
      by (simp only: set_append Un_iff) blast
  qed
  then have "\<forall>(u, c) \<in> conns_of (us_conns s). u \<in> user_ID ` set deleted \<longrightarrow> c \<in> set (us_closed ?s)" by blast
  then show ?thesis using inv auth del conns by blast
qed

text \<open>In any case a fetch takes the connections of some users out of the map and closes just those.\<close>

lemma FetchUsersTask_conns:
  "\<exists>U. conns_of (us_conns (FetchUsersTask sha256 order reply s)) = {x \<in> conns_of (us_conns s). fst x \<notin> U} \<and>
       set (us_closed (FetchUsersTask sha256 order reply s)) =
         set (us_closed s) \<union> {c. \<exists>u \<in> U. (u, c) \<in> conns_of (us_conns s)} \<and>
       (case reply of Inl err \<Rightarrow> U = {}
        | Inr new \<Rightarrow> U = user_ID ` set (fst (compareUserList order (us_userList s) new)))"
proof (cases reply)
  case (Inl err)
  then show ?thesis by (intro exI [of _ "{}"]) (simp add: FetchUsersTask_def)
next
  case (Inr new)
  obtain deleted added where cmp: "compareUserList order (us_userList s) new = (deleted, added)" by fastforce
  note fetch = FetchUsersTask_Inr [OF cmp, of sha256]
  have "conns_of (us_conns (FetchUsersTask sha256 order reply s)) =
      {x \<in> conns_of (us_conns s). fst x \<notin> user_ID ` set deleted}"
    using conns.take_many [of "us_conns s" "map user_ID deleted"] by (simp add: Inr fetch deleteUsers_conns)
  moreover have "set (us_closed (FetchUsersTask sha256 order reply s)) =
      set (us_closed s) \<union> {c. \<exists>u \<in> user_ID ` set deleted. (u, c) \<in> conns_of (us_conns s)}"
    using deleteUsers_closed [of sha256 deleted "us_users s" "us_conns s"] by (simp add: Inr fetch)
  ultimately show ?thesis using Inr cmp by (intro exI [of _ "user_ID ` set deleted"]) simp
qed

definition demo_users :: UsersService where
  "demo_users = snd (UsersService_init (\<lambda>b. b) ''r'' (Inr [\<lparr>user_ID = 1, UUID = ''a''\<rparr>, \<lparr>user_ID = 2, UUID = ''b''\<rparr>])
     \<lparr>us_users = [], us_conns = [(1, [7]), (2, [8])], us_userList = None, us_closed = []\<rparr>)"

lemma UsersService_init_inv:
  assumes "us_users s = []" and "rid \<noteq> ''''"
  shows "users_inv sha256 (snd (UsersService_init sha256 rid (Inr us) s))"
  using assms dom_addUsers [of sha256 us "[]"]
  by (simp add: UsersService_init_def users_inv_def uuids_def image_image)

theorem fetch_users_effect_witness:
  "conns_of (us_conns (FetchUsersTask (\<lambda>b. b) id (Inr (Some [\<lparr>user_ID = 1, UUID = ''a''\<rparr>])) demo_users)) = {(1, 7)}"
proof -
  have inv: "users_inv (\<lambda>b. b) demo_users"
    unfolding demo_users_def by (rule UsersService_init_inv) simp_all
  have list: "us_userList demo_users = Some [\<lparr>user_ID = 1, UUID = ''a''\<rparr>, \<lparr>user_ID = 2, UUID = ''b''\<rparr>]"
    "us_conns demo_users = [(1, [7]), (2, [8])]"
    by (simp_all add: demo_users_def UsersService_init_def)
  have "inj_on (user_key (\<lambda>b. b)) (uuids (us_userList demo_users) \<union> uuids (Some [\<lparr>user_ID = 1, UUID = ''a''\<rparr>]))"
    by (auto simp: inj_on_def list uuids_def user_key_def bytes_of_string_def hex_EncodeToString_def hex_digit_def)
  from fetch_users_effect [OF inv _ this refl, of id]
  have "conns_of (us_conns (FetchUsersTask (\<lambda>b. b) id (Inr (Some [\<lparr>user_ID = 1, UUID = ''a''\<rparr>])) demo_users)) =
      {x \<in> conns_of (us_conns demo_users). fst x \<notin> {2}}"
    by (simp add: list compareUserList_def by_uuid_def)
  then show ?thesis by (auto simp: list conns_of_def split: if_splits)
qed

text \<open>users are compared by UUID only, so a user whose number changes under the same UUID keeps the
  old number for authentication, while the list has the new one; when that user is later
  removed, the connections of the new number are closed and those registered, under the old
  one, stay open.\<close>

definition renumber_run :: "UsersService \<Rightarrow> UsersService" where
  "renumber_run s0 =
     (let s1 = snd (UsersService_init (\<lambda>b. b) ''r'' (Inr [\<lparr>user_ID = 1, UUID = ''a''\<rparr>]) s0);
          s2 = FetchUsersTask (\<lambda>b. b) id (Inr (Some [\<lparr>user_ID = 2, UUID = ''a''\<rparr>])) s1;
          s3 = (case AuthAndGetUserId (user_key (\<lambda>b. b) ''a'') s2 of
                  Some userId \<Rightarrow> RegisterConnection userId 7 s2
                | None \<Rightarrow> s2)
      in FetchUsersTask (\<lambda>b. b) id (Inr (Some [])) s3)"

theorem renumbered_user_escapes:
  "case renumber_run \<lparr>us_users = [], us_conns = [], us_userList = None, us_closed = []\<rparr> of
     s \<Rightarrow> us_userList s = Some [] \<and> us_users s = [] \<and> us_closed s = [] \<and> us_conns s = [(1, [7])]"
  by (simp add: renumber_run_def UsersService_init_def FetchUsersTask_def compareUserList_def by_uuid_def
      addUsers_def AuthAndGetUserId_def authAndGetUserId_def RegisterConnection_def ConnectionManager_Add_def
      ConnectionManager_CloseAll_def user_key_def)

end
