(* ===== verification/Traffic.thy ===== *)
theory Traffic
  imports GoStd
begin

text \<open>
  The traffic counters of \<open>internal/pkg/service/users.go\<close>: \<open>TrafficItem\<close>, \<open>TrafficManager\<close> and
  \<open>ReportTrafficsTask\<close>. The counters are atomic and are bumped by connections while a report
  is being taken, so the task is modelled as a thread whose steps, down to the single
  \<open>Swap\<close>, interleave with the additions. Counters are 64-bit words and wrap.
\<close>

section \<open>Counters\<close>

datatype traffic = Traffic (Up: u64) (Down: u64) (Count: u64)

instantiation traffic :: comm_monoid_add
begin

definition zero_traffic :: traffic where
  "zero_traffic = Traffic 0 0 0"

definition plus_traffic :: "traffic \<Rightarrow> traffic \<Rightarrow> traffic" where
  "plus_traffic a b = Traffic (Up a + Up b) (Down a + Down b) (Count a + Count b)"

instance
  by intro_classes (auto simp: zero_traffic_def plus_traffic_def ac_simps)

end

lemma traffic_sel [simp]:
  "Up (a + b) = Up a + Up b" "Down (a + b) = Down a + Down b" "Count (a + b) = Count a + Count b"
  "Up 0 = 0" "Down 0 = 0" "Count 0 = 0"
  by (simp_all add: plus_traffic_def zero_traffic_def)

lemma traffic_split: "Traffic u 0 0 + (Traffic 0 d 0 + Traffic 0 0 n) = Traffic u d n"
  by (simp add: plus_traffic_def)

lemma Traffic_0 [simp]: "Traffic 0 0 0 = 0"
  by (simp add: zero_traffic_def)

section \<open>The store\<close>

type_synonym TrafficManager = "(int \<times> traffic) list"

definition loadOrStore :: "int \<Rightarrow> TrafficManager \<Rightarrow> traffic \<times> TrafficManager" where
  "loadOrStore userId tm =
     (case map_of tm userId of
        Some item \<Rightarrow> (item, tm)
      | None \<Rightarrow> (0, AList.update userId 0 tm))"

text \<open>\<open>item.Up.Add\<close> and so on, on the item \<open>loadOrStore\<close> gives.\<close>

definition traffic_add :: "int \<Rightarrow> traffic \<Rightarrow> TrafficManager \<Rightarrow> TrafficManager" where
  "traffic_add userId t tm = (case loadOrStore userId tm of (item, tm1) \<Rightarrow> AList.update userId (item + t) tm1)"

definition restore :: "(int \<times> traffic) list \<Rightarrow> TrafficManager \<Rightarrow> TrafficManager" where
  "restore traffics tm = foldl (\<lambda>m (uid, t). traffic_add uid t m) tm traffics"

text \<open>What is stored for a user; a user without an item counts as zero.\<close>

definition stored :: "TrafficManager \<Rightarrow> int \<Rightarrow> traffic" where
  "stored tm u = (case map_of tm u of Some t \<Rightarrow> t | None \<Rightarrow> 0)"

definition reported :: "(int \<times> traffic) list \<Rightarrow> int \<Rightarrow> traffic" where
  "reported ts u = sum_list (map snd (filter (\<lambda>e. fst e = u) ts))"

lemma stored_add: "stored (traffic_add u t tm) v = (if v = u then stored tm u + t else stored tm v)"
  by (simp add: stored_def traffic_add_def loadOrStore_def map_of_AList_update split: option.split)

lemma reported_simps [simp]:
  "reported [] u = 0" "reported (ts @ us) u = reported ts u + reported us u"
  "reported ((v, t) # ts) u = (if v = u then t else 0) + reported ts u"
  by (simp_all add: reported_def)

lemma stored_restore: "stored (restore ts tm) u = stored tm u + reported ts u"
proof (induction ts arbitrary: tm)
  case Nil
  then show ?case by (simp add: restore_def)
next
  case (Cons e ts)
  then show ?case by (cases e) (simp add: restore_def stored_add ac_simps)
qed

section \<open>The drain run on its own\<close>

text \<open>\<open>drainUserTraffics\<close> with nothing else running, over the keys in the order \<open>Range\<close> gives them.\<close>

definition drain_item :: "int \<Rightarrow> TrafficManager \<Rightarrow> (int \<times> traffic) list \<times> TrafficManager" where
  "drain_item uid tm =
     (case map_of tm uid of
        None \<Rightarrow> ([], tm)
      | Some item \<Rightarrow>
          ((if Up item > 0 \<or> Down item > 0 \<or> Count item > 0 then [(uid, item)] else []),
           AList.update uid 0 tm))"

fun drainUserTraffics :: "int list \<Rightarrow> TrafficManager \<Rightarrow> (int \<times> traffic) list \<times> TrafficManager" where
  "drainUserTraffics [] tm = ([], tm)"
| "drainUserTraffics (uid # keys) tm =
     (let (here, tm1) = drain_item uid tm; (rest, tm2) = drainUserTraffics keys tm1
      in (here @ rest, tm2))"

text \<open>\<open>ReportTrafficsTask\<close>: \<open>ok\<close> tells whether \<open>Submit\<close> succeeds. The second result is what the
  panel has accepted.\<close>

definition ReportTrafficsTask ::
  "int list \<Rightarrow> bool \<Rightarrow> TrafficManager \<Rightarrow> TrafficManager \<times> (int \<times> traffic) list" where
  "ReportTrafficsTask keys ok tm =
     (case drainUserTraffics keys tm of
        (userTraffics, tm1) \<Rightarrow>
          if length userTraffics > 0 then
            (if ok then (tm1, userTraffics) else (restore userTraffics tm1, []))
          else (tm1, []))"

lemma traffic_zero_iff: "\<not> (Up t > 0 \<or> Down t > 0 \<or> Count t > 0) \<Longrightarrow> t = 0"
  by (cases t) (auto simp: word_gt_0)

lemma traffic_eqI: "Up a = Up b \<Longrightarrow> Down a = Down b \<Longrightarrow> Count a = Count b \<Longrightarrow> a = b"
  by (cases a; cases b) simp

lemma drain_conserves:
  "drainUserTraffics keys tm = (ts, tm') \<Longrightarrow> stored tm' u + reported ts u = stored tm u"
proof (induction keys arbitrary: tm ts tm')
  case (Cons uid keys)
  obtain here tm1 where d: "drain_item uid tm = (here, tm1)" by fastforce
  obtain rest tm2 where r: "drainUserTraffics keys tm1 = (rest, tm2)" by fastforce
  have "stored tm1 u + reported here u = stored tm u"
  proof (cases "map_of tm uid")
    case None
    then show ?thesis using d by (auto simp: drain_item_def)
  next
    case (Some item)
    then have tm1: "tm1 = AList.update uid 0 tm" using d by (simp add: drain_item_def)
    have here: "reported here u = (if uid = u then item else 0)"
    proof (cases "Up item > 0 \<or> Down item > 0 \<or> Count item > 0")
      case True
      then have "here = [(uid, item)]" using d Some by (simp add: drain_item_def)
      then show ?thesis by simp
    next
      case False
      then have "here = []" "item = 0" using d Some traffic_zero_iff [OF False] by (simp_all add: drain_item_def)
      then show ?thesis by simp
    qed
    show ?thesis using Some by (cases "uid = u") (simp_all add: here tm1 stored_def map_of_AList_update)
  qed
  then show ?case using Cons.IH [OF r] Cons.prems d r by (auto simp: ac_simps)
qed simp

section \<open>The task among its users\<close>

text \<open>
  The thread of \<open>ReportTrafficsTask\<close>: the keys still to visit, what has been taken so far, and
  within an item the counters already swapped out.
\<close>

datatype task =
    TIdle
  | TScan "int list" "(int \<times> traffic) list"
  | TDown int u64 "int list" "(int \<times> traffic) list"
  | TCount int u64 u64 "int list" "(int \<times> traffic) list"
  | TSubmit "(int \<times> traffic) list"
  | TRestore "(int \<times> traffic) list"

record reporter =
  rp_store :: TrafficManager
  rp_task :: task
  g_added :: "int \<Rightarrow> traffic"
  g_sent :: "(int \<times> traffic) list"

definition set_item :: "int \<Rightarrow> (traffic \<Rightarrow> traffic) \<Rightarrow> reporter \<Rightarrow> reporter" where
  "set_item u f s = s\<lparr>rp_store := AList.update u (f (stored (rp_store s) u)) (rp_store s)\<rparr>"

inductive task_step :: "reporter \<Rightarrow> reporter \<Rightarrow> bool" where
  t_start: "rp_task s = TIdle \<Longrightarrow> task_step s (s\<lparr>rp_task := TScan keys []\<rparr>)"
| t_up: "rp_task s = TScan (uid # keys) acc \<Longrightarrow> map_of (rp_store s) uid = Some item \<Longrightarrow>
     task_step s ((set_item uid (\<lambda>t. Traffic 0 (Down t) (Count t)) s)\<lparr>rp_task := TDown uid (Up item) keys acc\<rparr>)"
| t_skip: "rp_task s = TScan (uid # keys) acc \<Longrightarrow> map_of (rp_store s) uid = None \<Longrightarrow>
     task_step s (s\<lparr>rp_task := TScan keys acc\<rparr>)"
| t_down: "rp_task s = TDown uid up keys acc \<Longrightarrow>
     task_step s ((set_item uid (\<lambda>t. Traffic (Up t) 0 (Count t)) s)
       \<lparr>rp_task := TCount uid up (Down (stored (rp_store s) uid)) keys acc\<rparr>)"
| t_count: "rp_task s = TCount uid up down keys acc \<Longrightarrow> cnt = Count (stored (rp_store s) uid) \<Longrightarrow>
     task_step s ((set_item uid (\<lambda>t. Traffic (Up t) (Down t) 0) s)
       \<lparr>rp_task := TScan keys (if up > 0 \<or> down > 0 \<or> cnt > 0 then acc @ [(uid, Traffic up down cnt)] else acc)\<rparr>)"
| t_none: "rp_task s = TScan [] [] \<Longrightarrow> task_step s (s\<lparr>rp_task := TIdle\<rparr>)"
| t_submit: "rp_task s = TScan [] acc \<Longrightarrow> acc \<noteq> [] \<Longrightarrow> task_step s (s\<lparr>rp_task := TSubmit acc\<rparr>)"
| t_accepted: "rp_task s = TSubmit acc \<Longrightarrow> task_step s (s\<lparr>rp_task := TIdle, g_sent := g_sent s @ acc\<rparr>)"
| t_failed: "rp_task s = TSubmit acc \<Longrightarrow> task_step s (s\<lparr>rp_task := TRestore acc\<rparr>)"
| t_restore: "rp_task s = TRestore ((uid, t) # acc) \<Longrightarrow>
     task_step s (s\<lparr>rp_store := traffic_add uid t (rp_store s), rp_task := TRestore acc\<rparr>)"
| t_restored: "rp_task s = TRestore [] \<Longrightarrow> task_step s (s\<lparr>rp_task := TIdle\<rparr>)"

text \<open>The task, or a connection that adds to the counters of user \<open>u\<close>.\<close>

inductive report_step :: "reporter \<Rightarrow> reporter \<Rightarrow> bool" where
  t_task: "task_step s s' \<Longrightarrow> report_step s s'"
| t_bump: "report_step s (s\<lparr>rp_store := traffic_add u t (rp_store s), g_added := (g_added s)(u := g_added s u + t)\<rparr>)"

inductive report_reach :: "reporter \<Rightarrow> bool" where
  report_init: "report_reach \<lparr>rp_store = [], rp_task = TIdle, g_added = \<lambda>_. 0, g_sent = []\<rparr>"
| report_more: "report_reach s \<Longrightarrow> report_step s s' \<Longrightarrow> report_reach s'"

text \<open>What the thread holds of user \<open>u\<close>.\<close>

fun task_holds :: "task \<Rightarrow> int \<Rightarrow> traffic" where
  "task_holds TIdle u = 0"
| "task_holds (TScan keys acc) u = reported acc u"
| "task_holds (TDown uid up keys acc) u = (if uid = u then Traffic up 0 0 else 0) + reported acc u"
| "task_holds (TCount uid up down keys acc) u = (if uid = u then Traffic up down 0 else 0) + reported acc u"
| "task_holds (TSubmit acc) u = reported acc u"
| "task_holds (TRestore acc) u = reported acc u"

lemma stored_set_item: "stored (rp_store (set_item u f s)) v =
    (if v = u then f (stored (rp_store s) u) else stored (rp_store s) v)"
  by (simp add: set_item_def stored_def map_of_AList_update)

lemma set_item_ghosts [simp]:
  "g_added (set_item u f s) = g_added s" "g_sent (set_item u f s) = g_sent s"
  by (simp_all add: set_item_def)

definition conserved :: "reporter \<Rightarrow> bool" where
  "conserved s \<longleftrightarrow> (\<forall>u. g_added s u = reported (g_sent s) u + stored (rp_store s) u + task_holds (rp_task s) u)"

lemma conserved_task:
  assumes "task_step s s'" and "conserved s"
  shows "conserved s'"
  using assms
proof (cases rule: task_step.cases)
  case (t_up uid keys acc item)
  have "stored (rp_store s) uid = item" using t_up by (simp add: stored_def)
  then show ?thesis using t_up assms(2)
    by (auto simp: conserved_def stored_set_item plus_traffic_def traffic.expand)
next
  case (t_down uid up keys acc)
  then show ?thesis using assms(2)
    by (auto simp: conserved_def stored_set_item plus_traffic_def traffic.expand)
next
  case (t_count uid up down keys acc cnt)
  have z: "\<not> (up > 0 \<or> down > 0 \<or> cnt > 0) \<Longrightarrow> up = 0 \<and> down = 0 \<and> cnt = 0"
    by (simp add: word_gt_0)
  show ?thesis using t_count assms(2) z
    by (auto simp: conserved_def stored_set_item plus_traffic_def traffic.expand)
qed (auto simp: conserved_def stored_add ac_simps)

lemma conserved_step:
  assumes "report_step s s'" and "conserved s"
  shows "conserved s'"
  using assms(1)
proof (cases rule: report_step.cases)
  case t_task
  then show ?thesis using assms(2) by (rule conserved_task)
next
  case (t_bump u t)
  then show ?thesis using assms(2) by (auto simp: conserved_def stored_add ac_simps)
qed

lemma task_step_added: "task_step s s' \<Longrightarrow> g_added s' = g_added s"
  by (erule task_step.cases) simp_all

lemma report_reach_conserved: "report_reach s \<Longrightarrow> conserved s"
proof (induction rule: report_reach.induct)
  case report_init
  then show ?case by (simp add: conserved_def stored_def)
next
  case (report_more s s')
  then show ?case using conserved_step by blast
qed

section \<open>Properties\<close>

text \<open>no traffic is lost or counted twice: in every interleaving of the report task with the
  connections that bump the counters, what was ever added for a user is what the panel has
  accepted, plus what is stored, plus what the task holds in its hands, for each of the three
  counters modulo \<open>2 ^ 64\<close>; so a failed submission loses nothing, and with the task idle all
  that has not been accepted is in the store.\<close>

theorem traffic_conserved:
  assumes "report_reach s"
  shows "g_added s u = reported (g_sent s) u + stored (rp_store s) u + task_holds (rp_task s) u \<and>
         (rp_task s = TIdle \<longrightarrow> g_added s u = reported (g_sent s) u + stored (rp_store s) u)"
  using report_reach_conserved [OF assms] by (simp add: conserved_def)

theorem traffic_conserved_witness:
  "\<exists>s. report_reach s \<and> rp_task s = TIdle \<and> g_added s 5 = Traffic 3 0 1 \<and>
     g_added s 5 = reported (g_sent s) 5 + stored (rp_store s) 5"
proof -
  let ?s0 = "\<lparr>rp_store = [], rp_task = TIdle, g_added = \<lambda>_. 0, g_sent = []\<rparr>"
  let ?s1 = "?s0\<lparr>rp_store := traffic_add 5 (Traffic 3 0 1) [], g_added := (\<lambda>_. 0)(5 := 0 + Traffic 3 0 1)\<rparr>"
  have "report_step ?s0 ?s1" using t_bump [of ?s0 5 "Traffic 3 0 1"] by simp
  then have "report_reach ?s1" using report_init report_more by blast
  then show ?thesis using traffic_conserved [of ?s1 5] by (intro exI [of _ ?s1]) simp
qed

text \<open>a report run on its own: for every user the stored counters and what the panel accepted add
  up to the counters before; a failed submission leaves every counter as it was.\<close>

theorem report_task_conserves:
  "case ReportTrafficsTask keys ok tm of
     (tm', sent) \<Rightarrow> \<forall>u. stored tm' u + reported sent u = stored tm u"
proof -
  obtain ts tm1 where d: "drainUserTraffics keys tm = (ts, tm1)" by fastforce
  then show ?thesis using drain_conserves [OF d]
    by (cases ok; cases ts) (auto simp: ReportTrafficsTask_def stored_restore)
qed

end
