(* ===== verification/Inbound.thy ===== *)
theory Inbound
  imports Outbound RecvInv Users Traffic
begin

text \<open>
  \<open>handleTcpConnection\<close> and \<open>CountedConn\<close> of \<open>internal/app/server/inbound_tcp.go\<close>, with
  \<open>outbound_tcp.go\<close>: what a connection sends before its session, the counting of its bytes,
  and the handler that is run for each of its streams. The packet buffer of the library
  \<open>sing\<close> and its operations on a stream are records of functions with the laws the code relies
  on.
\<close>

section \<open>The packet buffer\<close>

record 'b buflib =
  bl_ReadBytes :: "nat \<Rightarrow> 'b \<Rightarrow> (byte list \<times> 'b) option"
  bl_unread :: "'b \<Rightarrow> byte list"

text \<open>\<open>ReadBytes(n)\<close> takes \<open>n\<close> bytes off the front, or fails when there are fewer.\<close>

definition buflib_laws :: "'b buflib \<Rightarrow> bool" where
  "buflib_laws bl \<longleftrightarrow>
     (\<forall>n b. case bl_ReadBytes bl n b of
              None \<Rightarrow> length (bl_unread bl b) < n
            | Some (bs, b') \<Rightarrow> bs = take n (bl_unread bl b) \<and> n \<le> length (bl_unread bl b) \<and>
                bl_unread bl b' = drop n (bl_unread bl b))"

section \<open>Before the session\<close>

definition passwordLen :: nat where
  "passwordLen = 32"

definition paddingLenFieldSz :: nat where
  "paddingLenFieldSz = 2"

datatype refusal = NoPassword | BadPassword | NoPaddingLen | NoPadding

text \<open>
  From \<open>ReadBytes(passwordLen)\<close> to the padding: the user, the length of the padding and the
  buffer with what is left of the first read, or the return that was taken.
\<close>

definition readHandshake ::
  "'b buflib \<Rightarrow> (string \<Rightarrow> int option) \<Rightarrow> 'b \<Rightarrow> refusal + (int \<times> u16 \<times> 'b)" where
  "readHandshake bl auth b =
     (case bl_ReadBytes bl passwordLen b of
        None \<Rightarrow> Inl NoPassword
      | Some (passwordBytes, b1) \<Rightarrow>
          (case auth (hex_EncodeToString passwordBytes) of
             None \<Rightarrow> Inl BadPassword
           | Some userId \<Rightarrow>
               (case bl_ReadBytes bl paddingLenFieldSz b1 of
                  None \<Rightarrow> Inl NoPaddingLen
                | Some (paddingLenBytes, b2) \<Rightarrow>
                    (let paddingLen = Uint16 paddingLenBytes
                     in if paddingLen > 0 then
                          (case bl_ReadBytes bl (unat paddingLen) b2 of
                             None \<Rightarrow> Inl NoPadding
                           | Some (_, b3) \<Rightarrow> Inr (userId, paddingLen, b3))
                        else Inr (userId, paddingLen, b2)))))"

text \<open>\<open>uint64(passwordLen + paddingLenFieldSz + paddingLen)\<close>: the sum is taken in \<open>uint16\<close>.\<close>

definition header_count :: "u16 \<Rightarrow> u64" where
  "header_count paddingLen = ucast (of_nat passwordLen + of_nat paddingLenFieldSz + paddingLen :: u16)"

definition count_header :: "int \<Rightarrow> u16 \<Rightarrow> TrafficManager \<Rightarrow> TrafficManager" where
  "count_header userId paddingLen tm = traffic_add userId (Traffic (header_count paddingLen) 0 0) tm"

section \<open>Counting\<close>

text \<open>\<open>CountedConn\<close>: \<open>n\<close> is what the inner \<open>Read\<close> or \<open>Write\<close> returned.\<close>

definition CountedConn_Read :: "int \<Rightarrow> int \<Rightarrow> TrafficManager \<Rightarrow> TrafficManager" where
  "CountedConn_Read userId n tm = (if n > 0 then traffic_add userId (Traffic (of_int n) 0 0) tm else tm)"

definition CountedConn_Write :: "int \<Rightarrow> int \<Rightarrow> TrafficManager \<Rightarrow> TrafficManager" where
  "CountedConn_Write userId n tm = (if n > 0 then traffic_add userId (Traffic 0 (of_int n) 0) tm else tm)"

section \<open>The handler of a stream\<close>

text \<open>
  What the handler calls outside the repository: a call returns or panics, and leaves the
  session in some state. \<open>ou_Errors\<close> is \<open>E.Errors\<close>, \<open>ou_text\<close> is \<open>err.Error()\<close>.
\<close>

record ('o, 'r, 'c, 'u) outside =
  ou_engine :: "('o, 'r, 'c, 'u) engine"
  ou_router :: 'r
  ou_text :: "go_error \<Rightarrow> byte list"
  ou_Errors :: "go_error \<Rightarrow> go_error option \<Rightarrow> go_error"
  ou_ReadAddrPort :: "nat \<Rightarrow> Session \<Rightarrow> (go_error + string) panics \<times> Session"
  ou_ReadRequest :: "nat \<Rightarrow> Session \<Rightarrow> (go_error + unit) panics \<times> Session"
  ou_ReportFailure :: "go_error \<Rightarrow> nat \<Rightarrow> Session \<Rightarrow> go_error option panics \<times> Session"
  ou_ReportSuccess :: "nat \<Rightarrow> Session \<Rightarrow> go_error option panics \<times> Session"
  ou_CopyConn :: "'c \<Rightarrow> nat \<Rightarrow> Session \<Rightarrow> go_error option panics \<times> Session"
  ou_CopyPacketConn :: "'u \<Rightarrow> nat \<Rightarrow> Session \<Rightarrow> go_error option panics \<times> Session"

text \<open>One statement after another; a panic skips the rest.\<close>

definition and_then ::
  "'a panics \<times> Session \<Rightarrow> ('a \<Rightarrow> Session \<Rightarrow> 'b panics \<times> Session) \<Rightarrow> 'b panics \<times> Session" where
  "and_then m k = (case m of (None, s) \<Rightarrow> (None, s) | (Some x, s) \<Rightarrow> k x s)"

definition report_failure ::
  "('o, 'r, 'c, 'u) outside \<Rightarrow> go_error \<Rightarrow> nat \<Rightarrow> Session \<Rightarrow> go_error option panics \<times> Session" where
  "report_failure ou err ref s =
     and_then (ou_ReportFailure ou err ref s) (\<lambda>err2 s1. (Some (Some (ou_Errors ou err err2)), s1))"

definition proxyOutboundTCPWithOutbound ::
  "('o, 'r, 'c, 'u) outside \<Rightarrow> nat \<Rightarrow> string \<Rightarrow> Session \<Rightarrow> go_error option panics \<times> Session" where
  "proxyOutboundTCPWithOutbound ou ref destination s =
     (case adapter_TCP (ou_engine ou) (ou_router ou) destination of
        Inl err \<Rightarrow> report_failure ou err ref s
      | Inr c \<Rightarrow>
          and_then (ou_ReportSuccess ou ref s)
            (\<lambda>err s1. if err \<noteq> None then (Some err, s1) else ou_CopyConn ou c ref s1))"

definition proxyOutboundUoTWithOutbound ::
  "('o, 'r, 'c, 'u) outside \<Rightarrow> nat \<Rightarrow> string \<Rightarrow> Session \<Rightarrow> go_error option panics \<times> Session" where
  "proxyOutboundUoTWithOutbound ou ref destination s =
     and_then (ou_ReadRequest ou ref s)
       (\<lambda>request s1.
          case request of
            Inl err \<Rightarrow> report_failure ou err ref s1
          | Inr _ \<Rightarrow>
              (case adapter_UDP (ou_engine ou) (ou_router ou) destination of
                 Inl err \<Rightarrow> report_failure ou err ref s1
               | Inr c \<Rightarrow>
                   and_then (ou_ReportSuccess ou ref s1)
                     (\<lambda>err s2. if err \<noteq> None then (Some err, s2) else ou_CopyPacketConn ou c ref s2)))"

text \<open>
  The closure given to \<open>NewServerSession\<close>, for stream object \<open>ref\<close> of a session of \<open>userId\<close>.
  The deferred \<open>stream.Close()\<close> runs on every way out, and a panic ends there.
\<close>

definition stream_handler ::
  "('o, 'r, 'c, 'u) outside \<Rightarrow> int \<Rightarrow> nat \<Rightarrow> Session \<Rightarrow> TrafficManager \<Rightarrow> Session \<times> TrafficManager" where
  "stream_handler ou userId ref s tm =
     (let tm1 = traffic_add userId (Traffic 0 0 1) tm;
          (_, s1) = and_then (ou_ReadAddrPort ou ref s)
            (\<lambda>destination s1.
               case destination of
                 Inl err \<Rightarrow> (Some (Some err), s1)
               | Inr d \<Rightarrow>
                   if Contains d ''udp-over-tcp.arpa'' then proxyOutboundUoTWithOutbound ou ref d s1
                   else proxyOutboundTCPWithOutbound ou ref d s1)
      in (case Stream_Close ref s1 of Some (_, s2) \<Rightarrow> s2 | None \<Rightarrow> s1, tm1))"

text \<open>
  The laws: no call breaks the session or loses its streams, and the two reports call
  \<open>HandshakeFailure\<close> and \<open>HandshakeSuccess\<close> of the stream.
\<close>

definition keeps :: "(Session \<Rightarrow> 'a \<times> Session) \<Rightarrow> bool" where
  "keeps f \<longleftrightarrow> (\<forall>s. good s \<longrightarrow> good (snd (f s)) \<and> grows s (snd (f s)))"

definition outside_laws :: "('o, 'r, 'c, 'u) outside \<Rightarrow> bool" where
  "outside_laws ou \<longleftrightarrow>
     (\<forall>ref. keeps (ou_ReadAddrPort ou ref) \<and> keeps (ou_ReadRequest ou ref) \<and>
        (\<forall>c. keeps (ou_CopyConn ou c ref)) \<and> (\<forall>c. keeps (ou_CopyPacketConn ou c ref))) \<and>
     (\<forall>err ref s r s'. HandshakeFailure (ou_text ou) (Some err) ref s = Some (r, s') \<longrightarrow>
        ou_ReportFailure ou err ref s = (Some r, s')) \<and>
     (\<forall>ref s r s'. HandshakeSuccess ref s = Some (r, s') \<longrightarrow> ou_ReportSuccess ou ref s = (Some r, s'))"

section \<open>The stream is closed\<close>

lemma Session_Close_keeps_dead:
  assumes "good s" and "str_dieOnce (obj s r)"
  shows "obj (snd (Session_Close s)) r = obj s r"
proof (cases "s_die s")
  case True
  then show ?thesis by (simp add: Session_Close_def)
next
  case False
  have "\<forall>ref \<in> set (map snd (s_streams s)). ref < length (s_objs (close_begin s))"
    using assms(1) streams_ok_refs [of s] by (auto simp: good_def session_inv_def)
  then show ?thesis using assms(2) by (simp add: Session_Close_open [OF False] close_streams_obj)
qed

lemma writeControlFrame_keeps_dead:
  assumes "writeControlFrame f s = Some (r, s')" and "good s" and "str_dieOnce (obj s ref)"
  shows "obj s' ref = obj s ref"
proof -
  have same: "obj s1 = obj s" if "write_changes s s1" for s1
    using write_changesD(13) [OF that] .
  from assms(1) show ?thesis
  proof (cases rule: writeControlFrame_cases)
    case (1 s1)
    show ?thesis unfolding 1(2) same [OF 1(1)] ..
  next
    case (2 s1)
    have "str_dieOnce (obj s1 ref)" using same [OF 2(1)] assms(3) by simp
    then show ?thesis
      using Session_Close_keeps_dead [OF good_write_changes [OF 2(1) assms(2)]] same [OF 2(1)] 2(2) by simp
  qed
qed

lemma Stream_Close_dead:
  assumes "good s" and "ref < length (s_objs s)"
  shows "\<exists>r s'. Stream_Close ref s = Some (r, s') \<and> good s' \<and> grows s s' \<and>
           str_dieOnce (obj s' ref) \<and> str_dieErr (obj s' ref) \<noteq> None \<and> p_done (str_pipe (obj s' ref))"
proof -
  obtain r s' where c: "Stream_Close ref s = Some (r, s')" "good s'" "grows s s'"
    using stream_op_good(3) [OF assms] by blast
  have "str_dieOnce (obj s' ref)"
  proof (cases "str_dieOnce (obj s ref)")
    case True
    then show ?thesis using c(1) by (simp add: Stream_Close_def closeWithError_def Let_def)
  next
    case False
    let ?t = "set_obj ref ((obj s ref)\<lparr>str_dieOnce := True, str_dieErr := Some ErrClosedPipe,
      str_pipe := PipeReader_Close (str_pipe (obj s ref))\<rparr>) s"
    obtain u where u: "u = (case str_dieHook (obj s ref) of Some h \<Rightarrow> emit (EvStreamHook ref h) ?t | None \<Rightarrow> ?t)"
      by simp
    have "good ?t" using good_set_obj [OF assms(1)] stream_inv_PipeReader_Close(2) [OF goodD [OF assms]] by simp
    then have gu: "good u" using u by (simp split: option.splits)
    have du: "str_dieOnce (obj u ref)" using u assms(2) by (simp add: obj_set_obj split: option.splits)
    have "streamClosed (str_id (obj s ref)) u = Some (r, s')"
      using c(1) False u by (simp add: Stream_Close_def closeWithError_def Let_def)
    then have "obj s' ref = obj u ref"
      using writeControlFrame_keeps_dead [OF _ gu du] by (auto simp: streamClosed_def split: if_splits option.splits)
    then show ?thesis using du by simp
  qed
  moreover have "stream_inv (obj s' ref)"
    using goodD [OF c(2), of ref] c(3) assms(2) by (simp add: grows_def)
  ultimately show ?thesis using c by (auto simp: stream_inv_def)
qed

text \<open>The session after some calls of the handler of \<open>ref\<close>: in order, and still with the stream.\<close>

definition sound :: "Session \<Rightarrow> nat \<Rightarrow> Session \<Rightarrow> bool" where
  "sound s0 ref s \<longleftrightarrow> good s \<and> grows s0 s \<and> ref < length (s_objs s)"

definition leaves :: "Session \<Rightarrow> nat \<Rightarrow> 'a \<times> Session \<Rightarrow> bool" where
  "leaves s0 ref m \<longleftrightarrow> sound s0 ref (snd m)"

lemma sound_step: "sound s0 ref s \<Longrightarrow> good s' \<Longrightarrow> grows s s' \<Longrightarrow> sound s0 ref s'"
  by (auto simp: sound_def grows_def)

lemma leaves_keeps: "keeps f \<Longrightarrow> sound s0 ref s \<Longrightarrow> leaves s0 ref (f s)"
  using sound_step [of s0 ref s "snd (f s)"] by (simp add: keeps_def leaves_def sound_def)

lemma leaves_and_then:
  "leaves s0 ref m \<Longrightarrow> (\<And>x s. sound s0 ref s \<Longrightarrow> leaves s0 ref (k x s)) \<Longrightarrow> leaves s0 ref (and_then m k)"
  by (auto simp: and_then_def leaves_def split: prod.splits option.splits)

lemma leaves_return [simp]: "leaves s0 ref (x, s) \<longleftrightarrow> sound s0 ref s"
  by (simp add: leaves_def)

lemma leaves_outside:
  assumes "outside_laws ou" and "sound s0 ref s"
  shows "leaves s0 ref (ou_ReadAddrPort ou ref s)" "leaves s0 ref (ou_ReadRequest ou ref s)"
    "leaves s0 ref (ou_CopyConn ou c ref s)" "leaves s0 ref (ou_CopyPacketConn ou u ref s)"
proof -
  have k: "keeps (ou_ReadAddrPort ou ref)" "keeps (ou_ReadRequest ou ref)"
    "keeps (ou_CopyConn ou c ref)" "keeps (ou_CopyPacketConn ou u ref)"
    using assms(1) by (simp_all add: outside_laws_def)
  show "leaves s0 ref (ou_ReadAddrPort ou ref s)" by (rule leaves_keeps [OF k(1) assms(2)])
  show "leaves s0 ref (ou_ReadRequest ou ref s)" by (rule leaves_keeps [OF k(2) assms(2)])
  show "leaves s0 ref (ou_CopyConn ou c ref s)" by (rule leaves_keeps [OF k(3) assms(2)])
  show "leaves s0 ref (ou_CopyPacketConn ou u ref s)" by (rule leaves_keeps [OF k(4) assms(2)])
qed

lemma leaves_reports:
  assumes "outside_laws ou" and "sound s0 ref s"
  shows "leaves s0 ref (ou_ReportFailure ou err ref s)" "leaves s0 ref (ou_ReportSuccess ou ref s)"
    "leaves s0 ref (report_failure ou err ref s)"
proof -
  have s: "good s" "ref < length (s_objs s)" using assms(2) by (simp_all add: sound_def)
  obtain r s' where f: "HandshakeFailure (ou_text ou) (Some err) ref s = Some (r, s')" "good s'" "grows s s'"
    using stream_op_good(5) [OF s] by blast
  then show l: "leaves s0 ref (ou_ReportFailure ou err ref s)"
    using assms(1) sound_step [OF assms(2)] by (simp add: outside_laws_def)
  obtain r2 s2 where "HandshakeSuccess ref s = Some (r2, s2)" "good s2" "grows s s2"
    using stream_op_good(4) [OF s] by blast
  then show "leaves s0 ref (ou_ReportSuccess ou ref s)"
    using assms(1) sound_step [OF assms(2)] by (simp add: outside_laws_def)
  show "leaves s0 ref (report_failure ou err ref s)"
    unfolding report_failure_def by (rule leaves_and_then [OF l]) simp
qed

lemma leaves_proxyTCP:
  assumes "outside_laws ou" and "sound s0 ref s"
  shows "leaves s0 ref (proxyOutboundTCPWithOutbound ou ref d s)"
  unfolding proxyOutboundTCPWithOutbound_def
  by (auto intro!: leaves_and_then leaves_reports leaves_outside assms split: sum.split)

lemma leaves_proxyUoT:
  assumes "outside_laws ou" and "sound s0 ref s"
  shows "leaves s0 ref (proxyOutboundUoTWithOutbound ou ref d s)"
  unfolding proxyOutboundUoTWithOutbound_def
  by (auto intro!: leaves_and_then leaves_reports leaves_outside assms split: sum.split)

text \<open>The proxied part of the handler.\<close>

lemma leaves_handler:
  assumes "outside_laws ou" and "sound s0 ref s"
  shows "leaves s0 ref (and_then (ou_ReadAddrPort ou ref s)
    (\<lambda>destination s1.
       case destination of
         Inl err \<Rightarrow> (Some (Some err), s1)
       | Inr d \<Rightarrow>
           if Contains d ''udp-over-tcp.arpa'' then proxyOutboundUoTWithOutbound ou ref d s1
           else proxyOutboundTCPWithOutbound ou ref d s1))"
  by (auto intro!: leaves_and_then leaves_outside leaves_proxyTCP leaves_proxyUoT assms split: sum.split)

section \<open>Properties\<close>

text \<open>C25: A stream handler always ends with its stream closed: whatever the destination, the
  outbounds and the copying do, errors and panics included, the session stays in order,
  the stream is dead with its pipe closed, and one request has been counted for the user
  and nothing for anybody else.\<close>

theorem stream_handler_closes:
  assumes "outside_laws ou" and "good s" and "ref < length (s_objs s)"
  shows "case stream_handler ou userId ref s tm of (s', tm') \<Rightarrow>
     good s' \<and> grows s s' \<and> str_dieErr (obj s' ref) \<noteq> None \<and> p_done (str_pipe (obj s' ref)) \<and>
     stored tm' userId = stored tm userId + Traffic 0 0 1 \<and> (\<forall>u. u \<noteq> userId \<longrightarrow> stored tm' u = stored tm u)"
proof -
  obtain res s1 where m: "and_then (ou_ReadAddrPort ou ref s)
    (\<lambda>destination s1.
       case destination of
         Inl err \<Rightarrow> (Some (Some err), s1)
       | Inr d \<Rightarrow>
           if Contains d ''udp-over-tcp.arpa'' then proxyOutboundUoTWithOutbound ou ref d s1
           else proxyOutboundTCPWithOutbound ou ref d s1) = (res, s1)"
    by fastforce
  have "sound s ref s" using assms by (simp add: sound_def)
  then have l: "good s1" "ref < length (s_objs s1)" "grows s s1"
    using leaves_handler [OF assms(1), of s ref s] m by (simp_all add: sound_def)
  obtain r s2 where "Stream_Close ref s1 = Some (r, s2)" "good s2" "grows s1 s2"
    "str_dieErr (obj s2 ref) \<noteq> None" "p_done (str_pipe (obj s2 ref))"
    using Stream_Close_dead [OF l(1,2)] by blast
  then show ?thesis using m l grows_trans [OF l(3)] by (simp add: stream_handler_def Let_def stored_add)
qed

lemma unat_u16_to_u64 [simp]: "unat (ucast (w :: u16) :: u64) = unat w"
proof -
  have "unat w < 2 ^ 64" using unat_u16_lt [of w] by (rule order.strict_trans) simp
  then show ?thesis by (simp add: unsigned_ucast_eq take_bit_nat_eq_self)
qed

lemma header_count_exact: "unat plen + 34 < 65536 \<Longrightarrow> unat (header_count plen) = 34 + unat plen"
proof -
  assume "unat plen + 34 < 65536"
  then have "unat (34 + plen) = 34 + unat plen"
    using unat_add_lem [of "34 :: u16" plen] by simp
  then show ?thesis
    by (simp add: header_count_def passwordLen_def paddingLenFieldSz_def)
qed

text \<open>With 65502 bytes of padding or more the sum would start again from zero.\<close>

lemma header_count_wraps: "header_count 65502 = 0"
  by (simp add: header_count_def passwordLen_def paddingLenFieldSz_def)

lemma ReadBytes_ok:
  "buflib_laws bl \<Longrightarrow> n \<le> length (bl_unread bl b) \<Longrightarrow>
   \<exists>b'. bl_ReadBytes bl n b = Some (take n (bl_unread bl b), b') \<and> bl_unread bl b' = drop n (bl_unread bl b)"
  unfolding buflib_laws_def
  by (drule spec [of _ n], drule spec [of _ b]) (auto split: option.splits prod.splits)

lemma ReadBytes_short:
  "buflib_laws bl \<Longrightarrow> length (bl_unread bl b) < n \<Longrightarrow> bl_ReadBytes bl n b = None"
  unfolding buflib_laws_def
  by (drule spec [of _ n], drule spec [of _ b]) (auto split: option.splits prod.splits)

text \<open>The outcome by the bytes alone.\<close>

lemma readHandshake_bytes:
  assumes "buflib_laws bl"
  shows "(let u = bl_unread bl b; plen = Uint16 (take 2 (drop 32 u))
     in if length u < 32 then readHandshake bl auth b = Inl NoPassword
        else case auth (hex_EncodeToString (take 32 u)) of
          None \<Rightarrow> readHandshake bl auth b = Inl BadPassword
        | Some uid \<Rightarrow>
            if length u < 34 then readHandshake bl auth b = Inl NoPaddingLen
            else if length u < 34 + unat plen then readHandshake bl auth b = Inl NoPadding
            else \<exists>b'. readHandshake bl auth b = Inr (uid, plen, b') \<and> bl_unread bl b' = drop (34 + unat plen) u)"
proof -
  let ?u = "bl_unread bl b"
  note ok = ReadBytes_ok [OF assms] and short = ReadBytes_short [OF assms]
  show ?thesis
  proof (cases "length ?u < 32")
    case True
    then show ?thesis using short [of b 32] by (simp add: readHandshake_def passwordLen_def)
  next
    case False
    then obtain b1 where b1: "bl_ReadBytes bl 32 b = Some (take 32 ?u, b1)" "bl_unread bl b1 = drop 32 ?u"
      using ok [of 32 b] by auto
    show ?thesis
    proof (cases "auth (hex_EncodeToString (take 32 ?u))")
      case None
      then show ?thesis using False b1 by (simp add: readHandshake_def passwordLen_def)
    next
      case (Some uid)
      show ?thesis
      proof (cases "length ?u < 34")
        case True
        then show ?thesis using False Some b1 short [of b1 2]
          by (simp add: readHandshake_def passwordLen_def paddingLenFieldSz_def)
      next
        case len: False
        then have "2 \<le> length (bl_unread bl b1)" using b1(2) by simp
        then obtain b2 where b2: "bl_ReadBytes bl 2 b1 = Some (take 2 (drop 32 ?u), b2)" "bl_unread bl b2 = drop 34 ?u"
          using ok [of 2 b1] b1(2) by auto
        let ?plen = "Uint16 (take 2 (drop 32 ?u))"
        show ?thesis
        proof (cases "length ?u < 34 + unat ?plen")
          case True
          then have "bl_ReadBytes bl (unat ?plen) b2 = None" "?plen > 0"
            using short [of b2 "unat ?plen"] b2(2) len by (auto simp: word_gt_0 unat_eq_0 [symmetric])
          then show ?thesis using False Some b1 b2 len True
            by (simp add: readHandshake_def passwordLen_def paddingLenFieldSz_def)
        next
          case False
          then have "unat ?plen \<le> length (bl_unread bl b2)" using b2(2) len by simp
          then obtain b3 where b3: "bl_ReadBytes bl (unat ?plen) b2 = Some (take (unat ?plen) (drop 34 ?u), b3)"
            "bl_unread bl b3 = drop (34 + unat ?plen) ?u"
            using ok [of "unat ?plen" b2] b2(2) len by (auto simp: add.commute)
          show ?thesis using False Some b1 b2 b3 len
            by (cases "?plen > 0") (simp_all add: readHandshake_def passwordLen_def paddingLenFieldSz_def word_gt_0)
        qed
      qed
    qed
  qed
qed

lemma list_of_two: "length xs = 2 \<Longrightarrow> \<exists>x y. xs = [x, y]"
  by (auto simp: numeral_2_eq_2 length_Suc_conv)

lemma take_drop_three: "take a u @ take b (drop a u) @ take c (drop (a + b) u) @ drop (a + b + c) u = u"
proof -
  have "take c (drop (a + b) u) @ drop (a + b + c) u = drop (a + b) u"
    by (metis add.commute append_take_drop_id drop_drop)
  moreover have "take b (drop a u) @ drop (a + b) u = drop a u"
    by (metis add.commute append_take_drop_id drop_drop)
  ultimately show ?thesis by simp
qed

text \<open>What a connection sends first: the hash, the length of the padding, the padding.\<close>

definition client_hello :: "byte list \<Rightarrow> byte list \<Rightarrow> byte list" where
  "client_hello password pad = password @ PutUint16 (of_nat (length pad)) @ pad"

text \<open>Bytes long enough for a hello are one, and a hello is read back as what it was made from.\<close>

lemma hello_split:
  assumes "34 + unat (Uint16 (take 2 (drop 32 u)) :: u16) \<le> length u"
  shows "client_hello (take 32 u) (take (unat (Uint16 (take 2 (drop 32 u)) :: u16)) (drop 34 u)) @
      drop (34 + unat (Uint16 (take 2 (drop 32 u)) :: u16)) u = u"
proof -
  let ?plen = "Uint16 (take 2 (drop 32 u)) :: u16"
  have "length (take 2 (drop 32 u)) = 2" using assms by simp
  then obtain f g where fg: "take 2 (drop 32 u) = [f, g]" using list_of_two by blast
  have "PutUint16 ?plen = take 2 (drop 32 u)" unfolding fg by (rule PutUint16_Uint16)
  moreover have "length (take (unat ?plen) (drop 34 u)) = unat ?plen" using assms by simp
  ultimately have "client_hello (take 32 u) (take (unat ?plen) (drop 34 u)) =
      take 32 u @ take 2 (drop 32 u) @ take (unat ?plen) (drop 34 u)"
    by (simp add: client_hello_def)
  also have "\<dots> @ drop (34 + unat ?plen) u = u" using take_drop_three [of 32 u 2 "unat ?plen"] by simp
  finally show ?thesis .
qed

lemma readHandshake_hello:
  assumes "buflib_laws bl" and a: "length password = 32 \<and> length pad < 65536 \<and>
    auth (hex_EncodeToString password) = Some uid \<and> bl_unread bl b = client_hello password pad @ rest"
  shows "\<exists>b'. readHandshake bl auth b = Inr (uid, of_nat (length pad), b') \<and> bl_unread bl b' = rest"
proof -
  have t: "take 32 (bl_unread bl b) = password"
    "take 2 (drop 32 (bl_unread bl b)) = PutUint16 (of_nat (length pad))"
    using a by (simp_all add: client_hello_def)
  have p: "Uint16 (PutUint16 (of_nat (length pad))) = (of_nat (length pad) :: u16)"
    using Uint16_PutUint16 [of "of_nat (length pad)" "[]"] by simp
  have n: "unat (of_nat (length pad) :: u16) = length pad" using a by (simp add: unat_of_nat_u16)
  have "\<not> length (bl_unread bl b) < 34 + length pad" "drop (34 + length pad) (bl_unread bl b) = rest"
    using a by (simp_all add: client_hello_def)
  then show ?thesis
    using readHandshake_bytes [OF assms(1), of b auth, unfolded Let_def] a unfolding t p n by auto
qed

text \<open>C22: The first packet of a connection: exactly the packets that start with a hello are accepted,
  under the user of the hash, and what follows the hello is left for the session; a packet
  that ends early is refused, by the hash alone as soon as it is there; and the bytes
  counted for an accepted hello are its length, as the packet holds less than 65536.\<close>

theorem handshake_accepts:
  assumes "buflib_laws bl" and "length (bl_unread bl b) < 65536"
  shows "(\<forall>uid plen b'. readHandshake bl auth b = Inr (uid, plen, b') \<longrightarrow>
            (\<exists>password pad. length password = 32 \<and> auth (hex_EncodeToString password) = Some uid \<and>
               bl_unread bl b = client_hello password pad @ bl_unread bl b' \<and>
               unat (header_count plen) = length (client_hello password pad))) \<and>
         (\<forall>password pad rest uid. length password = 32 \<and> length pad < 65536 \<and>
            auth (hex_EncodeToString password) = Some uid \<and>
            bl_unread bl b = client_hello password pad @ rest \<longrightarrow>
            (\<exists>b'. readHandshake bl auth b = Inr (uid, of_nat (length pad), b') \<and> bl_unread bl b' = rest)) \<and>
         (length (bl_unread bl b) \<ge> 32 \<and> auth (hex_EncodeToString (take 32 (bl_unread bl b))) = None \<longrightarrow>
            readHandshake bl auth b = Inl BadPassword)"
proof (intro conjI allI impI)
  note H = readHandshake_bytes [OF assms(1), of b auth, unfolded Let_def]
  let ?u = "bl_unread bl b"
  let ?plen = "Uint16 (take 2 (drop 32 ?u))"
  let ?pad = "take (unat ?plen) (drop 34 ?u)"
  fix uid plen b'
  assume acc: "readHandshake bl auth b = Inr (uid, plen, b')"
  have len: "\<not> length ?u < 32" using H acc by auto
  then have auth: "auth (hex_EncodeToString (take 32 ?u)) = Some uid" "length ?u \<ge> 34 + unat ?plen"
      "plen = ?plen" "bl_unread bl b' = drop (34 + unat ?plen) ?u"
    using H acc by (auto split: option.splits if_splits)
  have "?u = client_hello (take 32 ?u) ?pad @ bl_unread bl b'" using hello_split [OF auth(2)] auth(4) by simp
  moreover have "unat (header_count plen) = length (client_hello (take 32 ?u) ?pad)"
    using header_count_exact [of ?plen] auth(2,3) assms(2) len by (simp add: client_hello_def)
  ultimately show "\<exists>password pad. length password = 32 \<and> auth (hex_EncodeToString password) = Some uid \<and>
      ?u = client_hello password pad @ bl_unread bl b' \<and>
      unat (header_count plen) = length (client_hello password pad)"
    using auth(1) len by (intro exI [of _ "take 32 ?u"] exI [of _ ?pad]) simp
next
  fix password pad :: "byte list" and rest uid
  assume "length password = 32 \<and> length pad < 65536 \<and>
    auth (hex_EncodeToString password) = Some uid \<and> bl_unread bl b = client_hello password pad @ rest"
  then show "\<exists>b'. readHandshake bl auth b = Inr (uid, of_nat (length pad), b') \<and> bl_unread bl b' = rest"
    using readHandshake_hello [OF assms(1)] by blast
next
  assume "length (bl_unread bl b) \<ge> 32 \<and> auth (hex_EncodeToString (take 32 (bl_unread bl b))) = None"
  then show "readHandshake bl auth b = Inl BadPassword"
    using readHandshake_bytes [OF assms(1), of b auth, unfolded Let_def] by simp
qed

text \<open>That the laws can hold: a buffer that is the list of its bytes.\<close>

definition list_buf :: "byte list buflib" where
  "list_buf = \<lparr>bl_ReadBytes = \<lambda>n b. if n \<le> length b then Some (take n b, drop n b) else None, bl_unread = \<lambda>b. b\<rparr>"

lemma list_buf_laws: "buflib_laws list_buf"
  by (simp add: buflib_laws_def list_buf_def)

theorem handshake_accepts_witness:
  "\<exists>b'. readHandshake list_buf (\<lambda>_. Some 9) (client_hello (replicate 32 7) [0, 0, 0] @ [1, 2]) = Inr (9, 3, b') \<and>
     b' = [1, 2]"
proof -
  let ?b = "client_hello (replicate 32 7) [0, 0, 0] @ [1, 2]"
  have u: "bl_unread list_buf ?b = ?b" by (simp add: list_buf_def)
  have "length (bl_unread list_buf ?b) < 65536" by (simp add: list_buf_def client_hello_def)
  from handshake_accepts [OF list_buf_laws this, of "\<lambda>_. Some 9", THEN conjunct2, THEN conjunct1, THEN spec,
      of "replicate 32 7", THEN spec, of "[0, 0, 0]", THEN spec, of "[1, 2]", THEN spec, of 9]
  show ?thesis by (simp add: list_buf_def)
qed

lemma stored_reads:
  "stored (foldl (\<lambda>m n. CountedConn_Read uid n m) tm ns) u =
     stored tm u + (if u = uid then Traffic (of_int (sum_list (filter (\<lambda>n. n > 0) ns))) 0 0 else 0)"
  by (induction ns arbitrary: tm) (auto simp: CountedConn_Read_def stored_add plus_traffic_def ac_simps)

lemma stored_writes:
  "stored (foldl (\<lambda>m n. CountedConn_Write uid n m) tm ns) u =
     stored tm u + (if u = uid then Traffic 0 (of_int (sum_list (filter (\<lambda>n. n > 0) ns))) 0 else 0)"
  by (induction ns arbitrary: tm) (auto simp: CountedConn_Write_def stored_add plus_traffic_def ac_simps)

text \<open>C28: Every byte is counted once: for an accepted connection whose session has then read \<open>ns\<close> and
  written \<open>ms\<close>, the upload of its user has grown by the bytes taken out of the first packet
  for the hello plus all bytes read after it, and the download by all bytes written.\<close>

theorem bytes_counted:
  assumes "buflib_laws bl" and "length (bl_unread bl b) < 65536"
    and "readHandshake bl auth b = Inr (uid, plen, b')"
  shows "stored (foldl (\<lambda>m n. CountedConn_Write uid n m)
            (foldl (\<lambda>m n. CountedConn_Read uid n m) (count_header uid plen tm) ns) ms) uid =
     stored tm uid +
       Traffic (of_nat (length (bl_unread bl b) - length (bl_unread bl b')) +
                  of_int (sum_list (filter (\<lambda>n. n > 0) ns)))
         (of_int (sum_list (filter (\<lambda>n. n > 0) ms))) 0"
proof -
  obtain password pad where u: "bl_unread bl b = client_hello password pad @ bl_unread bl b'"
    and c: "unat (header_count plen) = length (client_hello password pad)"
    using handshake_accepts [OF assms(1,2)] assms(3) by blast
  have "header_count plen = of_nat (unat (header_count plen))" by simp
  then have "header_count plen = of_nat (length (bl_unread bl b) - length (bl_unread bl b'))"
    using c u by simp
  then show ?thesis
    by (simp add: stored_reads stored_writes count_header_def stored_add plus_traffic_def ac_simps)
qed

theorem bytes_counted_witness:
  "stored (foldl (\<lambda>m n. CountedConn_Write 9 n m)
     (foldl (\<lambda>m n. CountedConn_Read 9 n m) (count_header 9 3 []) [2, 0, 5]) [4]) 9 = Traffic (37 + 7) 4 0"
proof -
  let ?b = "client_hello (replicate 32 7) [0, 0, 0] @ [1, 2]"
  obtain b' where r: "readHandshake list_buf (\<lambda>_. Some 9) ?b = Inr (9, 3, b')" "b' = [1, 2]"
    using handshake_accepts_witness by blast
  have l: "length (bl_unread list_buf ?b) < 65536" by (simp add: list_buf_def client_hello_def)
  have s: "length (bl_unread list_buf ?b) = 39" "length (bl_unread list_buf b') = 2"
    using r(2) by (simp_all add: list_buf_def client_hello_def)
  from bytes_counted [OF list_buf_laws l r(1), of "[]" "[2, 0, 5]" "[4]"] show ?thesis
    by (simp add: stored_def s)
qed


text \<open>That the laws can hold: outbounds that refuse everything, and reports that do what they must.\<close>

definition demo_engine :: "(unit, unit, unit, unit) engine" where
  "demo_engine = \<lparr>en_ToLower = \<lambda>s. s, en_NewDirect = \<lambda>_. (), en_NewDirectBindToIPs = \<lambda>_ _ _. Inr (),
     en_NewDirectBindToDevice = \<lambda>_ _. Inr (), en_NewSOCKS5 = \<lambda>_ _ _. (), en_NewHTTP = \<lambda>_ _. Inr (),
     en_RouterNew = \<lambda>_ _. Inr (), en_DialTCP = \<lambda>_ _. Inl (ErrMsg ''refused''),
     en_DialUDP = \<lambda>_ _. Inl (ErrMsg ''refused''), en_AddrString = addr_Host\<rparr>"

definition reported_by :: "(Session \<Rightarrow> (go_error option \<times> Session) panics) \<Rightarrow> Session \<Rightarrow> go_error option panics \<times> Session" where
  "reported_by f s = (case f s of Some (r, s') \<Rightarrow> (Some r, s') | None \<Rightarrow> (None, s))"

definition demo_outside :: "(unit, unit, unit, unit) outside" where
  "demo_outside = \<lparr>ou_engine = demo_engine, ou_router = (), ou_text = \<lambda>_. [42], ou_Errors = \<lambda>e _. e,
     ou_ReadAddrPort = \<lambda>_ s. (Some (Inr ''a.b:80''), s), ou_ReadRequest = \<lambda>_ s. (Some (Inl ErrEOF), s),
     ou_ReportFailure = \<lambda>err ref. reported_by (HandshakeFailure (\<lambda>_. [42]) (Some err) ref),
     ou_ReportSuccess = \<lambda>ref. reported_by (HandshakeSuccess ref),
     ou_CopyConn = \<lambda>_ _ s. (Some None, s), ou_CopyPacketConn = \<lambda>_ _ s. (Some None, s)\<rparr>"

lemma demo_outside_laws: "outside_laws demo_outside"
  by (simp add: outside_laws_def demo_outside_def keeps_def reported_by_def)

lemma demo_server_good: "good demo_server"
  using demo_server_ok(1,2) by (simp add: good_def padding_safe_def healthy_def)

theorem stream_handler_closes_witness:
  "\<exists>s' tm'. stream_handler demo_outside 9 0 demo_server [] = (s', tm') \<and>
     str_dieErr (obj s' 0) \<noteq> None \<and> stored tm' 9 = Traffic 0 0 1"
  using stream_handler_closes [OF demo_outside_laws demo_server_good demo_server_ok(4), of 9 "[]"]
  by (auto simp: stored_def split: prod.splits)


end
