(* ===== verification/Node.thy ===== *)
theory Node
  imports Inbound
begin

text \<open>
  The connections of a running server: every accepted connection runs \<open>handleTcpConnection\<close> of
  \<open>internal/app/server/inbound_tcp.go\<close> in a goroutine of its own, while \<open>FetchUsersTask\<close>
  replaces the user list and closes the connections of removed users. A connection is the
  point its goroutine has reached; between two of its points anything else may happen.
\<close>

section \<open>State\<close>

datatype 'b handler =
    HAccepted          \<comment> \<open>before the first read, which makes the TLS handshake\<close>
  | HFirst 'b          \<comment> \<open>the first read has returned\<close>
  | HAuthed int u16    \<comment> \<open>the hello is accepted\<close>
  | HCounted int       \<comment> \<open>its bytes are counted, the session is made\<close>
  | HRegistered int    \<comment> \<open>after \<open>RegisterConnection\<close>\<close>
  | HRunning int       \<comment> \<open>after \<open>SetDieHook\<close>, in \<open>Run\<close>\<close>
  | HEnded

record 'b node =
  nd_users :: UsersService
  nd_traffic :: TrafficManager
  nd_conns :: "'b handler list"

definition no_users :: UsersService where
  "no_users = \<lparr>us_users = [], us_conns = [], us_userList = None, us_closed = []\<rparr>"

definition set_conn :: "nat \<Rightarrow> 'b handler \<Rightarrow> 'b node \<Rightarrow> 'b node" where
  "set_conn i h s = s\<lparr>nd_conns := (nd_conns s)[i := h]\<rparr>"

section \<open>Steps\<close>

text \<open>
  \<open>nd_end\<close> is the end of a session that is still open: its hook runs. A session that
  \<open>CloseAll\<close> has closed ended then, and its hook, if it was set, found nothing to remove.
\<close>

inductive node_step ::
  "'b buflib \<Rightarrow> (byte list \<Rightarrow> byte list) \<Rightarrow> 'b node \<Rightarrow> 'b node \<Rightarrow> bool" for bl sha256 where
  nd_accept: "node_step bl sha256 s (s\<lparr>nd_conns := nd_conns s @ [HAccepted]\<rparr>)"
| nd_first: "i < length (nd_conns s) \<Longrightarrow> nd_conns s ! i = HAccepted \<Longrightarrow> node_step bl sha256 s (set_conn i (HFirst b) s)"
| nd_no_first: "i < length (nd_conns s) \<Longrightarrow> nd_conns s ! i = HAccepted \<Longrightarrow> node_step bl sha256 s (set_conn i HEnded s)"
| nd_refuse: "i < length (nd_conns s) \<Longrightarrow> nd_conns s ! i = HFirst b \<Longrightarrow>
     readHandshake bl (\<lambda>h. AuthAndGetUserId h (nd_users s)) b = Inl e \<Longrightarrow>
     node_step bl sha256 s (set_conn i HEnded s)"
| nd_auth: "i < length (nd_conns s) \<Longrightarrow> nd_conns s ! i = HFirst b \<Longrightarrow>
     readHandshake bl (\<lambda>h. AuthAndGetUserId h (nd_users s)) b = Inr (userId, plen, b') \<Longrightarrow>
     node_step bl sha256 s (set_conn i (HAuthed userId plen) s)"
| nd_count: "i < length (nd_conns s) \<Longrightarrow> nd_conns s ! i = HAuthed userId plen \<Longrightarrow>
     node_step bl sha256 s ((set_conn i (HCounted userId) s)\<lparr>nd_traffic := count_header userId plen (nd_traffic s)\<rparr>)"
| nd_register: "i < length (nd_conns s) \<Longrightarrow> nd_conns s ! i = HCounted userId \<Longrightarrow>
     node_step bl sha256 s
       ((set_conn i (HRegistered userId) s)\<lparr>nd_users := RegisterConnection userId i (nd_users s)\<rparr>)"
| nd_hook: "i < length (nd_conns s) \<Longrightarrow> nd_conns s ! i = HRegistered userId \<Longrightarrow>
     node_step bl sha256 s (set_conn i (HRunning userId) s)"
| nd_read: "i < length (nd_conns s) \<Longrightarrow> nd_conns s ! i = HRunning userId \<Longrightarrow>
     node_step bl sha256 s (s\<lparr>nd_traffic := CountedConn_Read userId n (nd_traffic s)\<rparr>)"
| nd_write: "i < length (nd_conns s) \<Longrightarrow> nd_conns s ! i = HRunning userId \<Longrightarrow>
     node_step bl sha256 s (s\<lparr>nd_traffic := CountedConn_Write userId n (nd_traffic s)\<rparr>)"
| nd_end: "i < length (nd_conns s) \<Longrightarrow> nd_conns s ! i = HRunning userId \<Longrightarrow> i \<notin> set (us_closed (nd_users s)) \<Longrightarrow>
     node_step bl sha256 s
       ((set_conn i HEnded s)\<lparr>nd_users := UnregisterConnection userId i (nd_users s)\<rparr>)"
| nd_closed: "i < length (nd_conns s) \<Longrightarrow> nd_conns s ! i = HRunning userId \<Longrightarrow> i \<in> set (us_closed (nd_users s)) \<Longrightarrow>
     node_step bl sha256 s (set_conn i HEnded s)"
| nd_fetch: "node_step bl sha256 s (s\<lparr>nd_users := FetchUsersTask sha256 order reply (nd_users s)\<rparr>)"

inductive node_reach :: "'b buflib \<Rightarrow> (byte list \<Rightarrow> byte list) \<Rightarrow> 'b node \<Rightarrow> bool" for bl sha256 where
  node_start: "UsersService_init sha256 registerID (Inr userList) no_users = (None, us) \<Longrightarrow>
     node_reach bl sha256 \<lparr>nd_users = us, nd_traffic = [], nd_conns = []\<rparr>"
| node_more: "node_reach bl sha256 s \<Longrightarrow> node_step bl sha256 s s' \<Longrightarrow> node_reach bl sha256 s'"

section \<open>Invariant\<close>

text \<open>The connections that \<open>CloseAll\<close> would close if their user was removed now.\<close>

definition live_conns :: "'b node \<Rightarrow> (int \<times> nat) set" where
  "live_conns s =
     {(u, i). i < length (nd_conns s) \<and> (nd_conns s ! i = HRegistered u \<or> nd_conns s ! i = HRunning u) \<and>
        i \<notin> set (us_closed (nd_users s))}"

definition past_register :: "'b handler \<Rightarrow> bool" where
  "past_register h \<longleftrightarrow> (case h of HRegistered _ \<Rightarrow> True | HRunning _ \<Rightarrow> True | HEnded \<Rightarrow> True | _ \<Rightarrow> False)"

definition node_inv :: "'b node \<Rightarrow> bool" where
  "node_inv s \<longleftrightarrow> conns_of (us_conns (nd_users s)) = live_conns s \<and>
     (\<forall>i \<in> set (us_closed (nd_users s)). i < length (nd_conns s) \<and> past_register (nd_conns s ! i))"

lemma us_users_frame [simp]:
  "us_closed (RegisterConnection u c s) = us_closed s" "us_closed (UnregisterConnection u c s) = us_closed s"
  "conns_of (us_conns (RegisterConnection u c s)) = insert (u, c) (conns_of (us_conns s))"
  "conns_of (us_conns (UnregisterConnection u c s)) = conns_of (us_conns s) - {(u, c)}"
  by (simp_all add: RegisterConnection_def UnregisterConnection_def conns.reg_laws)

lemma set_conn_frame [simp]:
  "nd_conns (set_conn i h s) = (nd_conns s)[i := h]" "nd_users (set_conn i h s) = nd_users s"
  by (simp_all add: set_conn_def)

text \<open>A connection that moves on without touching the map.\<close>

lemma node_inv_move:
  assumes "node_inv s" and "i < length (nd_conns s)"
    and "\<And>u. nd_conns s ! i = HRegistered u \<or> nd_conns s ! i = HRunning u \<Longrightarrow> i \<notin> set (us_closed (nd_users s)) \<Longrightarrow>
           h = HRegistered u \<or> h = HRunning u"
    and "\<And>u. h = HRegistered u \<or> h = HRunning u \<Longrightarrow> nd_conns s ! i = HRegistered u \<or> nd_conns s ! i = HRunning u"
    and "past_register (nd_conns s ! i) \<Longrightarrow> past_register h"
  shows "node_inv (set_conn i h s)"
proof -
  have "live_conns (set_conn i h s) = live_conns s"
    using assms(2-4) by (auto simp: live_conns_def nth_list_update split: if_splits)
  then show ?thesis using assms(1,2,5) by (auto simp: node_inv_def nth_list_update)
qed

lemma node_inv_traffic [simp]: "node_inv (s\<lparr>nd_traffic := t\<rparr>) = node_inv s"
  by (simp add: node_inv_def live_conns_def)

lemma node_inv_step:
  assumes "node_step bl sha256 s s'" and "node_inv s"
  shows "node_inv s'"
  using assms
proof (cases rule: node_step.cases)
  case nd_accept
  have "live_conns s' = live_conns s"
    by (auto simp: nd_accept live_conns_def nth_append less_Suc_eq)
  then show ?thesis using assms(2) by (auto simp: node_inv_def nd_accept nth_append)
next
  case (nd_register i userId)
  have "i \<notin> set (us_closed (nd_users s))"
    using assms(2) nd_register by (auto simp: node_inv_def past_register_def)
  then have "live_conns s' = insert (userId, i) (live_conns s)"
    using nd_register by (auto simp: live_conns_def nth_list_update split: if_splits)
  then show ?thesis using assms(2) nd_register by (auto simp: node_inv_def nth_list_update past_register_def)
next
  case (nd_end i userId)
  then have "live_conns s' = live_conns s - {(userId, i)}"
    by (auto simp: live_conns_def nth_list_update split: if_splits)
  then show ?thesis using assms(2) nd_end by (auto simp: node_inv_def nth_list_update past_register_def)
next
  case (nd_fetch order reply)
  obtain U where U: "conns_of (us_conns (FetchUsersTask sha256 order reply (nd_users s))) =
      {x \<in> conns_of (us_conns (nd_users s)). fst x \<notin> U}"
    "set (us_closed (FetchUsersTask sha256 order reply (nd_users s))) =
      set (us_closed (nd_users s)) \<union> {c. \<exists>u \<in> U. (u, c) \<in> conns_of (us_conns (nd_users s))}"
    using FetchUsersTask_conns [of sha256 order reply "nd_users s"] by (elim exE conjE) (rule that)
  have c: "conns_of (us_conns (nd_users s)) = live_conns s" using assms(2) by (simp add: node_inv_def)
  have "live_conns s' = {x \<in> live_conns s. fst x \<notin> U}"
    by (auto simp: nd_fetch live_conns_def U c)
  moreover have "past_register (nd_conns s ! i) \<and> i < length (nd_conns s)" if "(u, i) \<in> live_conns s" for u i
    using that by (auto simp: live_conns_def past_register_def)
  ultimately show ?thesis using assms(2) by (auto simp: node_inv_def nd_fetch U c)
qed (auto intro!: node_inv_move simp: past_register_def)

lemma node_reach_inv: "node_reach bl sha256 s \<Longrightarrow> node_inv s"
proof (induction rule: node_reach.induct)
  case (node_start registerID userList us)
  then have "us_conns us = []" "us_closed us = []"
    by (auto simp: UsersService_init_def no_users_def split: if_splits)
  then show ?case by (simp add: node_inv_def live_conns_def conns_of_def)
next
  case (node_more s s')
  then show ?case using node_inv_step by blast
qed

section \<open>Properties\<close>

text \<open>C10: The register of connections is exact: in every interleaving of connections with fetches of
  the user list, what \<open>CloseAll\<close> can find is the set of connections between
  \<open>RegisterConnection\<close> and the end of their session that have not been closed yet, each
  under the user it authenticated as; so a fetch that removes a user closes every one of
  them.\<close>

theorem node_connections_exact:
  assumes "node_reach bl sha256 s"
  shows "conns_of (us_conns (nd_users s)) = live_conns s \<and>
     (\<forall>order new u i. u \<in> user_ID ` set (fst (compareUserList order (us_userList (nd_users s)) new)) \<and>
        i < length (nd_conns s) \<and> (nd_conns s ! i = HRegistered u \<or> nd_conns s ! i = HRunning u) \<longrightarrow>
        i \<in> set (us_closed (FetchUsersTask sha256 order (Inr new) (nd_users s))))"
proof (intro conjI allI impI)
  have inv: "node_inv s" using assms by (rule node_reach_inv)
  then show c: "conns_of (us_conns (nd_users s)) = live_conns s" by (simp add: node_inv_def)
  fix order new u i
  assume a: "u \<in> user_ID ` set (fst (compareUserList order (us_userList (nd_users s)) new)) \<and>
    i < length (nd_conns s) \<and> (nd_conns s ! i = HRegistered u \<or> nd_conns s ! i = HRunning u)"
  have closed: "set (us_closed (FetchUsersTask sha256 order (Inr new) (nd_users s))) =
      set (us_closed (nd_users s)) \<union> {c. \<exists>u \<in> user_ID ` set (fst (compareUserList order (us_userList (nd_users s)) new)).
        (u, c) \<in> conns_of (us_conns (nd_users s))}"
    using FetchUsersTask_conns [of sha256 order "Inr new" "nd_users s"] by auto
  show "i \<in> set (us_closed (FetchUsersTask sha256 order (Inr new) (nd_users s)))"
  proof (cases "i \<in> set (us_closed (nd_users s))")
    case False
    then have "(u, i) \<in> conns_of (us_conns (nd_users s))" using a unfolding c by (simp add: live_conns_def)
    then show ?thesis using a unfolding closed by blast
  qed (simp add: closed)
qed

text \<open>A run: user 1 connects, and the steps of its connection around a fetch of an empty list.\<close>

definition demo_hash :: "byte list \<Rightarrow> byte list" where
  "demo_hash b = replicate 32 7"

definition demo_node :: "(byte list handler) list \<Rightarrow> UsersService \<Rightarrow> byte list node" where
  "demo_node hs us = \<lparr>nd_users = us, nd_traffic = count_header 1 0 [], nd_conns = hs\<rparr>"

definition one_user :: UsersService where
  "one_user = snd (UsersService_init demo_hash ''r'' (Inr [\<lparr>user_ID = 1, UUID = ''a''\<rparr>]) no_users)"

lemma one_user_auth: "AuthAndGetUserId (hex_EncodeToString (replicate 32 7)) one_user = Some 1"
  by (simp add: one_user_def UsersService_init_def no_users_def addUsers_def user_key_def demo_hash_def
      AuthAndGetUserId_def authAndGetUserId_def)

lemma demo_node_counted: "node_reach list_buf demo_hash (demo_node [HCounted 1] one_user)"
proof -
  let ?b = "client_hello (replicate 32 7) []"
  let ?s0 = "\<lparr>nd_users = one_user, nd_traffic = [], nd_conns = []\<rparr>"
  let ?sa = "?s0\<lparr>nd_conns := [HAccepted]\<rparr>"
  let ?s1 = "?s0\<lparr>nd_conns := [HFirst ?b]\<rparr>" and ?s2 = "?s0\<lparr>nd_conns := [HAuthed 1 0]\<rparr>"
  have "UsersService_init demo_hash ''r'' (Inr [\<lparr>user_ID = 1, UUID = ''a''\<rparr>]) no_users = (None, one_user)"
    by (simp add: one_user_def UsersService_init_def)
  then have "node_reach list_buf demo_hash ?s0" by (rule node_start)
  moreover have "node_step list_buf demo_hash ?s0 ?sa" using nd_accept [of _ _ ?s0] by simp
  moreover have "node_step list_buf demo_hash ?sa ?s1" using nd_first [of 0 ?sa _ _ ?b] by (simp add: set_conn_def)
  moreover have "\<exists>b'. readHandshake list_buf (\<lambda>h. AuthAndGetUserId h one_user) ?b = Inr (1, 0, b')"
    using readHandshake_bytes [OF list_buf_laws, of ?b "\<lambda>h. AuthAndGetUserId h one_user"] one_user_auth
      Uint16_PutUint16 [of 0 "[]"]
    by (simp add: list_buf_def client_hello_def)
  then have "node_step list_buf demo_hash ?s1 ?s2"
    using nd_auth [of 0 ?s1 ?b list_buf 1 0] by (auto simp: set_conn_def)
  moreover have "node_step list_buf demo_hash ?s2 (demo_node [HCounted 1] one_user)"
    using nd_count [of 0 ?s2 1 0] by (simp add: set_conn_def demo_node_def)
  ultimately show ?thesis by (meson node_more)
qed

lemma demo_node_runs:
  assumes "node_reach list_buf demo_hash (demo_node [HCounted 1] us)"
  shows "node_reach list_buf demo_hash (demo_node [HRunning 1] (RegisterConnection 1 0 us))"
proof -
  have "node_step list_buf demo_hash (demo_node [HCounted 1] us) (demo_node [HRegistered 1] (RegisterConnection 1 0 us))"
    using nd_register [of 0 "demo_node [HCounted 1] us" 1] by (simp add: set_conn_def demo_node_def)
  moreover have "node_step list_buf demo_hash (demo_node [HRegistered 1] (RegisterConnection 1 0 us))
      (demo_node [HRunning 1] (RegisterConnection 1 0 us))"
    using nd_hook [of 0 "demo_node [HRegistered 1] (RegisterConnection 1 0 us)" 1] by (simp add: set_conn_def demo_node_def)
  ultimately show ?thesis using assms by (blast intro: node_more)
qed

theorem node_connections_exact_witness:
  "\<exists>s. node_reach list_buf demo_hash s \<and> nd_conns s = [HRunning 1] \<and> conns_of (us_conns (nd_users s)) = {(1, 0)} \<and>
     0 \<in> set (us_closed (FetchUsersTask demo_hash id (Inr (Some [])) (nd_users s)))"
proof -
  let ?s = "demo_node [HRunning 1] (RegisterConnection 1 0 one_user)"
  have r: "node_reach list_buf demo_hash ?s" by (rule demo_node_runs [OF demo_node_counted])
  have "conns_of [] = {}" by (simp add: conns_of_def)
  then have "conns_of (us_conns (nd_users ?s)) = {(1, 0)}" "us_closed (nd_users ?s) = []"
    by (simp_all add: demo_node_def one_user_def UsersService_init_def no_users_def)
  moreover have "user_ID ` set (fst (compareUserList id (us_userList (nd_users ?s)) (Some []))) = {1}"
    by (simp add: demo_node_def RegisterConnection_def one_user_def UsersService_init_def no_users_def
        compareUserList_def by_uuid_def)
  moreover have c: "nd_conns ?s = [HRunning 1]" by (simp add: demo_node_def)
  moreover have "0 \<in> set (us_closed (FetchUsersTask demo_hash id (Inr (Some [])) (nd_users ?s)))"
    by (rule node_connections_exact [OF r, THEN conjunct2, rule_format, of 1])
      (simp add: calculation(3) c)
  ultimately show ?thesis using r by blast
qed

text \<open>A removed user can slip in: a connection that has authenticated before a fetch removes its
  user, and registers after it, runs on: it is not closed, and no later fetch will close
  it, as its user is in no list any more.\<close>

theorem removed_user_admitted:
  "\<exists>s. node_reach list_buf demo_hash s \<and> nd_conns s = [HRunning 1] \<and> us_closed (nd_users s) = [] \<and>
     us_userList (nd_users s) = Some [] \<and> (\<nexists>h. AuthAndGetUserId h (nd_users s) \<noteq> None) \<and>
     us_closed (FetchUsersTask demo_hash id (Inr (Some [])) (nd_users s)) = []"
proof -
  let ?gone = "FetchUsersTask demo_hash id (Inr (Some [])) one_user"
  have gone: "?gone = \<lparr>us_users = [], us_conns = [], us_userList = Some [], us_closed = []\<rparr>"
    by (simp add: FetchUsersTask_def one_user_def UsersService_init_def no_users_def compareUserList_def
        by_uuid_def addUsers_def user_key_def demo_hash_def ConnectionManager_CloseAll_def)
  have "node_step list_buf demo_hash (demo_node [HCounted 1] one_user) (demo_node [HCounted 1] ?gone)"
    using nd_fetch [of _ _ "demo_node [HCounted 1] one_user" id "Inr (Some [])"] by (simp add: demo_node_def)
  then have "node_reach list_buf demo_hash (demo_node [HCounted 1] ?gone)"
    using demo_node_counted node_more by blast
  from demo_node_runs [OF this] show ?thesis unfolding gone
    by (intro exI [of _ "demo_node [HRunning 1] (RegisterConnection 1 0
          \<lparr>us_users = [], us_conns = [], us_userList = Some [], us_closed = []\<rparr>)"])
      (simp add: demo_node_def RegisterConnection_def AuthAndGetUserId_def authAndGetUserId_def
        FetchUsersTask_def compareUserList_def by_uuid_def)
qed

end
