(* ===== verification/NodeTraffic.thy ===== *)
theory NodeTraffic
  imports Node Simulation
begin

text \<open>
  A node at work: the connections of theory \<open>Node\<close>, which bump the counters of
  \<open>service/users.go\<close>, their streams, each of which counts as one request, and the report task of
  theory \<open>Traffic\<close> on the same counters. Its counters behave as those of \<open>Traffic\<close> alone.
\<close>

section \<open>State\<close>

text \<open>For the properties only: what was ever counted, what the panel has accepted, and the users
  who could ever log in.\<close>

record 'b serving =
  sn_node :: "'b node"
  sn_task :: task
  sn_added :: "int \<Rightarrow> traffic"
  sn_sent :: "(int \<times> traffic) list"
  sn_admitted :: "int set"

definition admitted_now :: "UsersService \<Rightarrow> int set" where
  "admitted_now us = {u. \<exists>h. AuthAndGetUserId h us = Some u}"

definition reporter_of :: "'b serving \<Rightarrow> reporter" where
  "reporter_of s = \<lparr>rp_store = nd_traffic (sn_node s), rp_task = sn_task s, g_added = sn_added s, g_sent = sn_sent s\<rparr>"

section \<open>Steps\<close>

text \<open>\<open>sn_move\<close> and \<open>sn_count\<close> are the steps of a connection or of a fetch, by whether they count
  anything; \<open>sn_stream\<close> is \<open>trafficItem.Count.Add(1)\<close> at the head of a stream's handler, and
  \<open>sn_report\<close> a step of the report task.\<close>

inductive serving_step ::
  "'b buflib \<Rightarrow> (byte list \<Rightarrow> byte list) \<Rightarrow> 'b serving \<Rightarrow> 'b serving \<Rightarrow> bool" for bl sha256 where
  sn_move: "node_step bl sha256 (sn_node s) n \<Longrightarrow> nd_traffic n = nd_traffic (sn_node s) \<Longrightarrow>
     serving_step bl sha256 s (s\<lparr>sn_node := n, sn_admitted := sn_admitted s \<union> admitted_now (nd_users n)\<rparr>)"
| sn_count: "node_step bl sha256 (sn_node s) n \<Longrightarrow> nd_traffic n = traffic_add u t (nd_traffic (sn_node s)) \<Longrightarrow>
     serving_step bl sha256 s (s\<lparr>sn_node := n, sn_admitted := sn_admitted s \<union> admitted_now (nd_users n),
       sn_added := (sn_added s)(u := sn_added s u + t)\<rparr>)"
| sn_stream: "i < length (nd_conns (sn_node s)) \<Longrightarrow> nd_conns (sn_node s) ! i = HRunning u \<Longrightarrow>
     serving_step bl sha256 s
       (s\<lparr>sn_node := (sn_node s)\<lparr>nd_traffic := traffic_add u (Traffic 0 0 1) (nd_traffic (sn_node s))\<rparr>,
          sn_added := (sn_added s)(u := sn_added s u + Traffic 0 0 1)\<rparr>)"
| sn_report: "task_step (reporter_of s) r \<Longrightarrow>
     serving_step bl sha256 s
       (s\<lparr>sn_node := (sn_node s)\<lparr>nd_traffic := rp_store r\<rparr>, sn_task := rp_task r, sn_sent := g_sent r\<rparr>)"

inductive serving_reach :: "'b buflib \<Rightarrow> (byte list \<Rightarrow> byte list) \<Rightarrow> 'b serving \<Rightarrow> bool" for bl sha256 where
  serving_init: "UsersService_init sha256 registerID (Inr userList) no_users = (None, us) \<Longrightarrow>
     serving_reach bl sha256
       \<lparr>sn_node = \<lparr>nd_users = us, nd_traffic = [], nd_conns = []\<rparr>, sn_task = TIdle, sn_added = \<lambda>_. 0,
        sn_sent = [], sn_admitted = admitted_now us\<rparr>"
| serving_more: "serving_reach bl sha256 s \<Longrightarrow> serving_step bl sha256 s s' \<Longrightarrow> serving_reach bl sha256 s'"

text \<open>Every step of the connections and of the fetches is one of the two.\<close>

lemma node_step_counts:
  "node_step bl sha256 n n' \<Longrightarrow> nd_traffic n' = nd_traffic n \<or> (\<exists>u t. nd_traffic n' = traffic_add u t (nd_traffic n))"
  by (erule node_step.cases)
    (auto simp: set_conn_def count_header_def CountedConn_Read_def CountedConn_Write_def)

lemma serving_node_step:
  assumes "node_step bl sha256 (sn_node s) n"
  shows "\<exists>s'. serving_step bl sha256 s s' \<and> sn_node s' = n"
  using node_step_counts [OF assms]
proof
  assume "nd_traffic n = nd_traffic (sn_node s)"
  from sn_move [OF assms this] show ?thesis by fastforce
next
  assume "\<exists>u t. nd_traffic n = traffic_add u t (nd_traffic (sn_node s))"
  then obtain u t where "nd_traffic n = traffic_add u t (nd_traffic (sn_node s))" by blast
  from sn_count [OF assms this] show ?thesis by fastforce
qed

section \<open>The counters refine those of the report task\<close>

lemma serving_simulates:
  assumes "serving_step bl sha256 s s'"
  shows "reporter_of s' = reporter_of s \<or> report_step (reporter_of s) (reporter_of s')"
  using assms
proof (cases rule: serving_step.cases)
  case (sn_move n)
  then show ?thesis by (simp add: reporter_of_def)
next
  case (sn_count n u t)
  then show ?thesis using t_bump [of "reporter_of s" u t] by (simp add: reporter_of_def)
next
  case (sn_stream i u)
  then show ?thesis using t_bump [of "reporter_of s" u "Traffic 0 0 1"] by (simp add: reporter_of_def)
next
  case (sn_report r)
  have "g_added r = sn_added s" using task_step_added [OF sn_report(2)] by (simp add: reporter_of_def)
  then have "reporter_of s' = r" using sn_report(1) by (simp add: reporter_of_def)
  then show ?thesis using t_task [OF sn_report(2)] by simp
qed

interpretation counters: forward_simulation "serving_step bl sha256" "\<lambda>_. True" report_step reporter_of
  for bl sha256
  by unfold_locales (blast, rule serving_simulates)

section \<open>Whose traffic is counted\<close>

fun handler_user :: "'b handler \<Rightarrow> int set" where
  "handler_user (HAuthed u plen) = {u}"
| "handler_user (HCounted u) = {u}"
| "handler_user (HRegistered u) = {u}"
| "handler_user (HRunning u) = {u}"
| "handler_user h = {}"

fun task_users :: "task \<Rightarrow> int set" where
  "task_users TIdle = {}"
| "task_users (TScan keys acc) = fst ` set acc"
| "task_users (TDown uid up keys acc) = insert uid (fst ` set acc)"
| "task_users (TCount uid up down keys acc) = insert uid (fst ` set acc)"
| "task_users (TSubmit acc) = fst ` set acc"
| "task_users (TRestore acc) = fst ` set acc"

definition node_users_ok :: "int set \<Rightarrow> 'b node \<Rightarrow> bool" where
  "node_users_ok A n \<longleftrightarrow>
     admitted_now (nd_users n) \<subseteq> A \<and> (\<Union>h \<in> set (nd_conns n). handler_user h) \<subseteq> A \<and> fst ` set (nd_traffic n) \<subseteq> A"

definition reporter_users_ok :: "int set \<Rightarrow> reporter \<Rightarrow> bool" where
  "reporter_users_ok A r \<longleftrightarrow> fst ` set (rp_store r) \<subseteq> A \<and> task_users (rp_task r) \<subseteq> A \<and> fst ` set (g_sent r) \<subseteq> A"

lemma update_keys: "fst ` set (AList.update k v al) = insert k (fst ` set al)"
  by (simp add: dom_update [symmetric] dom_map_of_conv_image_fst [symmetric] map_of_AList_update)

lemma traffic_add_keys: "fst ` set (traffic_add u t tm) = insert u (fst ` set tm)"
  by (auto simp: traffic_add_def loadOrStore_def update_keys split: option.splits)

lemma set_item_keys: "fst ` set (rp_store (set_item u f r)) = insert u (fst ` set (rp_store r))"
  by (simp add: set_item_def update_keys)

lemma readHandshake_user:
  "readHandshake bl auth b = Inr (u, plen, b') \<Longrightarrow> \<exists>h. auth h = Some u"
  by (auto simp: readHandshake_def Let_def split: option.splits if_splits prod.splits)

text \<open>The users of the connections, of the counters and of those who can log in now.\<close>

definition conn_users :: "'b node \<Rightarrow> int set" where
  "conn_users n = (\<Union>h \<in> set (nd_conns n). handler_user h)"

lemma conn_users_nth: "i < length (nd_conns n) \<Longrightarrow> u \<in> handler_user (nd_conns n ! i) \<Longrightarrow> u \<in> conn_users n"
  by (auto simp: conn_users_def)

lemma conn_users_set: "conn_users (set_conn i h n) \<subseteq> handler_user h \<union> conn_users n"
  using set_update_subset_insert [of "nd_conns n" i h] by (auto simp: conn_users_def set_conn_def)

lemma conn_users_other [simp]:
  "conn_users (n\<lparr>nd_traffic := tm\<rparr>) = conn_users n" "conn_users (n\<lparr>nd_users := us\<rparr>) = conn_users n"
  by (simp_all add: conn_users_def)

lemma node_step_conn_users:
  assumes "node_step bl sha256 n n'"
  shows "conn_users n' \<subseteq> conn_users n \<union> admitted_now (nd_users n)"
  using assms
proof (cases rule: node_step.cases)
  case nd_accept
  then show ?thesis by (simp add: conn_users_def)
next
  case (nd_first i b)
  then show ?thesis using conn_users_set [of i "HFirst b" n] by auto
next
  case (nd_no_first i)
  then show ?thesis using conn_users_set [of i HEnded n] by auto
next
  case (nd_refuse i b e)
  then show ?thesis using conn_users_set [of i HEnded n] by auto
next
  case (nd_auth i b userId plen b')
  have "userId \<in> admitted_now (nd_users n)"
    using readHandshake_user [OF nd_auth(4)] by (simp add: admitted_now_def)
  then show ?thesis using nd_auth(1) conn_users_set [of i "HAuthed userId plen" n] by auto
next
  case (nd_count i userId plen)
  then show ?thesis using conn_users_set [of i "HCounted userId" n] conn_users_nth [of i n userId] by auto
next
  case (nd_register i userId)
  then show ?thesis using conn_users_set [of i "HRegistered userId" n] conn_users_nth [of i n userId] by auto
next
  case (nd_hook i userId)
  then show ?thesis using conn_users_set [of i "HRunning userId" n] conn_users_nth [of i n userId] by auto
next
  case (nd_end i userId)
  then show ?thesis using conn_users_set [of i HEnded n] by auto
next
  case (nd_closed i userId)
  then show ?thesis using conn_users_set [of i HEnded n] by auto
qed simp_all

lemma node_step_keys:
  assumes "node_step bl sha256 n n'"
  shows "fst ` set (nd_traffic n') \<subseteq> fst ` set (nd_traffic n) \<union> conn_users n"
  using assms
proof (cases rule: node_step.cases)
  case (nd_count i userId plen)
  then have "userId \<in> conn_users n" using conn_users_nth [of i n userId] by simp
  then show ?thesis using nd_count(1) by (auto simp: count_header_def traffic_add_keys simp del: image_subset_iff)
next
  case (nd_read i userId k)
  then have "userId \<in> conn_users n" using conn_users_nth [of i n userId] by simp
  then show ?thesis using nd_read(1) by (simp add: CountedConn_Read_def traffic_add_keys)
next
  case (nd_write i userId k)
  then have "userId \<in> conn_users n" using conn_users_nth [of i n userId] by simp
  then show ?thesis using nd_write(1) by (simp add: CountedConn_Write_def traffic_add_keys)
qed (auto simp: set_conn_def)

lemma task_step_users:
  assumes "task_step r r'"
  shows "fst ` set (rp_store r') \<union> task_users (rp_task r') \<union> fst ` set (g_sent r')
    \<subseteq> fst ` set (rp_store r) \<union> task_users (rp_task r) \<union> fst ` set (g_sent r)"
  using assms
proof (cases rule: task_step.cases)
  case (t_up uid keys acc item)
  then have "uid \<in> fst ` set (rp_store r)" by (metis domI dom_map_of_conv_image_fst)
  then show ?thesis using t_up by (simp add: set_item_keys)
next
  case (t_down uid up keys acc)
  then show ?thesis by (simp add: set_item_keys)
next
  case (t_count uid up down keys acc cnt)
  then show ?thesis by (simp add: set_item_keys) blast
next
  case (t_restore uid t acc)
  then show ?thesis by (simp add: traffic_add_keys)
qed auto

definition known_users :: "'b serving \<Rightarrow> int set" where
  "known_users s = admitted_now (nd_users (sn_node s)) \<union> conn_users (sn_node s) \<union> fst ` set (nd_traffic (sn_node s)) \<union>
     task_users (sn_task s) \<union> fst ` set (sn_sent s)"

lemma known_users_step:
  assumes "serving_step bl sha256 s s'"
  shows "known_users s' \<subseteq> known_users s \<union> sn_admitted s' \<and> sn_admitted s \<subseteq> sn_admitted s'"
  using assms
proof (cases rule: serving_step.cases)
  case (sn_move n)
  then show ?thesis using node_step_conn_users [OF sn_move(2)] by (auto simp: known_users_def)
next
  case (sn_count n u t)
  have "fst ` set (nd_traffic n) \<subseteq> known_users s"
    using node_step_keys [OF sn_count(2)] by (auto simp: known_users_def)
  moreover have "conn_users n \<subseteq> known_users s"
    using node_step_conn_users [OF sn_count(2)] by (auto simp: known_users_def)
  moreover have "admitted_now (nd_users n) \<subseteq> sn_admitted s'" by (simp add: sn_count(1))
  moreover have "known_users s' = admitted_now (nd_users n) \<union> conn_users n \<union> fst ` set (nd_traffic n) \<union>
      task_users (sn_task s) \<union> fst ` set (sn_sent s)" by (simp add: sn_count(1) known_users_def)
  ultimately show ?thesis by (auto simp: sn_count(1) known_users_def)
next
  case (sn_stream i u)
  then have "u \<in> conn_users (sn_node s)" using conn_users_nth [of i "sn_node s" u] by simp
  then show ?thesis by (simp add: sn_stream(1) known_users_def traffic_add_keys)
next
  case (sn_report r)
  then show ?thesis using task_step_users [OF sn_report(2)] by (auto simp: known_users_def reporter_of_def)
qed

lemma serving_reach_known: "serving_reach bl sha256 s \<Longrightarrow> known_users s \<subseteq> sn_admitted s"
proof (induction rule: serving_reach.induct)
  case (serving_init registerID userList us)
  then show ?case by (simp add: known_users_def conn_users_def)
next
  case (serving_more s s')
  then show ?case using known_users_step [OF serving_more(2)] by blast
qed

lemma serving_reach_conserved: "serving_reach bl sha256 s \<Longrightarrow> conserved (reporter_of s)"
proof (induction rule: serving_reach.induct)
  case (serving_init registerID userList us)
  then show ?case by (simp add: reporter_of_def conserved_def stored_def)
next
  case (serving_more s s')
  have "(serving_step bl sha256)\<^sup>*\<^sup>* s s'" using serving_more(2) by blast
  from counters.transfer [where P = conserved, OF this TrueI serving_more(3)] show ?case
    by (blast intro: conserved_step)
qed

section \<open>Properties\<close>

text \<open>C8: A node loses no traffic: in every interleaving of its connections, their streams, the
  fetches of the user list and the report task, what was ever counted for a user is what the
  panel has accepted for it, what is stored and what the task holds; and the panel is only
  ever sent traffic of users who could log in at some time.\<close>

theorem node_traffic_conserved:
  assumes "serving_reach bl sha256 s"
  shows "sn_added s u = reported (sn_sent s) u + stored (nd_traffic (sn_node s)) u + task_holds (sn_task s) u \<and>
     fst ` set (sn_sent s) \<subseteq> sn_admitted s \<and> fst ` set (nd_traffic (sn_node s)) \<subseteq> sn_admitted s"
  using serving_reach_conserved [OF assms] serving_reach_known [OF assms]
  by (simp add: conserved_def reporter_of_def known_users_def)

text \<open>A run: the demonstration user's connection counts its header, and the task takes it.\<close>

definition demo_serving :: "byte list node \<Rightarrow> byte list serving" where
  "demo_serving n = \<lparr>sn_node = n, sn_task = TIdle, sn_added = \<lambda>_. 0, sn_sent = [],
     sn_admitted = admitted_now (nd_users n)\<rparr>"

lemma demo_serving_counted:
  "\<exists>s. serving_reach list_buf demo_hash s \<and> sn_node s = demo_node [HCounted 1] one_user \<and>
     sn_task s = TIdle \<and> sn_added s 1 = Traffic 34 0 0"
proof -
  let ?b = "client_hello (replicate 32 7) []"
  let ?n0 = "\<lparr>nd_users = one_user, nd_traffic = [], nd_conns = []\<rparr>"
  let ?na = "?n0\<lparr>nd_conns := [HAccepted]\<rparr>"
  let ?n1 = "?n0\<lparr>nd_conns := [HFirst ?b]\<rparr>" and ?n2 = "?n0\<lparr>nd_conns := [HAuthed 1 0]\<rparr>"
  let ?s0 = "demo_serving ?n0"
  let ?sa = "?s0\<lparr>sn_node := ?na\<rparr>"
  let ?s1 = "?s0\<lparr>sn_node := ?n1\<rparr>" and ?s2 = "?s0\<lparr>sn_node := ?n2\<rparr>"
  let ?s3 = "?s2\<lparr>sn_node := demo_node [HCounted 1] one_user, sn_added := (\<lambda>_. 0)(1 := 0 + Traffic 34 0 0)\<rparr>"
  have "UsersService_init demo_hash ''r'' (Inr [\<lparr>user_ID = 1, UUID = ''a''\<rparr>]) no_users = (None, one_user)"
    by (simp add: one_user_def UsersService_init_def)
  then have r0: "serving_reach list_buf demo_hash ?s0"
    using serving_init [of demo_hash "''r''"] by (simp add: demo_serving_def)
  have "node_step list_buf demo_hash ?n0 ?na" using nd_accept [of _ _ ?n0] by simp
  then have ra: "serving_reach list_buf demo_hash ?sa"
    using sn_move [of list_buf demo_hash ?s0 ?na] serving_more [OF r0] by (simp add: demo_serving_def)
  have "node_step list_buf demo_hash ?na ?n1" using nd_first [of 0 ?na _ _ ?b] by (simp add: set_conn_def)
  then have r1: "serving_reach list_buf demo_hash ?s1"
    using sn_move [of list_buf demo_hash ?sa ?n1] serving_more [OF ra] by (simp add: demo_serving_def)
  have "\<exists>b'. readHandshake list_buf (\<lambda>h. AuthAndGetUserId h one_user) ?b = Inr (1, 0, b')"
    using readHandshake_bytes [OF list_buf_laws, of ?b "\<lambda>h. AuthAndGetUserId h one_user"] one_user_auth
      Uint16_PutUint16 [of 0 "[]"]
    by (simp add: list_buf_def client_hello_def)
  then have "node_step list_buf demo_hash ?n1 ?n2"
    using nd_auth [of 0 ?n1 ?b list_buf 1 0] by (auto simp: set_conn_def)
  then have r2: "serving_reach list_buf demo_hash ?s2"
    using sn_move [of list_buf demo_hash ?s1 ?n2] serving_more [OF r1] by (simp add: demo_serving_def)
  have "node_step list_buf demo_hash ?n2 (demo_node [HCounted 1] one_user)"
    using nd_count [of 0 ?n2 1 0] by (simp add: set_conn_def demo_node_def)
  then have "serving_step list_buf demo_hash ?s2 ?s3"
    using sn_count [of list_buf demo_hash ?s2 "demo_node [HCounted 1] one_user" 1 "Traffic 34 0 0"]
    by (simp add: demo_serving_def demo_node_def count_header_def header_count_def passwordLen_def paddingLenFieldSz_def)
  then have "serving_reach list_buf demo_hash ?s3" by (rule serving_more [OF r2])
  then show ?thesis by (intro exI [of _ ?s3]) (simp add: demo_serving_def)
qed

theorem node_traffic_conserved_witness:
  "\<exists>s. serving_reach list_buf demo_hash s \<and> sn_task s = TScan [1] [] \<and>
     stored (nd_traffic (sn_node s)) 1 = Traffic 34 0 0 \<and> fst ` set (nd_traffic (sn_node s)) \<subseteq> sn_admitted s"
proof -
  obtain s where s: "serving_reach list_buf demo_hash s" "sn_task s = TIdle" "sn_added s 1 = Traffic 34 0 0"
    "sn_node s = demo_node [HCounted 1] one_user"
    using demo_serving_counted by blast
  let ?s = "s\<lparr>sn_task := TScan [1] []\<rparr>"
  have "serving_step list_buf demo_hash s ?s"
    using sn_report [OF t_start [of "reporter_of s" "[1]"], of list_buf demo_hash] s(2) by (simp add: reporter_of_def)
  then have r: "serving_reach list_buf demo_hash ?s" by (rule serving_more [OF s(1)])
  have "stored (nd_traffic (sn_node s)) 1 = Traffic 34 0 0"
    by (simp add: s(4) demo_node_def count_header_def header_count_def passwordLen_def paddingLenFieldSz_def
        stored_def traffic_add_def loadOrStore_def plus_traffic_def)
  then show ?thesis using node_traffic_conserved [OF r, of 1] r by (intro exI [of _ ?s]) simp
qed

end
