(* ===== verification/Routine.thy ===== *)
theory Routine
  imports Users
begin

text \<open>
  \<open>StartRoutine\<close> of \<open>internal/pkg/util/routine.go\<close>, which runs the periodic tasks of the user
  service, and what the periodic fetch amounts to: the users that can authenticate follow the
  lists the panel gives. What the \<open>select\<close> of the loop picks is an argument, in order; the task
  is a function on the state that returns or panics, and in a panic what it did up to there
  stays done.
\<close>

section \<open>The loop\<close>

datatype 's outcome = Returned 's | Panicked 's

datatype select = Tick | CtxDone

text \<open>Whether the goroutine is still there, and the state.\<close>

fun routine_loop :: "('s \<Rightarrow> 's outcome) \<Rightarrow> select list \<Rightarrow> 's \<Rightarrow> bool \<times> 's" where
  "routine_loop f [] s = (True, s)"
| "routine_loop f (Tick # evs) s =
     (case f s of Returned s' \<Rightarrow> routine_loop f evs s' | Panicked s' \<Rightarrow> (False, s'))"
| "routine_loop f (CtxDone # evs) s = (False, s)"

text \<open>\<open>time.NewTicker\<close> panics for an interval that is not positive; the \<open>recover\<close> of the goroutine
  ends it then.\<close>

definition StartRoutine :: "int \<Rightarrow> ('s \<Rightarrow> 's outcome) \<Rightarrow> select list \<Rightarrow> 's \<Rightarrow> bool \<times> 's" where
  "StartRoutine d f evs s = (if d \<le> 0 then (False, s) else routine_loop f evs s)"

lemma routine_append:
  "routine_loop f (evs @ evs') s =
     (case routine_loop f evs s of (True, s') \<Rightarrow> routine_loop f evs' s' | (False, s') \<Rightarrow> (False, s'))"
  by (induction f evs s rule: routine_loop.induct) (auto split: outcome.split)

text \<open>A task that never panics.\<close>

lemma routine_ticks:
  assumes "\<And>s. f s = Returned (g s)"
  shows "routine_loop f (replicate n Tick) s = (True, (g ^^ n) s)"
  by (induction n arbitrary: s) (simp_all add: assms funpow_swap1)

text \<open>a panic of the task ends its routine for good: the state is what the panic left, and no later
  tick runs the task again, as the \<open>recover\<close> stands outside the loop.\<close>

theorem panic_ends_routine:
  assumes "0 < d" and "routine_loop f evs s = (True, s1)" and "f s1 = Panicked s2"
  shows "StartRoutine d f (evs @ Tick # later) s = (False, s2)"
  using assms by (simp add: StartRoutine_def routine_append)

section \<open>The periodic fetch\<close>

text \<open>The state is the service and the number of fetches so far; \<open>reply k\<close> is the panel's answer
  to fetch \<open>k\<close>.\<close>

definition fetch_next ::
  "(byte list \<Rightarrow> byte list) \<Rightarrow> ((string \<times> User) list \<Rightarrow> (string \<times> User) list) \<Rightarrow>
   (nat \<Rightarrow> go_error + User list option) \<Rightarrow> UsersService \<times> nat \<Rightarrow> UsersService \<times> nat" where
  "fetch_next sha256 order reply x =
     (case x of (s, k) \<Rightarrow> (FetchUsersTask sha256 order (reply k) s, k + 1))"

definition fetch_tick ::
  "(byte list \<Rightarrow> byte list) \<Rightarrow> ((string \<times> User) list \<Rightarrow> (string \<times> User) list) \<Rightarrow>
   (nat \<Rightarrow> go_error + User list option) \<Rightarrow> UsersService \<times> nat \<Rightarrow> (UsersService \<times> nat) outcome" where
  "fetch_tick sha256 order reply x = Returned (fetch_next sha256 order reply x)"

text \<open>The last list of the panel before fetch \<open>n\<close>.\<close>

primrec last_list :: "(nat \<Rightarrow> go_error + User list option) \<Rightarrow> User list option \<Rightarrow> nat \<Rightarrow> User list option" where
  "last_list reply old 0 = old"
| "last_list reply old (Suc k) = (case reply k of Inl err \<Rightarrow> last_list reply old k | Inr new \<Rightarrow> new)"

definition all_uuids :: "(nat \<Rightarrow> go_error + User list option) \<Rightarrow> User list option \<Rightarrow> string set" where
  "all_uuids reply old = uuids old \<union> (\<Union>k. case reply k of Inl err \<Rightarrow> {} | Inr new \<Rightarrow> uuids new)"

lemma all_uuids_reply: "reply n = Inr new \<Longrightarrow> uuids new \<subseteq> all_uuids reply old"
  unfolding all_uuids_def by (rule le_supI2, rule SUP_upper2 [of n]) simp_all

lemma uuids_last_list: "uuids (last_list reply old n) \<subseteq> all_uuids reply old"
proof (induction n)
  case 0
  then show ?case by (auto simp: all_uuids_def)
next
  case (Suc n)
  then show ?case using all_uuids_reply [of reply n] by (cases "reply n") simp_all
qed

lemma fetch_step_inv:
  assumes "users_inv sha256 s" and "\<And>m. set (order m) = set m"
    and "inj_on (user_key sha256) U" and "uuids (us_userList s) \<subseteq> U"
    and "\<And>new. reply = Inr new \<Longrightarrow> uuids new \<subseteq> U"
  shows "users_inv sha256 (FetchUsersTask sha256 order reply s) \<and>
     us_userList (FetchUsersTask sha256 order reply s) = (case reply of Inl err \<Rightarrow> us_userList s | Inr new \<Rightarrow> new)"
proof (cases reply)
  case (Inl err)
  then show ?thesis using assms(1) by (simp add: FetchUsersTask_def)
next
  case (Inr new)
  have "inj_on (user_key sha256) (uuids (us_userList s) \<union> uuids new)"
    by (rule inj_on_subset [OF assms(3)]) (use assms(4) assms(5) [OF Inr] in simp)
  note keys = FetchUsersTask_keys [where order = order, OF assms(1,2) this]
  show ?thesis using keys by (simp add: users_inv_def Inr)
qed

lemma fetch_ticks_inv:
  assumes "users_inv sha256 s" and "\<And>m. set (order m) = set m"
    and "inj_on (user_key sha256) (all_uuids reply (us_userList s))"
  shows "\<exists>s'. (fetch_next sha256 order reply ^^ n) (s, 0) = (s', n) \<and> users_inv sha256 s' \<and>
     us_userList s' = last_list reply (us_userList s) n"
proof (induction n)
  case 0
  then show ?case using assms(1) by simp
next
  case (Suc n)
  then obtain s' where s': "(fetch_next sha256 order reply ^^ n) (s, 0) = (s', n)" "users_inv sha256 s'"
    "us_userList s' = last_list reply (us_userList s) n" by blast
  then have "uuids (us_userList s') \<subseteq> all_uuids reply (us_userList s)" using uuids_last_list by metis
  note step = fetch_step_inv [where order = order and reply = "reply n", OF s'(2) assms(2,3) this all_uuids_reply]
  have "(fetch_next sha256 order reply ^^ Suc n) (s, 0) = (FetchUsersTask sha256 order (reply n) s', Suc n)"
    using s'(1) by (simp add: fetch_next_def [of _ _ _ "(s', n)"])
  then show ?case using step s'(3) by (auto split: sum.splits)
qed

text \<open>C16: The users that can authenticate follow the panel: after any number of ticks they are those of
  the last list it gave, whatever requests failed in between; when the context ends nothing
  changes any more, and the routine is gone.\<close>

theorem users_follow_panel:
  assumes "0 < d" and "users_inv sha256 s" and order: "\<And>m. set (order m) = set m"
    and inj: "inj_on (user_key sha256) (all_uuids reply (us_userList s))"
  shows "\<exists>s'. StartRoutine d (fetch_tick sha256 order reply) (replicate n Tick) (s, 0) = (True, (s', n)) \<and>
     StartRoutine d (fetch_tick sha256 order reply) (replicate n Tick @ CtxDone # evs) (s, 0) = (False, (s', n)) \<and>
     us_userList s' = last_list reply (us_userList s) n \<and>
     (\<forall>h. AuthAndGetUserId h s' \<noteq> None \<longleftrightarrow>
        h \<in> user_key sha256 ` uuids (last_list reply (us_userList s) n))"
proof -
  obtain s' where s': "(fetch_next sha256 order reply ^^ n) (s, 0) = (s', n)" "users_inv sha256 s'"
    "us_userList s' = last_list reply (us_userList s) n"
    using fetch_ticks_inv [where order = order and n = n, OF assms(2-4)] by blast
  have run: "routine_loop (fetch_tick sha256 order reply) (replicate n Tick) (s, 0) = (True, (s', n))"
    unfolding s'(1) [symmetric] by (rule routine_ticks) (rule fetch_tick_def)
  have "\<forall>h. AuthAndGetUserId h s' \<noteq> None \<longleftrightarrow> h \<in> user_key sha256 ` uuids (last_list reply (us_userList s) n)"
    using s'(2,3) unfolding auth_dom by (simp add: users_inv_def)
  then show ?thesis using run s' assms(1)
    by (intro exI [of _ s']) (simp add: StartRoutine_def routine_append)
qed

theorem users_follow_panel_witness:
  "\<exists>s'. StartRoutine 60 (fetch_tick (\<lambda>b. b) id (\<lambda>k. if k = 0 then Inr (Some [\<lparr>user_ID = 1, UUID = ''a''\<rparr>]) else Inl ErrEOF))
       (replicate 2 Tick) (demo_users, 0) = (True, (s', 2)) \<and>
     AuthAndGetUserId (user_key (\<lambda>b. b) ''a'') s' \<noteq> None \<and> AuthAndGetUserId (user_key (\<lambda>b. b) ''b'') s' = None"
proof -
  let ?reply = "\<lambda>k::nat. if k = 0 then Inr (Some [\<lparr>user_ID = 1, UUID = ''a''\<rparr>]) else Inl ErrEOF"
  have inv: "users_inv (\<lambda>b. b) demo_users"
    unfolding demo_users_def by (rule UsersService_init_inv) simp_all
  have list: "us_userList demo_users = Some [\<lparr>user_ID = 1, UUID = ''a''\<rparr>, \<lparr>user_ID = 2, UUID = ''b''\<rparr>]"
    by (simp add: demo_users_def UsersService_init_def)
  have ab: "user_key (\<lambda>b. b) ''a'' \<noteq> user_key (\<lambda>b. b) ''b''"
    by (simp add: user_key_def bytes_of_string_def hex_EncodeToString_def hex_digit_def)
  have "all_uuids ?reply (us_userList demo_users) \<subseteq> {''a'', ''b''}"
    by (auto simp: all_uuids_def list uuids_def split: if_splits)
  moreover have "inj_on (user_key (\<lambda>b. b)) {''a'', ''b''}" using ab by (auto simp: inj_on_def)
  ultimately have "inj_on (user_key (\<lambda>b. b)) (all_uuids ?reply (us_userList demo_users))" by (blast intro: inj_on_subset)
  note inj = this
  have last: "uuids (last_list ?reply (us_userList demo_users) 2) = {''a''}"
    by (simp add: uuids_def numeral_eq_Suc)
  obtain s' where "StartRoutine 60 (fetch_tick (\<lambda>b. b) id ?reply) (replicate 2 Tick) (demo_users, 0) = (True, (s', 2))"
    and auth: "\<forall>h. AuthAndGetUserId h s' \<noteq> None \<longleftrightarrow> h \<in> user_key (\<lambda>b. b) ` {''a''}"
    using users_follow_panel [where d = 60 and order = id and n = 2 and evs = "[]", OF _ inv _ inj]
    unfolding last by fastforce
  moreover have "AuthAndGetUserId (user_key (\<lambda>b. b) ''a'') s' \<noteq> None" using auth by blast
  moreover have "AuthAndGetUserId (user_key (\<lambda>b. b) ''b'') s' = None"
    using spec [OF auth, of "user_key (\<lambda>b. b) ''b''"] ab by auto
  ultimately show ?thesis by blast
qed

end
