(* ===== verification/ServerState.thy ===== *)
theory ServerState
  imports GoNet
begin

text \<open>
  The state file of a node: \<open>internal/app/server/state.go\<close>. The file system is a map from paths
  to contents, with a script of faults for the calls of package \<open>os\<close>; \<open>encoding/json\<close> is a
  pair of functions. \<open>SaveState\<close> is modelled call by call, so that a crash between two calls,
  or in the middle of a write, can be looked at.
\<close>

section \<open>Files\<close>

text \<open>A call that fails: its error, and for a write how much got into the file, if it was opened.\<close>

datatype fault = Fine | Fault go_error "nat option"

record files =
  fs_files :: "string \<rightharpoonup> byte list"
  fs_faults :: "fault list"

definition next_fault :: "files \<Rightarrow> fault \<times> files" where
  "next_fault fs = (case fs_faults fs of [] \<Rightarrow> (Fine, fs) | f # rest \<Rightarrow> (f, fs\<lparr>fs_faults := rest\<rparr>))"

definition os_ReadFile :: "string \<Rightarrow> files \<Rightarrow> (go_error + byte list) \<times> files" where
  "os_ReadFile path fs =
     (case next_fault fs of
        (Fault err _, fs1) \<Rightarrow> (Inl err, fs1)
      | (Fine, fs1) \<Rightarrow>
          ((case fs_files fs1 path of None \<Rightarrow> Inl ErrNotExist | Some data \<Rightarrow> Inr data), fs1))"

definition os_MkdirAll :: "string \<Rightarrow> files \<Rightarrow> go_error option \<times> files" where
  "os_MkdirAll dir fs =
     (case next_fault fs of (Fault err _, fs1) \<Rightarrow> (Some err, fs1) | (Fine, fs1) \<Rightarrow> (None, fs1))"

definition os_WriteFile :: "string \<Rightarrow> byte list \<Rightarrow> files \<Rightarrow> go_error option \<times> files" where
  "os_WriteFile path data fs =
     (case next_fault fs of
        (Fault err None, fs1) \<Rightarrow> (Some err, fs1)
      | (Fault err (Some n), fs1) \<Rightarrow> (Some err, fs1\<lparr>fs_files := (fs_files fs1)(path \<mapsto> take n data)\<rparr>)
      | (Fine, fs1) \<Rightarrow> (None, fs1\<lparr>fs_files := (fs_files fs1)(path \<mapsto> data)\<rparr>))"

definition os_Rename :: "string \<Rightarrow> string \<Rightarrow> files \<Rightarrow> go_error option \<times> files" where
  "os_Rename old new fs =
     (case next_fault fs of
        (Fault err _, fs1) \<Rightarrow> (Some err, fs1)
      | (Fine, fs1) \<Rightarrow>
          (case fs_files fs1 old of
             None \<Rightarrow> (Some ErrNotExist, fs1)
           | Some data \<Rightarrow> (None, fs1\<lparr>fs_files := (fs_files fs1)(old := None, new \<mapsto> data)\<rparr>)))"

definition os_Remove :: "string \<Rightarrow> files \<Rightarrow> go_error option \<times> files" where
  "os_Remove path fs =
     (case next_fault fs of
        (Fault err _, fs1) \<Rightarrow> (Some err, fs1)
      | (Fine, fs1) \<Rightarrow>
          (case fs_files fs1 path of
             None \<Rightarrow> (Some ErrNotExist, fs1)
           | Some _ \<Rightarrow> (None, fs1\<lparr>fs_files := (fs_files fs1)(path := None)\<rparr>)))"

lemmas os_defs = next_fault_def os_ReadFile_def os_MkdirAll_def os_WriteFile_def os_Rename_def os_Remove_def

section \<open>The state\<close>

record State =
  RegisterID :: string
  NodeID :: int
  Hostname :: string

record json =
  js_Marshal :: "State \<Rightarrow> go_error + byte list"
  js_Unmarshal :: "byte list \<Rightarrow> go_error + State"

text \<open>A state that comes back from its own encoding.\<close>

definition json_ok :: "json \<Rightarrow> State \<Rightarrow> bool" where
  "json_ok js st \<longleftrightarrow> (\<exists>data. js_Marshal js st = Inr data \<and> js_Unmarshal js data = Inr st)"

definition DefaultDataDir :: string where
  "DefaultDataDir = ''/var/lib/anytls-node''"

definition StateFileName :: string where
  "StateFileName = ''state.json''"

definition GetStateFilePath :: "string \<Rightarrow> string" where
  "GetStateFilePath dataDir = Join2 (if dataDir = '''' then DefaultDataDir else dataDir) StateFileName"

text \<open>\<open>LoadState\<close>: no file is no state and no error.\<close>

definition LoadState :: "json \<Rightarrow> string \<Rightarrow> files \<Rightarrow> (go_error + State option) \<times> files" where
  "LoadState js dataDir fs =
     (case os_ReadFile (GetStateFilePath dataDir) fs of
        (Inl err, fs1) \<Rightarrow>
          (if err = ErrNotExist then (Inr None, fs1) else (Inl (ErrWrap ''failed to read state file'' err), fs1))
      | (Inr data, fs1) \<Rightarrow>
          (case js_Unmarshal js data of
             Inl err \<Rightarrow> (Inl (ErrWrap ''failed to unmarshal state'' err), fs1)
           | Inr state \<Rightarrow> (Inr (Some state), fs1)))"

section \<open>Saving, call by call\<close>

datatype save_pc =
    SvMkdir
  | SvMarshal
  | SvWrite "byte list"
  | SvRename
  | SvRemove go_error
  | SvDone "go_error option"

definition tmp_path :: "string \<Rightarrow> string" where
  "tmp_path dataDir = GetStateFilePath dataDir @ ''.tmp''"

fun save_step :: "json \<Rightarrow> string \<Rightarrow> State \<Rightarrow> save_pc \<times> files \<Rightarrow> save_pc \<times> files" where
  "save_step js dataDir state (SvMkdir, fs) =
     (case os_MkdirAll (if dataDir = '''' then DefaultDataDir else dataDir) fs of
        (Some err, fs1) \<Rightarrow> (SvDone (Some (ErrWrap ''failed to create data directory'' err)), fs1)
      | (None, fs1) \<Rightarrow> (SvMarshal, fs1))"
| "save_step js dataDir state (SvMarshal, fs) =
     (case js_Marshal js state of
        Inl err \<Rightarrow> (SvDone (Some (ErrWrap ''failed to marshal state'' err)), fs)
      | Inr data \<Rightarrow> (SvWrite data, fs))"
| "save_step js dataDir state (SvWrite data, fs) =
     (case os_WriteFile (tmp_path dataDir) data fs of
        (Some err, fs1) \<Rightarrow> (SvDone (Some (ErrWrap ''failed to write state file'' err)), fs1)
      | (None, fs1) \<Rightarrow> (SvRename, fs1))"
| "save_step js dataDir state (SvRename, fs) =
     (case os_Rename (tmp_path dataDir) (GetStateFilePath dataDir) fs of
        (Some err, fs1) \<Rightarrow> (SvRemove err, fs1)
      | (None, fs1) \<Rightarrow> (SvDone None, fs1))"
| "save_step js dataDir state (SvRemove err, fs) =
     (SvDone (Some (ErrWrap ''failed to rename state file'' err)), snd (os_Remove (tmp_path dataDir) fs))"
| "save_step js dataDir state (SvDone r, fs) = (SvDone r, fs)"

text \<open>The calls are at most five.\<close>

definition SaveState :: "json \<Rightarrow> string \<Rightarrow> State \<Rightarrow> files \<Rightarrow> go_error option \<times> files" where
  "SaveState js dataDir state fs =
     (case (save_step js dataDir state ^^ 5) (SvMkdir, fs) of
        (SvDone r, fs') \<Rightarrow> (r, fs')
      | (_, fs') \<Rightarrow> (None, fs'))"

definition ClearState :: "string \<Rightarrow> files \<Rightarrow> go_error option \<times> files" where
  "ClearState dataDir fs =
     (case os_Remove (GetStateFilePath dataDir) fs of
        (Some err, fs1) \<Rightarrow>
          (if err \<noteq> ErrNotExist then (Some (ErrWrap ''failed to remove state file'' err), fs1) else (None, fs1))
      | (None, fs1) \<Rightarrow> (None, fs1))"

text \<open>
  The files a crash during \<open>SaveState\<close> leaves: those after some of its calls, or with the
  temporary file written in part.
\<close>

inductive crash_files :: "json \<Rightarrow> string \<Rightarrow> State \<Rightarrow> files \<Rightarrow> (string \<rightharpoonup> byte list) \<Rightarrow> bool"
  for js dataDir state fs where
  crash_between: "(save_step js dataDir state ^^ k) (SvMkdir, fs) = (pc, fs') \<Longrightarrow>
     crash_files js dataDir state fs (fs_files fs')"
| crash_in_write: "(save_step js dataDir state ^^ k) (SvMkdir, fs) = (SvWrite data, fs') \<Longrightarrow>
     crash_files js dataDir state fs ((fs_files fs')(tmp_path dataDir \<mapsto> take n data))"

section \<open>What is in the state file\<close>

text \<open>What \<open>LoadState\<close> gives when no call fails.\<close>

definition state_in :: "json \<Rightarrow> string \<Rightarrow> (string \<rightharpoonup> byte list) \<Rightarrow> go_error + State option" where
  "state_in js dataDir m = fst (LoadState js dataDir \<lparr>fs_files = m, fs_faults = []\<rparr>)"

lemma tmp_path_neq [simp]: "tmp_path dataDir \<noteq> GetStateFilePath dataDir" "GetStateFilePath dataDir \<noteq> tmp_path dataDir"
  by (simp_all add: tmp_path_def)

lemma state_in_cong: "m (GetStateFilePath dataDir) = m' (GetStateFilePath dataDir) \<Longrightarrow>
    state_in js dataDir m = state_in js dataDir m'"
  by (simp add: state_in_def LoadState_def os_defs split: option.split sum.split)

lemma state_in_tmp [simp]: "state_in js dataDir (m(tmp_path dataDir := v)) = state_in js dataDir m"
  by (rule state_in_cong) simp

lemma state_in_saved:
  "js_Unmarshal js data = Inr st \<Longrightarrow> state_in js dataDir (m(GetStateFilePath dataDir \<mapsto> data)) = Inr (Some st)"
  by (simp add: state_in_def LoadState_def os_defs)

lemma state_in_cleared: "state_in js dataDir (m(GetStateFilePath dataDir := None)) = Inr None"
  by (simp add: state_in_def LoadState_def os_defs)

lemma ClearState_fine:
  assumes "fs_faults fs = []"
  shows "\<exists>fs'. ClearState dataDir fs = (None, fs') \<and> fs_faults fs' = [] \<and>
     fs_files fs' = (fs_files fs)(GetStateFilePath dataDir := None)"
  using assms by (cases "fs_files fs (GetStateFilePath dataDir)") (auto simp: ClearState_def os_defs fun_eq_iff)

text \<open>
  The invariant of a run of \<open>SaveState\<close>: up to the rename the state file is as it was, at the
  rename the temporary file holds the encoding, after it the state file does.
\<close>

definition untouched :: "string \<Rightarrow> files \<Rightarrow> files \<Rightarrow> bool" where
  "untouched dataDir fs fs' \<longleftrightarrow>
     (\<forall>p. p \<noteq> tmp_path dataDir \<and> p \<noteq> GetStateFilePath dataDir \<longrightarrow> fs_files fs' p = fs_files fs p)"

definition same_state :: "string \<Rightarrow> files \<Rightarrow> files \<Rightarrow> bool" where
  "same_state dataDir fs fs' \<longleftrightarrow> fs_files fs' (GetStateFilePath dataDir) = fs_files fs (GetStateFilePath dataDir)"

fun save_inv :: "json \<Rightarrow> string \<Rightarrow> State \<Rightarrow> files \<Rightarrow> save_pc \<times> files \<Rightarrow> bool" where
  "save_inv js dataDir state fs (SvMkdir, fs') = same_state dataDir fs fs'"
| "save_inv js dataDir state fs (SvMarshal, fs') = same_state dataDir fs fs'"
| "save_inv js dataDir state fs (SvWrite data, fs') =
     (same_state dataDir fs fs' \<and> js_Marshal js state = Inr data)"
| "save_inv js dataDir state fs (SvRename, fs') =
     (same_state dataDir fs fs' \<and> (\<exists>data. js_Marshal js state = Inr data \<and> fs_files fs' (tmp_path dataDir) = Some data))"
| "save_inv js dataDir state fs (SvRemove err, fs') = same_state dataDir fs fs'"
| "save_inv js dataDir state fs (SvDone (Some err), fs') = same_state dataDir fs fs'"
| "save_inv js dataDir state fs (SvDone None, fs') =
     (\<exists>data. js_Marshal js state = Inr data \<and> fs_files fs' (GetStateFilePath dataDir) = Some data)"

lemma save_step_inv:
  "save_inv js dataDir state fs (pc, fs1) \<Longrightarrow> save_inv js dataDir state fs (save_step js dataDir state (pc, fs1))"
  by (cases pc) (auto simp: os_defs same_state_def split: list.splits fault.splits option.splits sum.splits)

lemma save_step_untouched:
  "save_step js dataDir state (pc, fs1) = (pc', fs2) \<Longrightarrow> untouched dataDir fs fs1 \<Longrightarrow> untouched dataDir fs fs2"
  by (cases pc) (auto simp: os_defs untouched_def split: list.splits fault.splits option.splits sum.splits)

lemma save_run_inv:
  "(save_step js dataDir state ^^ k) (SvMkdir, fs) = (pc, fs') \<Longrightarrow>
   save_inv js dataDir state fs (pc, fs') \<and> untouched dataDir fs fs'"
proof (induction k arbitrary: pc fs')
  case 0
  then show ?case by (auto simp: same_state_def untouched_def)
next
  case (Suc k)
  obtain pc1 fs1 where 1: "(save_step js dataDir state ^^ k) (SvMkdir, fs) = (pc1, fs1)" by fastforce
  then have "save_step js dataDir state (pc1, fs1) = (pc, fs')" using Suc.prems by simp
  then show ?case
    using Suc.IH [OF 1] save_step_inv [of js dataDir state fs pc1 fs1] save_step_untouched by metis
qed

text \<open>Five calls are enough.\<close>

fun save_rank :: "save_pc \<Rightarrow> nat" where
  "save_rank SvMkdir = 5"
| "save_rank SvMarshal = 4"
| "save_rank (SvWrite data) = 3"
| "save_rank SvRename = 2"
| "save_rank (SvRemove err) = 1"
| "save_rank (SvDone r) = 0"

lemma save_step_rank: "save_rank (fst (save_step js dataDir state x)) \<le> save_rank (fst x) - 1"
  by (cases x; cases "fst x") (auto split: option.splits sum.splits prod.splits)

lemma save_run_rank: "save_rank (fst ((save_step js dataDir state ^^ k) x)) \<le> save_rank (fst x) - k"
proof (induction k)
  case (Suc k)
  then show ?case using save_step_rank [of js dataDir state "(save_step js dataDir state ^^ k) x"] by simp
qed simp

lemma SaveState_run:
  "\<exists>r fs'. (save_step js dataDir state ^^ 5) (SvMkdir, fs) = (SvDone r, fs') \<and>
     SaveState js dataDir state fs = (r, fs')"
proof -
  obtain pc fs' where run: "(save_step js dataDir state ^^ 5) (SvMkdir, fs) = (pc, fs')" by fastforce
  then have "save_rank pc = 0" using save_run_rank [where k = 5 and x = "(SvMkdir, fs)" and js = js and dataDir = dataDir and state = state] by simp
  then obtain r where "pc = SvDone r" by (cases pc) auto
  then show ?thesis using run by (simp add: SaveState_def)
qed

lemma SaveState_fine:
  assumes "fs_faults fs = []" and "json_ok js state"
  shows "\<exists>fs'. SaveState js dataDir state fs = (None, fs')"
  using assms by (auto simp: SaveState_def json_ok_def os_defs numeral_eq_Suc)

lemma SaveState_saved:
  assumes "fs_faults fs = []" and "json_ok js state"
  shows "\<exists>fs'. SaveState js dataDir state fs = (None, fs') \<and> fs_faults fs' = [] \<and>
     state_in js dataDir (fs_files fs') = Inr (Some state)"
proof -
  obtain data where data: "js_Marshal js state = Inr data" "js_Unmarshal js data = Inr state"
    using assms(2) by (auto simp: json_ok_def)
  have "SaveState js dataDir state fs =
      (None, fs\<lparr>fs_files := (fs_files fs)(tmp_path dataDir := None, GetStateFilePath dataDir \<mapsto> data)\<rparr>)"
    using assms(1) data(1) by (simp add: SaveState_def os_defs numeral_eq_Suc)
  then show ?thesis using assms(1) state_in_saved [OF data(2)] by simp
qed

lemma LoadState_fine:
  "fs_faults fs = [] \<Longrightarrow> LoadState js dataDir fs = (state_in js dataDir (fs_files fs), fs)"
  by (auto simp: state_in_def LoadState_def os_defs split: option.split sum.split)

section \<open>Properties\<close>

text \<open>C15: Saving the state is all or nothing: whatever calls fail and wherever the process crashes, the
  state file gives on the next start what it gave before or the whole new state, never a
  part of it; a call that reports success has saved the state, one that reports an error
  has left the file alone, and no other file but the temporary one is touched.\<close>

theorem save_state_atomic:
  assumes "json_ok js state"
  shows "(\<forall>m. crash_files js dataDir state fs m \<longrightarrow>
            state_in js dataDir m = state_in js dataDir (fs_files fs) \<or> state_in js dataDir m = Inr (Some state)) \<and>
         (case SaveState js dataDir state fs of
            (None, fs') \<Rightarrow> state_in js dataDir (fs_files fs') = Inr (Some state)
          | (Some err, fs') \<Rightarrow> state_in js dataDir (fs_files fs') = state_in js dataDir (fs_files fs)) \<and>
         untouched dataDir fs (snd (SaveState js dataDir state fs)) \<and>
         (fs_faults fs = [] \<longrightarrow> fst (SaveState js dataDir state fs) = None)"
proof (intro conjI allI impI)
  obtain data where data: "js_Marshal js state = Inr data" "js_Unmarshal js data = Inr state"
    using assms by (auto simp: json_ok_def)
  have new: "state_in js dataDir m = Inr (Some state)" if "m (GetStateFilePath dataDir) = Some data" for m
    using state_in_cong [of m dataDir "Map.empty(GetStateFilePath dataDir \<mapsto> data)" js]
      state_in_saved [OF data(2)] that by simp
  have inv: "state_in js dataDir (fs_files fs') =
      (case pc of SvDone None \<Rightarrow> Inr (Some state) | _ \<Rightarrow> state_in js dataDir (fs_files fs))"
    if "save_inv js dataDir state fs (pc, fs')" for pc fs'
    using that new data(1) state_in_cong [of "fs_files fs'" dataDir "fs_files fs" js]
    by (cases pc) (auto simp: same_state_def split: option.split)
  show "state_in js dataDir m = state_in js dataDir (fs_files fs) \<or> state_in js dataDir m = Inr (Some state)"
    if "crash_files js dataDir state fs m" for m
    using that
  proof (cases rule: crash_files.cases)
    case (crash_between k pc fs')
    then show ?thesis using inv [of pc fs'] save_run_inv [OF crash_between(2)]
      by (auto split: save_pc.splits option.splits)
  next
    case (crash_in_write k d fs' n)
    then show ?thesis using inv [of "SvWrite d" fs'] save_run_inv [OF crash_in_write(2)] by simp
  qed
  obtain r fs' where run: "(save_step js dataDir state ^^ 5) (SvMkdir, fs) = (SvDone r, fs')"
    "SaveState js dataDir state fs = (r, fs')"
    using SaveState_run by blast
  then show "case SaveState js dataDir state fs of
      (None, fs') \<Rightarrow> state_in js dataDir (fs_files fs') = Inr (Some state)
    | (Some err, fs') \<Rightarrow> state_in js dataDir (fs_files fs') = state_in js dataDir (fs_files fs)"
    using inv [of "SvDone r" fs'] save_run_inv [OF run(1)] by (simp split: option.split)
  show "untouched dataDir fs (snd (SaveState js dataDir state fs))"
    using run save_run_inv [OF run(1)] by simp
  show "fst (SaveState js dataDir state fs) = None" if "fs_faults fs = []"
    using SaveState_fine [OF that assms, of dataDir] by auto
qed

text \<open>That the encoding can be such: a state by its register id alone.\<close>

definition demo_json :: json where
  "demo_json = \<lparr>js_Marshal = \<lambda>st. Inr (bytes_of_string (RegisterID st)),
     js_Unmarshal = \<lambda>d. Inr \<lparr>RegisterID = string_of_bytes d, NodeID = 3, Hostname = ''h''\<rparr>\<rparr>"

definition demo_state :: State where
  "demo_state = \<lparr>RegisterID = ''ab'', NodeID = 3, Hostname = ''h''\<rparr>"

lemma demo_json_ok: "json_ok demo_json demo_state"
  by (simp add: json_ok_def demo_json_def demo_state_def)

theorem save_state_atomic_witness:
  "state_in demo_json ''d'' (fs_files (snd (SaveState demo_json ''d'' demo_state
     \<lparr>fs_files = Map.empty, fs_faults = [Fine, Fault (ErrExt 1) (Some 1)]\<rparr>))) =
   state_in demo_json ''d'' Map.empty"
proof -
  let ?fs = "\<lparr>fs_files = Map.empty, fs_faults = [Fine, Fault (ErrExt 1) (Some 1)]\<rparr>"
  have "\<exists>fs' err. SaveState demo_json ''d'' demo_state ?fs = (Some err, fs')"
    by (simp add: SaveState_def demo_json_def os_defs numeral_eq_Suc)
  then show ?thesis using save_state_atomic [OF demo_json_ok, of "''d''" ?fs] by auto
qed

end
