(* ===== verification/Server.thy ===== *)
theory Server
  imports ServerState Outbound Users Padding
begin

text \<open>
  The life of the server process: \<open>New\<close>, \<open>Start\<close>, \<open>listenDualStack\<close>, \<open>validateConfig\<close> and \<open>Close\<close> of
  \<open>internal/app/server/server.go\<close>. What the server is given from outside (the panel, the
  operating system, the configuration file, the engine) is the record \<open>world\<close>; the calls made
  to the panel are recorded in their order. \<open>Start\<close> is in two parts, as \<open>Close\<close> may be called
  by the signal handler while it runs: up to the point where the register id is stored, and
  from there to the accept loops, which are those of theory \<open>Node\<close>.
\<close>

section \<open>The outside\<close>

datatype NodeConfig =
    AnyTLSConfig (ServerPort: int) (AllowInsecure: int) (PaddingRules: string)
  | OtherConfig

datatype api_call =
    CallConfig
  | CallVerify string
  | CallRegister string int
  | CallUsers string
  | CallHeartbeat string
  | CallUnregister string

record ('o, 'r, 'c, 'u) world =
  w_Hostname :: "go_error + string"
  w_Config :: "go_error + NodeConfig"
  w_Verify :: "string \<Rightarrow> go_error + bool"
  w_Register :: "string \<Rightarrow> int \<Rightarrow> go_error + string"
  w_Unregister :: "string \<Rightarrow> go_error option"
  w_Users :: "go_error + User list"
  w_LoadX509KeyPair :: "string \<Rightarrow> string \<Rightarrow> go_error option"
  w_Executable :: "go_error + string"
  w_ReadInConfig :: "string \<Rightarrow> go_error option"
  w_UnmarshalExt :: "go_error + ExtConfig"
  w_Listen :: "string \<Rightarrow> string \<Rightarrow> go_error + nat"
  w_CloseListener :: "nat \<Rightarrow> go_error option"
  w_json :: json
  w_engine :: "('o, 'r, 'c, 'u) engine"
  w_md5 :: "byte list \<Rightarrow> string"
  w_sha256 :: "byte list \<Rightarrow> byte list"
  w_order :: "StringMap \<Rightarrow> StringMap"

section \<open>State\<close>

record CertConfig =
  CertFile :: string
  KeyFile :: string

text \<open>The periodic tasks \<open>userService.Start\<close> starts; their loop is that of theory \<open>Routine\<close>.\<close>

datatype task = TaskFetchUsers | TaskReportTraffics | TaskHeartbeat

text \<open>\<open>sv_tls\<close> is the TLS configuration, as its \<open>InsecureSkipVerify\<close>; \<open>sv_padding\<close> is the global
  \<open>DefaultPaddingFactory\<close>, \<open>sv_files\<close> the file system.\<close>

record 'r Server =
  sv_nodeID :: int
  sv_certConfig :: CertConfig
  sv_aclConfPath :: string
  sv_dataDir :: string
  sv_apiClient :: bool
  sv_anyTLS :: "NodeConfig option"
  sv_registerID :: string
  sv_serviceRegisterID :: string
  sv_tls :: "bool option"
  sv_extConfig :: "ExtConfig option"
  sv_userService :: "UsersService option"
  sv_tasks :: "task list"
  sv_usersClosed :: bool
  sv_outbound :: "'r option"
  sv_listeners :: "nat list"
  sv_cancelled :: bool
  sv_closeOnce :: bool
  sv_closeErr :: "go_error option"
  sv_files :: files
  sv_padding :: "PaddingFactory option"
  sv_calls :: "api_call list"
  sv_closedListeners :: "nat list"

definition Server_New :: "CertConfig \<Rightarrow> int \<Rightarrow> string \<Rightarrow> string \<Rightarrow> PaddingFactory option \<Rightarrow> files \<Rightarrow> 'r Server" where
  "Server_New certConfig nodeID aclConfPath dataDir padding fs =
     \<lparr>sv_nodeID = nodeID, sv_certConfig = certConfig, sv_aclConfPath = aclConfPath,
      sv_dataDir = (if dataDir = '''' then DefaultDataDir else dataDir),
      sv_apiClient = False, sv_anyTLS = None, sv_registerID = '''', sv_serviceRegisterID = '''', sv_tls = None,
      sv_extConfig = None, sv_userService = None, sv_tasks = [], sv_usersClosed = False, sv_outbound = None,
      sv_listeners = [], sv_cancelled = False, sv_closeOnce = False, sv_closeErr = None, sv_files = fs,
      sv_padding = padding, sv_calls = [], sv_closedListeners = []\<rparr>"

definition call :: "api_call \<Rightarrow> 'r Server \<Rightarrow> 'r Server" where
  "call a s = s\<lparr>sv_calls := sv_calls s @ [a]\<rparr>"

text \<open>A request under \<open>s.ctx\<close> fails once that context is cancelled.\<close>

definition under_ctx :: "'r Server \<Rightarrow> go_error + 'a \<Rightarrow> go_error + 'a" where
  "under_ctx s r = (if sv_cancelled s then Inl (ErrMsg ''context canceled'') else r)"

section \<open>Start: registration\<close>

definition clear_state :: "'r Server \<Rightarrow> 'r Server" where
  "clear_state s = s\<lparr>sv_files := snd (ClearState (sv_dataDir s) (sv_files s))\<rparr>"

text \<open>The second step of \<open>Start\<close>: the register id that can be used again, or the empty one.\<close>

definition reuse_saved ::
  "('o, 'r, 'c, 'u) world \<Rightarrow> State option \<Rightarrow> 'r Server \<Rightarrow> string \<times> 'r Server" where
  "reuse_saved w savedState s =
     (case savedState of
        None \<Rightarrow> ('''', s)
      | Some st \<Rightarrow>
          if RegisterID st \<noteq> '''' \<and> NodeID st = sv_nodeID s then
            (case under_ctx s (w_Verify w (RegisterID st)) of
               Inl err \<Rightarrow> ('''', clear_state (call (CallVerify (RegisterID st)) s))
             | Inr isValid \<Rightarrow>
                 if isValid then (RegisterID st, call (CallVerify (RegisterID st)) s)
                 else ('''', clear_state (call (CallVerify (RegisterID st)) s)))
          else ('''', s))"

text \<open>The third step: a new registration, saved if that works.\<close>

definition register_new ::
  "('o, 'r, 'c, 'u) world \<Rightarrow> string \<Rightarrow> int \<Rightarrow> 'r Server \<Rightarrow> (go_error + string) \<times> 'r Server" where
  "register_new w hostname port s =
     (let s1 = call (CallRegister hostname port) s
      in case under_ctx s (w_Register w hostname port) of
           Inl err \<Rightarrow> (Inl (ErrWrap ''failed to register node'' err), s1)
         | Inr registerID \<Rightarrow>
             (let newState = \<lparr>RegisterID = registerID, NodeID = sv_nodeID s, Hostname = hostname\<rparr>
              in (Inr registerID,
                  s1\<lparr>sv_files := snd (SaveState (w_json w) (sv_dataDir s) newState (sv_files s1))\<rparr>)))"

definition start_register :: "('o, 'r, 'c, 'u) world \<Rightarrow> 'r Server \<Rightarrow> go_error option \<times> 'r Server" where
  "start_register w s0 =
     (case w_Hostname w of
        Inl err \<Rightarrow> (Some (ErrWrap ''failed to get hostname'' err), s0\<lparr>sv_apiClient := True\<rparr>)
      | Inr hostname \<Rightarrow>
          (let (loaded, fs) = LoadState (w_json w) (sv_dataDir s0) (sv_files s0);
               savedState = (case loaded of Inl _ \<Rightarrow> None | Inr x \<Rightarrow> x);
               s1 = call CallConfig (s0\<lparr>sv_apiClient := True, sv_files := fs\<rparr>)
           in case under_ctx s0 (w_Config w) of
                Inl err \<Rightarrow> (Some (ErrWrap ''failed to get node config'' err), s1)
              | Inr OtherConfig \<Rightarrow> (Some (ErrMsg ''unexpected node config type''), s1)
              | Inr (AnyTLSConfig port insecure rules) \<Rightarrow>
                  (let (registerID, s2) = reuse_saved w savedState (s1\<lparr>sv_anyTLS := Some (AnyTLSConfig port insecure rules)\<rparr>);
                       (registered, s3) = (if registerID = '''' then register_new w hostname port s2 else (Inr registerID, s2))
                   in case registered of
                        Inl err \<Rightarrow> (Some err, s3)
                      | Inr rid \<Rightarrow> (None, s3\<lparr>sv_registerID := rid, sv_serviceRegisterID := rid\<rparr>))))"

section \<open>Start: the rest\<close>

text \<open>The configuration made of a key pair, as its \<open>InsecureSkipVerify\<close>.\<close>

definition CertConfig_Load :: "('o, 'r, 'c, 'u) world \<Rightarrow> CertConfig \<Rightarrow> go_error + bool" where
  "CertConfig_Load w c = (case w_LoadX509KeyPair w (CertFile c) (KeyFile c) of Some err \<Rightarrow> Inl err | None \<Rightarrow> Inr False)"

definition load_acl :: "('o, 'r, 'c, 'u) world \<Rightarrow> string \<Rightarrow> go_error + ExtConfig" where
  "load_acl w path =
     (let confPath = (if \<not> IsAbs path then
                        (case w_Executable w of Inl err \<Rightarrow> path | Inr execPath \<Rightarrow> Join2 (Dir execPath) path)
                      else path);
          ext = Ext confPath
      in if ext \<noteq> ''.yaml'' \<and> ext \<noteq> ''.yml'' then
           Inl (ErrMsg (''ACL config file must be in YAML format (.yaml or .yml), got: '' @ ext))
         else
           (case w_ReadInConfig w confPath of
              Some err \<Rightarrow> Inl (ErrWrap ''failed to read ACL config'' err)
            | None \<Rightarrow>
                (case w_UnmarshalExt w of
                   Inl err \<Rightarrow> Inl (ErrWrap ''failed to unmarshal ACL config'' err)
                 | Inr c \<Rightarrow> Inr c)))"

definition validateConfig :: "NodeConfig option \<Rightarrow> bool \<Rightarrow> bool \<Rightarrow> go_error option" where
  "validateConfig nodeConfig userService tlsConfig =
     (case nodeConfig of
        None \<Rightarrow> Some (ErrMsg ''nodeConfig is nil'')
      | Some conf \<Rightarrow>
          if \<not> userService then Some (ErrMsg ''userService is nil'')
          else if \<not> tlsConfig then Some (ErrMsg ''tlsConfig is nil'')
          else
            (case conf of
               OtherConfig \<Rightarrow> Some (ErrMsg ''unexpected node config type'')
             | AnyTLSConfig port _ _ \<Rightarrow>
                 if port \<le> 0 \<or> port > 65535 then Some (ErrMsg ''invalid server port'') else None))"

text \<open>\<open>fmt.Sprintf("%d", port)\<close>.\<close>

definition FormatInt :: "int \<Rightarrow> string" where
  "FormatInt i = (if i < 0 then CHR ''-'' # FormatUint (nat (- i)) else FormatUint (nat i))"

definition listenDualStack :: "('o, 'r, 'c, 'u) world \<Rightarrow> int \<Rightarrow> go_error + nat list" where
  "listenDualStack w port =
     (let networks = [(''tcp4'', ''0.0.0.0:'' @ FormatInt port), (''tcp6'', ''[::]:'' @ FormatInt port)];
          listeners = foldl (\<lambda>ls (net, addr). case w_Listen w net addr of Inl err \<Rightarrow> ls | Inr ln \<Rightarrow> ls @ [ln]) [] networks
      in if length listeners = 0 then
           Inl (ErrMsg (''failed to listen on any address for port '' @ FormatInt port))
         else Inr listeners)"

definition new_users :: UsersService where
  "new_users = \<lparr>us_users = [], us_conns = [], us_userList = None, us_closed = []\<rparr>"

text \<open>
  The last steps: the padding rules of the panel, then \<open>userService.Start\<close>, whose first fetch
  has to work and whose first heartbeat need not. Its routines are those of theory \<open>Routine\<close>.
\<close>

definition HeartbeatTask :: "string \<Rightarrow> api_call list" where
  "HeartbeatTask registerID = [CallHeartbeat registerID]"

definition UsersService_Start ::
  "(byte list \<Rightarrow> byte list) \<Rightarrow> string \<Rightarrow> go_error + User list \<Rightarrow> UsersService \<Rightarrow>
   go_error option \<times> UsersService \<times> task list \<times> api_call list" where
  "UsersService_Start sha256 registerID reply us =
     (let calls = (if registerID = '''' then [] else [CallUsers registerID])
      in case UsersService_init sha256 registerID reply us of
           (Some err, us1) \<Rightarrow> (Some err, us1, [], calls)
         | (None, us1) \<Rightarrow>
             (None, us1, [TaskFetchUsers, TaskReportTraffics, TaskHeartbeat], calls @ HeartbeatTask registerID))"

definition start_users :: "('o, 'r, 'c, 'u) world \<Rightarrow> UsersService \<Rightarrow> 'r Server \<Rightarrow> go_error option \<times> 'r Server" where
  "start_users w us s =
     (case UsersService_Start (w_sha256 w) (sv_serviceRegisterID s) (w_Users w) us of
        (err, us1, tasks, calls) \<Rightarrow>
          (map_option (ErrWrap ''failed to start user service'') err,
           s\<lparr>sv_userService := Some us1, sv_tasks := sv_tasks s @ tasks, sv_calls := sv_calls s @ calls\<rparr>))"

definition start_padding :: "('o, 'r, 'c, 'u) world \<Rightarrow> string \<Rightarrow> 'r Server \<Rightarrow> 'r Server" where
  "start_padding w rules s =
     (if length rules > 0 then
        s\<lparr>sv_padding := snd (UpdatePaddingScheme (w_md5 w) (w_order w) (bytes_of_string rules) (sv_padding s))\<rparr>
      else s)"

definition start_serving ::
  "('o, 'r, 'c, 'u) world \<Rightarrow> NodeConfig option \<Rightarrow> 'r Server \<Rightarrow> go_error option \<times> 'r Server" where
  "start_serving w conf s =
     (case validateConfig conf True (sv_tls s \<noteq> None) of
        Some err \<Rightarrow> (Some (ErrWrap ''invalid configuration'' err), s)
      | None \<Rightarrow>
          (let s1 = (if AllowInsecure (the conf) = 1 then s\<lparr>sv_tls := Some True\<rparr> else s)
           in case buildOutbound (w_engine w) (sv_extConfig s1) of
                Inl err \<Rightarrow> (Some (ErrWrap ''failed to build outbound'' err), s1)
              | Inr r \<Rightarrow>
                  (case listenDualStack w (ServerPort (the conf)) of
                     Inl err \<Rightarrow> (Some (ErrWrap ''failed to listen'' err), s1\<lparr>sv_outbound := Some r\<rparr>)
                   | Inr listeners \<Rightarrow>
                       start_users w new_users
                         (start_padding w (PaddingRules (the conf))
                           (s1\<lparr>sv_outbound := Some r, sv_listeners := listeners\<rparr>)))))"

definition start_rest :: "('o, 'r, 'c, 'u) world \<Rightarrow> 'r Server \<Rightarrow> go_error option \<times> 'r Server" where
  "start_rest w s =
     (case CertConfig_Load w (sv_certConfig s) of
        Inl err \<Rightarrow> (Some (ErrWrap ''failed to load TLS config'' err), s)
      | Inr tls \<Rightarrow>
          (let s1 = s\<lparr>sv_tls := Some tls\<rparr>
           in if sv_aclConfPath s1 \<noteq> '''' then
                (case load_acl w (sv_aclConfPath s1) of
                   Inl err \<Rightarrow> (Some err, s1)
                 | Inr c \<Rightarrow>
                     start_serving w (sv_anyTLS s1) (s1\<lparr>sv_extConfig := Some c, sv_userService := Some new_users\<rparr>))
              else start_serving w (sv_anyTLS s1) (s1\<lparr>sv_userService := Some new_users\<rparr>)))"

definition Server_Start :: "('o, 'r, 'c, 'u) world \<Rightarrow> 'r Server \<Rightarrow> go_error option \<times> 'r Server" where
  "Server_Start w s =
     (case start_register w s of (Some err, s1) \<Rightarrow> (Some err, s1) | (None, s1) \<Rightarrow> start_rest w s1)"

section \<open>Close\<close>

fun errors_Is :: "go_error \<Rightarrow> go_error \<Rightarrow> bool" where
  "errors_Is (ErrConfig field err) target = (ErrConfig field err = target \<or> errors_Is err target)"
| "errors_Is (ErrWrap prefix err) target = (ErrWrap prefix err = target \<or> errors_Is err target)"
| "errors_Is err target = (err = target)"

definition close_unregister :: "('o, 'r, 'c, 'u) world \<Rightarrow> 'r Server \<Rightarrow> 'r Server" where
  "close_unregister w s =
     (if sv_registerID s \<noteq> '''' \<and> sv_apiClient s then
        (let s1 = call (CallUnregister (sv_registerID s)) s
         in case w_Unregister w (sv_registerID s) of Some err \<Rightarrow> s1 | None \<Rightarrow> clear_state s1)
      else s)"

definition close_listener :: "('o, 'r, 'c, 'u) world \<Rightarrow> 'r Server \<Rightarrow> nat \<Rightarrow> 'r Server" where
  "close_listener w s ln =
     (let s1 = s\<lparr>sv_closedListeners := sv_closedListeners s @ [ln]\<rparr>
      in case w_CloseListener w ln of
           Some err \<Rightarrow>
             if \<not> errors_Is err ErrNetClosed then s1\<lparr>sv_closeErr := Some (ErrWrap ''failed to close listener'' err)\<rparr>
             else s1
         | None \<Rightarrow> s1)"

text \<open>\<open>UsersService.Close\<close> cancels the context of the service.\<close>

definition UsersService_Close :: "'r Server \<Rightarrow> go_error option \<times> 'r Server" where
  "UsersService_Close s = (None, s\<lparr>sv_usersClosed := True\<rparr>)"

definition close_users :: "'r Server \<Rightarrow> 'r Server" where
  "close_users s =
     (if sv_userService s \<noteq> None then
        (case UsersService_Close s of
           (Some err, s1) \<Rightarrow>
             if sv_closeErr s1 = None then s1\<lparr>sv_closeErr := Some (ErrWrap ''failed to close user service'' err)\<rparr> else s1
         | (None, s1) \<Rightarrow> s1)
      else s)"

text \<open>\<open>Close\<close>, whose body runs once.\<close>

definition Server_Close :: "('o, 'r, 'c, 'u) world \<Rightarrow> 'r Server \<Rightarrow> go_error option \<times> 'r Server" where
  "Server_Close w s =
     (if sv_closeOnce s then (sv_closeErr s, s)
      else
        (let s1 = (close_unregister w (s\<lparr>sv_closeOnce := True\<rparr>))\<lparr>sv_cancelled := True\<rparr>;
             s2 = foldl (close_listener w) s1 (sv_listeners s1);
             s3 = close_users s2
         in (sv_closeErr s3, s3)))"

section \<open>The accept loop\<close>

text \<open>What \<open>Accept\<close> of a listener returns, in order; the loop ends when the listener is closed.\<close>

datatype accept = Accepted nat | AcceptErr go_error

text \<open>The connections handed to \<open>handleTcpConnection\<close>, and whether the goroutine has ended.\<close>

fun accept_loop :: "accept list \<Rightarrow> nat list \<times> bool" where
  "accept_loop [] = ([], False)"
| "accept_loop (Accepted conn # rest) = (case accept_loop rest of (conns, done_) \<Rightarrow> (conn # conns, done_))"
| "accept_loop (AcceptErr err # rest) = (if errors_Is err ErrNetClosed then ([], True) else accept_loop rest)"

text \<open>No error of \<open>Accept\<close> but the closing of the listener ends the loop or loses a connection.\<close>

lemma accept_loop_spec:
  "accept_loop es =
     (List.map_filter (\<lambda>e. case e of Accepted c \<Rightarrow> Some c | _ \<Rightarrow> None)
        (takeWhile (\<lambda>e. case e of AcceptErr err \<Rightarrow> \<not> errors_Is err ErrNetClosed | _ \<Rightarrow> True) es),
      \<exists>err. AcceptErr err \<in> set es \<and> errors_Is err ErrNetClosed)"
  by (induction es rule: accept_loop.induct) (auto simp: List.map_filter_simps)

section \<open>What each part leaves alone\<close>

lemmas start_defs = start_rest_def start_serving_def start_users_def UsersService_Start_def HeartbeatTask_def
  start_padding_def load_acl_def

text \<open>After the registration \<open>Start\<close> only fetches the users and sends a heartbeat.\<close>

definition later_calls :: "string \<Rightarrow> api_call list set" where
  "later_calls rid = {[], [CallUsers rid], [CallUsers rid, CallHeartbeat rid]}"

definition same_life :: "'r Server \<Rightarrow> 'r Server \<Rightarrow> bool" where
  "same_life s s' \<longleftrightarrow>
     sv_registerID s' = sv_registerID s \<and> sv_apiClient s' = sv_apiClient s \<and> sv_dataDir s' = sv_dataDir s \<and>
     sv_files s' = sv_files s \<and> sv_closeOnce s' = sv_closeOnce s \<and> sv_closeErr s' = sv_closeErr s \<and>
     sv_cancelled s' = sv_cancelled s \<and> sv_closedListeners s' = sv_closedListeners s"

lemma same_life_trans: "same_life s s1 \<Longrightarrow> same_life s1 s2 \<Longrightarrow> same_life s s2"
  by (simp add: same_life_def)

lemma start_users_keeps:
  assumes "start_users w us s = (r, s')"
  shows "same_life s s' \<and> sv_listeners s' = sv_listeners s \<and>
     (\<exists>c \<in> later_calls (sv_serviceRegisterID s). sv_calls s' = sv_calls s @ c)"
proof -
  obtain e us1 where "UsersService_init (w_sha256 w) (sv_serviceRegisterID s) (w_Users w) us = (e, us1)" by fastforce
  then show ?thesis
    using assms by (cases e) (auto simp: start_users_def UsersService_Start_def HeartbeatTask_def same_life_def call_def later_calls_def Let_def
      UsersService_init_def split: if_splits sum.splits)
qed

lemma start_padding_keeps: "same_life s (start_padding w rules s)" "sv_calls (start_padding w rules s) = sv_calls s"
  "sv_serviceRegisterID (start_padding w rules s) = sv_serviceRegisterID s"
  "sv_listeners (start_padding w rules s) = sv_listeners s"
  by (simp_all add: start_padding_def same_life_def)

lemma start_serving_keeps:
  assumes "start_serving w conf s = (r, s')"
  shows "same_life s s' \<and> (\<exists>c \<in> later_calls (sv_serviceRegisterID s). sv_calls s' = sv_calls s @ c)"
proof -
  let ?s1 = "if AllowInsecure (the conf) = 1 then s\<lparr>sv_tls := Some True\<rparr> else s"
  have early: ?thesis if "same_life s s'" "sv_calls s' = sv_calls s"
    using that by (auto simp: later_calls_def)
  show ?thesis
  proof (cases "(\<exists>e. validateConfig conf True (sv_tls s \<noteq> None) = Some e) \<or>
      (\<exists>e. buildOutbound (w_engine w) (sv_extConfig ?s1) = Inl e) \<or>
      (\<exists>e. listenDualStack w (ServerPort (the conf)) = Inl e)")
    case True
    then show ?thesis using assms
      by (intro early) (auto simp: start_serving_def same_life_def Let_def split: option.splits sum.splits if_splits)
  next
    case False
    then obtain rt ls where "validateConfig conf True (sv_tls s \<noteq> None) = None"
      "buildOutbound (w_engine w) (sv_extConfig ?s1) = Inr rt" "listenDualStack w (ServerPort (the conf)) = Inr ls"
      by (metis (no_types, lifting) not_None_eq old.sum.exhaust)
    then have "start_users w new_users (start_padding w (PaddingRules (the conf))
        (?s1\<lparr>sv_outbound := Some rt, sv_listeners := ls\<rparr>)) = (r, s')"
      using assms by (simp add: start_serving_def Let_def)
    from start_users_keeps [OF this] show ?thesis
      using start_padding_keeps [where s = "?s1\<lparr>sv_outbound := Some rt, sv_listeners := ls\<rparr>" and w = w
        and rules = "PaddingRules (the conf)"]
      by (auto simp: same_life_def split: if_splits)
  qed
qed

lemma CertConfig_Load_Inr: "CertConfig_Load w c = Inr b \<Longrightarrow> b = False"
  by (simp add: CertConfig_Load_def split: option.splits)

lemma start_rest_keeps:
  assumes "start_rest w s = (r, s')"
  shows "same_life s s' \<and> (\<exists>c \<in> later_calls (sv_serviceRegisterID s). sv_calls s' = sv_calls s @ c)"
proof -
  have serve: ?thesis if "start_serving w (sv_anyTLS s) s1 = (r, s')" "same_life s s1" "sv_calls s1 = sv_calls s"
    "sv_serviceRegisterID s1 = sv_serviceRegisterID s" for s1
    using start_serving_keeps [OF that(1)] same_life_trans [OF that(2)] that(3,4) by metis
  have early: ?thesis if "same_life s s'" "sv_calls s' = sv_calls s"
    using that by (auto simp: later_calls_def)
  show ?thesis
  proof (cases "(\<exists>e. CertConfig_Load w (sv_certConfig s) = Inl e) \<or> (sv_aclConfPath s \<noteq> '''' \<and> (\<exists>e. load_acl w (sv_aclConfPath s) = Inl e))")
    case True
    then show ?thesis using assms
      by (intro early) (auto simp: start_rest_def same_life_def Let_def split: if_splits sum.splits)
  next
    case False
    then have tls: "CertConfig_Load w (sv_certConfig s) = Inr False"
      by (cases "CertConfig_Load w (sv_certConfig s)") (auto dest: CertConfig_Load_Inr)
    show ?thesis
    proof (cases "sv_aclConfPath s = ''''")
      case True
      show ?thesis
        by (rule serve [of "s\<lparr>sv_tls := Some False, sv_userService := Some new_users\<rparr>"])
          (use assms tls True in \<open>simp_all add: start_rest_def same_life_def\<close>)
    next
      case acl: False
      then obtain c where "load_acl w (sv_aclConfPath s) = Inr c"
        using False by (cases "load_acl w (sv_aclConfPath s)") auto
      then show ?thesis
        by (intro serve [of "s\<lparr>sv_tls := Some False, sv_extConfig := Some c, sv_userService := Some new_users\<rparr>"])
          (use assms tls acl in \<open>simp_all add: start_rest_def same_life_def\<close>)
    qed
  qed
qed

section \<open>What Close does\<close>

lemma close_users_eq: "close_users s = (if sv_userService s \<noteq> None then s\<lparr>sv_usersClosed := True\<rparr> else s)"
  by (simp add: close_users_def UsersService_Close_def)

definition close_fine :: "('o, 'r, 'c, 'u) world \<Rightarrow> nat \<Rightarrow> bool" where
  "close_fine w ln \<longleftrightarrow> (case w_CloseListener w ln of None \<Rightarrow> True | Some err \<Rightarrow> errors_Is err ErrNetClosed)"

lemma close_listeners:
  "\<exists>e. foldl (close_listener w) s lns =
     s\<lparr>sv_closedListeners := sv_closedListeners s @ lns, sv_closeErr := e\<rparr>"
proof (induction lns arbitrary: s)
  case Nil
  show ?case by (rule exI [of _ "sv_closeErr s"]) simp
next
  case (Cons ln lns)
  have "close_listener w s ln =
      s\<lparr>sv_closedListeners := sv_closedListeners s @ [ln], sv_closeErr := sv_closeErr (close_listener w s ln)\<rparr>"
    by (cases "w_CloseListener w ln") (simp_all add: close_listener_def Let_def)
  then obtain e where e:
    "close_listener w s ln = s\<lparr>sv_closedListeners := sv_closedListeners s @ [ln], sv_closeErr := e\<rparr>" by blast
  show ?case using Cons.IH [of "s\<lparr>sv_closedListeners := sv_closedListeners s @ [ln], sv_closeErr := e\<rparr>"]
    by (simp add: e)
qed

lemma close_listeners_err:
  "(sv_closeErr (foldl (close_listener w) s lns) = None) = (sv_closeErr s = None \<and> (\<forall>ln \<in> set lns. close_fine w ln))"
  by (induction lns rule: rev_induct) (auto simp: close_listener_def Let_def close_fine_def split: option.split)

text \<open>The calls of \<open>Close\<close> and the files it leaves.\<close>

definition unregister_calls :: "'r Server \<Rightarrow> api_call list" where
  "unregister_calls s = (if sv_registerID s \<noteq> '''' \<and> sv_apiClient s then [CallUnregister (sv_registerID s)] else [])"

definition files_after_close :: "('o, 'r, 'c, 'u) world \<Rightarrow> 'r Server \<Rightarrow> files" where
  "files_after_close w s =
     (if unregister_calls s \<noteq> [] \<and> w_Unregister w (sv_registerID s) = None then snd (ClearState (sv_dataDir s) (sv_files s))
      else sv_files s)"

definition after_close :: "('o, 'r, 'c, 'u) world \<Rightarrow> go_error option \<Rightarrow> 'r Server \<Rightarrow> 'r Server" where
  "after_close w e s =
     s\<lparr>sv_closeOnce := True, sv_cancelled := True, sv_calls := sv_calls s @ unregister_calls s,
       sv_files := files_after_close w s, sv_closedListeners := sv_closedListeners s @ sv_listeners s,
       sv_closeErr := e, sv_usersClosed := (sv_usersClosed s \<or> sv_userService s \<noteq> None)\<rparr>"

lemma Server_Close_first:
  assumes "\<not> sv_closeOnce s"
  shows "\<exists>e. Server_Close w s = (e, after_close w e s) \<and>
     (e = None \<longleftrightarrow> sv_closeErr s = None \<and> (\<forall>ln \<in> set (sv_listeners s). close_fine w ln))"
proof -
  let ?s1 = "s\<lparr>sv_closeOnce := True, sv_cancelled := True, sv_calls := sv_calls s @ unregister_calls s,
    sv_files := files_after_close w s\<rparr>"
  have unreg: "(close_unregister w (s\<lparr>sv_closeOnce := True\<rparr>))\<lparr>sv_cancelled := True\<rparr> = ?s1"
    by (cases "w_Unregister w (sv_registerID s)")
      (simp_all add: close_unregister_def unregister_calls_def files_after_close_def call_def clear_state_def)
  obtain e where fold: "foldl (close_listener w) ?s1 (sv_listeners s) =
      ?s1\<lparr>sv_closedListeners := sv_closedListeners s @ sv_listeners s, sv_closeErr := e\<rparr>"
    using close_listeners [of w ?s1 "sv_listeners s"] by auto
  have "e = None \<longleftrightarrow> sv_closeErr s = None \<and> (\<forall>ln \<in> set (sv_listeners s). close_fine w ln)"
    using close_listeners_err [of w ?s1 "sv_listeners s"] unfolding fold by simp
  moreover have "Server_Close w s = (e, after_close w e s)"
    using assms by (simp add: Server_Close_def unreg Let_def fold after_close_def close_users_eq)
  ultimately show ?thesis by blast
qed

lemma Server_Close_again: "sv_closeOnce s \<Longrightarrow> Server_Close w s = (sv_closeErr s, s)"
  by (simp add: Server_Close_def)

section \<open>What the registration does\<close>

definition saved_state :: "('o, 'r, 'c, 'u) world \<Rightarrow> 'r Server \<Rightarrow> State option" where
  "saved_state w s = (case fst (LoadState (w_json w) (sv_dataDir s) (sv_files s)) of Inl _ \<Rightarrow> None | Inr x \<Rightarrow> x)"

text \<open>The saved registration is used again: it is for this node and the panel calls it valid.\<close>

definition usable :: "('o, 'r, 'c, 'u) world \<Rightarrow> 'r Server \<Rightarrow> State option \<Rightarrow> bool" where
  "usable w s saved \<longleftrightarrow> (\<exists>st. saved = Some st \<and> RegisterID st \<noteq> '''' \<and> NodeID st = sv_nodeID s \<and>
     \<not> sv_cancelled s \<and> w_Verify w (RegisterID st) = Inr True)"

definition reuse_calls :: "'r Server \<Rightarrow> State option \<Rightarrow> api_call list" where
  "reuse_calls s saved = (case saved of None \<Rightarrow> []
     | Some st \<Rightarrow> if RegisterID st \<noteq> '''' \<and> NodeID st = sv_nodeID s then [CallVerify (RegisterID st)] else [])"

definition same_but_files :: "'r Server \<Rightarrow> 'r Server \<Rightarrow> bool" where
  "same_but_files s s' \<longleftrightarrow>
     sv_registerID s' = sv_registerID s \<and> sv_apiClient s' = sv_apiClient s \<and> sv_dataDir s' = sv_dataDir s \<and>
     sv_nodeID s' = sv_nodeID s \<and> sv_closeOnce s' = sv_closeOnce s \<and> sv_closeErr s' = sv_closeErr s \<and>
     sv_cancelled s' = sv_cancelled s \<and> sv_closedListeners s' = sv_closedListeners s \<and>
     sv_userService s' = sv_userService s \<and> sv_listeners s' = sv_listeners s \<and> sv_anyTLS s' = sv_anyTLS s \<and>
     sv_padding s' = sv_padding s"

lemma reuse_saved_spec:
  assumes "reuse_saved w saved s = (rid, s')"
  shows "same_but_files s s' \<and> sv_calls s' = sv_calls s @ reuse_calls s saved \<and>
     (if usable w s saved then rid = RegisterID (the saved) \<and> rid \<noteq> '''' \<and> sv_files s' = sv_files s
      else rid = '''' \<and> (sv_files s' = (if reuse_calls s saved = [] then sv_files s
                                          else snd (ClearState (sv_dataDir s) (sv_files s)))))"
  using assms
  by (cases saved) (auto simp: reuse_saved_def usable_def reuse_calls_def under_ctx_def call_def clear_state_def
      same_but_files_def split: if_splits sum.splits)

definition new_state :: "'r Server \<Rightarrow> string \<Rightarrow> string \<Rightarrow> State" where
  "new_state s hostname rid = \<lparr>RegisterID = rid, NodeID = sv_nodeID s, Hostname = hostname\<rparr>"

lemma register_new_spec:
  assumes "register_new w hostname port s = (r, s')" and "\<not> sv_cancelled s"
  shows "same_but_files s s' \<and> sv_calls s' = sv_calls s @ [CallRegister hostname port] \<and>
     (case w_Register w hostname port of
        Inl err \<Rightarrow> r = Inl (ErrWrap ''failed to register node'' err) \<and> sv_files s' = sv_files s
      | Inr rid \<Rightarrow> r = Inr rid \<and>
          sv_files s' = snd (SaveState (w_json w) (sv_dataDir s) (new_state s hostname rid) (sv_files s)))"
  using assms
  by (auto simp: register_new_def under_ctx_def call_def same_but_files_def new_state_def Let_def split: sum.splits)

text \<open>The registration of a process that gets its node's configuration.\<close>

lemma start_register_spec:
  assumes host: "w_Hostname w = Inr hostname" and conf: "w_Config w = Inr (AnyTLSConfig port insecure rules)"
    and "\<not> sv_cancelled s" and start: "start_register w s = (r, s')"
  shows "\<exists>s1 fs. LoadState (w_json w) (sv_dataDir s) (sv_files s) = (fst (LoadState (w_json w) (sv_dataDir s) (sv_files s)), fs) \<and>
     s1 = s\<lparr>sv_apiClient := True, sv_files := fs, sv_calls := sv_calls s @ [CallConfig],
            sv_anyTLS := Some (AnyTLSConfig port insecure rules)\<rparr> \<and>
     (case reuse_saved w (saved_state w s) s1 of (rid, s2) \<Rightarrow>
        if rid \<noteq> '''' then r = None \<and> s' = s2\<lparr>sv_registerID := rid, sv_serviceRegisterID := rid\<rparr>
        else (case register_new w hostname port s2 of
                (Inl err, s3) \<Rightarrow> r = Some err \<and> s' = s3
              | (Inr rid, s3) \<Rightarrow> r = None \<and> s' = s3\<lparr>sv_registerID := rid, sv_serviceRegisterID := rid\<rparr>))"
proof -
  obtain loaded fs where load: "LoadState (w_json w) (sv_dataDir s) (sv_files s) = (loaded, fs)" by fastforce
  let ?s1 = "s\<lparr>sv_apiClient := True, sv_files := fs, sv_calls := sv_calls s @ [CallConfig],
            sv_anyTLS := Some (AnyTLSConfig port insecure rules)\<rparr>"
  obtain rid s2 where reuse: "reuse_saved w (saved_state w s) ?s1 = (rid, s2)" by fastforce
  obtain x s3 where new: "register_new w hostname port s2 = (x, s3)" by fastforce
  show ?thesis
    using start assms(3) reuse new
    by (cases x) (auto simp: start_register_def load host conf under_ctx_def call_def saved_state_def Let_def
        split: if_splits)
qed

definition files_to_save :: "('o, 'r, 'c, 'u) world \<Rightarrow> 'r Server \<Rightarrow> files" where
  "files_to_save w s =
     (let fs = snd (LoadState (w_json w) (sv_dataDir s) (sv_files s))
      in if reuse_calls s (saved_state w s) = [] then fs else snd (ClearState (sv_dataDir s) fs))"

text \<open>Its course: what the saved state is worth, and, if nothing, a new registration.\<close>

lemma start_register_course:
  assumes "w_Hostname w = Inr hostname" and "w_Config w = Inr (AnyTLSConfig port insecure rules)"
    and fresh: "\<not> sv_cancelled s" and "start_register w s = (r, s')"
  shows "\<exists>s2. same_but_files (s\<lparr>sv_apiClient := True, sv_anyTLS := Some (AnyTLSConfig port insecure rules)\<rparr>) s2 \<and>
     sv_calls s2 = sv_calls s @ CallConfig # reuse_calls s (saved_state w s) \<and>
     (if usable w s (saved_state w s) then
        r = None \<and> RegisterID (the (saved_state w s)) \<noteq> '''' \<and>
        sv_files s2 = snd (LoadState (w_json w) (sv_dataDir s) (sv_files s)) \<and>
        s' = s2\<lparr>sv_registerID := RegisterID (the (saved_state w s)), sv_serviceRegisterID := RegisterID (the (saved_state w s))\<rparr>
      else
        sv_files s2 = files_to_save w s \<and>
        (case register_new w hostname port s2 of
           (Inl err, s3) \<Rightarrow> r = Some err \<and> s' = s3
         | (Inr rid, s3) \<Rightarrow> r = None \<and> s' = s3\<lparr>sv_registerID := rid, sv_serviceRegisterID := rid\<rparr>))"
proof -
  obtain s1 fs where
    fs: "LoadState (w_json w) (sv_dataDir s) (sv_files s) = (fst (LoadState (w_json w) (sv_dataDir s) (sv_files s)), fs)" and
    s1: "s1 = s\<lparr>sv_apiClient := True, sv_files := fs, sv_calls := sv_calls s @ [CallConfig],
            sv_anyTLS := Some (AnyTLSConfig port insecure rules)\<rparr>" and
    main: "case reuse_saved w (saved_state w s) s1 of (rid, s2) \<Rightarrow>
        if rid \<noteq> '''' then r = None \<and> s' = s2\<lparr>sv_registerID := rid, sv_serviceRegisterID := rid\<rparr>
        else (case register_new w hostname port s2 of
                (Inl err, s3) \<Rightarrow> r = Some err \<and> s' = s3
              | (Inr rid, s3) \<Rightarrow> r = None \<and> s' = s3\<lparr>sv_registerID := rid, sv_serviceRegisterID := rid\<rparr>)"
    using start_register_spec [OF assms] by (elim exE conjE) (rule that)
  obtain rid s2 where reuse: "reuse_saved w (saved_state w s) s1 = (rid, s2)" by fastforce
  have u: "usable w s1 (saved_state w s) = usable w s (saved_state w s)"
    "reuse_calls s1 (saved_state w s) = reuse_calls s (saved_state w s)"
    by (simp_all add: s1 usable_def reuse_calls_def split: option.split)
  have snd_fs: "snd (LoadState (w_json w) (sv_dataDir s) (sv_files s)) = fs" using fs by (metis snd_conv)
  note r1 = reuse_saved_spec [OF reuse, unfolded u]
  have same: "same_but_files (s\<lparr>sv_apiClient := True, sv_anyTLS := Some (AnyTLSConfig port insecure rules)\<rparr>) s2"
    "sv_calls s2 = sv_calls s @ CallConfig # reuse_calls s (saved_state w s)"
    using r1 by (simp_all add: same_but_files_def s1)
  show ?thesis
  proof (cases "usable w s (saved_state w s)")
    case True
    then have "rid = RegisterID (the (saved_state w s))" "rid \<noteq> ''''" "sv_files s2 = fs" using r1 by (auto simp: s1)
    then show ?thesis using True same main unfolding reuse by (intro exI [of _ s2]) (simp add: snd_fs)
  next
    case False
    then have "sv_files s2 = files_to_save w s" using r1 by (simp add: files_to_save_def Let_def snd_fs s1)
    then show ?thesis using False same main r1 unfolding reuse by (intro exI [of _ s2]) simp
  qed
qed

lemma start_register_result:
  assumes "w_Hostname w = Inr hostname" and "w_Config w = Inr (AnyTLSConfig port insecure rules)"
    and fresh: "\<not> sv_cancelled s" and "start_register w s = (r, s')"
  shows "sv_calls s' = sv_calls s @ CallConfig # reuse_calls s (saved_state w s) @
           (if usable w s (saved_state w s) then [] else [CallRegister hostname port])"
    and "sv_apiClient s'" "sv_dataDir s' = sv_dataDir s" "sv_closeOnce s' = sv_closeOnce s"
    "sv_closeErr s' = sv_closeErr s" "\<not> sv_cancelled s'" "sv_closedListeners s' = sv_closedListeners s"
    "sv_userService s' = sv_userService s" "sv_listeners s' = sv_listeners s" "sv_padding s' = sv_padding s"
    "sv_anyTLS s' = Some (AnyTLSConfig port insecure rules)" "sv_nodeID s' = sv_nodeID s"
    and "if usable w s (saved_state w s) then
           r = None \<and> sv_registerID s' = RegisterID (the (saved_state w s)) \<and> sv_registerID s' \<noteq> '''' \<and>
           sv_files s' = snd (LoadState (w_json w) (sv_dataDir s) (sv_files s))
         else (case w_Register w hostname port of
                 Inl err \<Rightarrow> r = Some (ErrWrap ''failed to register node'' err) \<and> sv_registerID s' = sv_registerID s
               | Inr rid \<Rightarrow> r = None \<and> sv_registerID s' = rid \<and>
                   sv_files s' = snd (SaveState (w_json w) (sv_dataDir s) (new_state s hostname rid) (files_to_save w s)))"
    and "r = None \<Longrightarrow> sv_serviceRegisterID s' = sv_registerID s'"
proof -
  obtain s2 where same: "same_but_files (s\<lparr>sv_apiClient := True, sv_anyTLS := Some (AnyTLSConfig port insecure rules)\<rparr>) s2"
      "sv_calls s2 = sv_calls s @ CallConfig # reuse_calls s (saved_state w s)"
    and main: "if usable w s (saved_state w s) then
        r = None \<and> RegisterID (the (saved_state w s)) \<noteq> '''' \<and>
        sv_files s2 = snd (LoadState (w_json w) (sv_dataDir s) (sv_files s)) \<and>
        s' = s2\<lparr>sv_registerID := RegisterID (the (saved_state w s)), sv_serviceRegisterID := RegisterID (the (saved_state w s))\<rparr>
      else
        sv_files s2 = files_to_save w s \<and>
        (case register_new w hostname port s2 of
           (Inl err, s3) \<Rightarrow> r = Some err \<and> s' = s3
         | (Inr rid, s3) \<Rightarrow> r = None \<and> s' = s3\<lparr>sv_registerID := rid, sv_serviceRegisterID := rid\<rparr>)"
    using start_register_course [OF assms] by (elim exE conjE) (rule that)
  obtain x s3 where new: "register_new w hostname port s2 = (x, s3)" by fastforce
  have "\<not> sv_cancelled s2" using same fresh by (simp add: same_but_files_def)
  note reg = register_new_spec [OF new this]
  have ns: "new_state s2 hostname i = new_state s hostname i" for i
    using same by (simp add: new_state_def same_but_files_def)
  note keep = same_but_files_def ns fresh
  consider (old) "usable w s (saved_state w s)" | (err) err where "\<not> usable w s (saved_state w s)" "x = Inl err"
    | (reg) i where "\<not> usable w s (saved_state w s)" "x = Inr i"
    by (cases x) auto
  note outcome = this
  show "sv_calls s' = sv_calls s @ CallConfig # reuse_calls s (saved_state w s) @
           (if usable w s (saved_state w s) then [] else [CallRegister hostname port])"
    using outcome by cases (use main same reg in \<open>simp_all add: new\<close>)
  show "sv_apiClient s'" "sv_dataDir s' = sv_dataDir s" "sv_closeOnce s' = sv_closeOnce s"
    "sv_closeErr s' = sv_closeErr s" "\<not> sv_cancelled s'" "sv_closedListeners s' = sv_closedListeners s"
    "sv_userService s' = sv_userService s" "sv_listeners s' = sv_listeners s" "sv_padding s' = sv_padding s"
    "sv_anyTLS s' = Some (AnyTLSConfig port insecure rules)" "sv_nodeID s' = sv_nodeID s"
    using outcome by (cases; use main same reg in \<open>simp add: new keep\<close>)+
  show "if usable w s (saved_state w s) then
           r = None \<and> sv_registerID s' = RegisterID (the (saved_state w s)) \<and> sv_registerID s' \<noteq> '''' \<and>
           sv_files s' = snd (LoadState (w_json w) (sv_dataDir s) (sv_files s))
         else (case w_Register w hostname port of
                 Inl err \<Rightarrow> r = Some (ErrWrap ''failed to register node'' err) \<and> sv_registerID s' = sv_registerID s
               | Inr rid \<Rightarrow> r = None \<and> sv_registerID s' = rid \<and>
                   sv_files s' = snd (SaveState (w_json w) (sv_dataDir s) (new_state s hostname rid) (files_to_save w s)))"
    using outcome by cases (use main same reg in \<open>simp_all add: new keep split: sum.splits\<close>)
  show "sv_serviceRegisterID s' = sv_registerID s'" if "r = None"
    using outcome that by cases (use main in \<open>simp_all add: new\<close>)
qed

lemma start_register_early:
  assumes "start_register w s = (r, s')" and "\<not> sv_cancelled s"
    and "(\<exists>e. w_Hostname w = Inl e) \<or> (\<nexists>port insecure rules. w_Config w = Inr (AnyTLSConfig port insecure rules))"
  shows "r \<noteq> None \<and> sv_registerID s' = sv_registerID s \<and> sv_closeOnce s' = sv_closeOnce s \<and>
    sv_closeErr s' = sv_closeErr s \<and> sv_listeners s' = sv_listeners s \<and> sv_closedListeners s' = sv_closedListeners s \<and>
    (sv_calls s' = sv_calls s \<or> sv_calls s' = sv_calls s @ [CallConfig])"
proof (cases "w_Hostname w")
  case (Inl e)
  then show ?thesis using assms(1) by (auto simp: start_register_def)
next
  case (Inr h)
  obtain loaded fs where "LoadState (w_json w) (sv_dataDir s) (sv_files s) = (loaded, fs)" by fastforce
  then show ?thesis using assms Inr
    by (auto simp: start_register_def under_ctx_def call_def Let_def split: sum.splits NodeConfig.splits)
qed

lemma Server_New_fields [simp]:
  "sv_registerID (Server_New cert n acl dir pad fs) = ''''" "sv_calls (Server_New cert n acl dir pad fs) = []"
  "\<not> sv_cancelled (Server_New cert n acl dir pad fs)" "\<not> sv_closeOnce (Server_New cert n acl dir pad fs)"
  "sv_closeErr (Server_New cert n acl dir pad fs) = None" "sv_listeners (Server_New cert n acl dir pad fs) = []"
  "sv_files (Server_New cert n acl dir pad fs) = fs" "sv_nodeID (Server_New cert n acl dir pad fs) = n"
  "sv_closedListeners (Server_New cert n acl dir pad fs) = []" "sv_userService (Server_New cert n acl dir pad fs) = None"
  "sv_padding (Server_New cert n acl dir pad fs) = pad"
  "sv_dataDir (Server_New cert n acl dir pad fs) = (if dir = '''' then DefaultDataDir else dir)"
  by (simp_all add: Server_New_def)

text \<open>A new server after its registration, whether that worked or not.\<close>

lemma start_register_fresh:
  assumes reg: "start_register w (Server_New cert n acl dir pad fs) = (r1, s1)"
  shows "\<not> sv_closeOnce s1 \<and> sv_closeErr s1 = None \<and> (sv_registerID s1 \<noteq> '''' \<longrightarrow> sv_apiClient s1) \<and>
     sv_closedListeners s1 = [] \<and> sv_listeners s1 = [] \<and> CallUnregister i \<notin> set (sv_calls s1) \<and>
     (CallRegister h p \<in> set (sv_calls s1) \<longrightarrow> w_Register w h p = Inr rid \<longrightarrow> sv_registerID s1 = rid)"
proof (cases "(\<exists>e. w_Hostname w = Inl e) \<or> (\<nexists>port insecure rules. w_Config w = Inr (AnyTLSConfig port insecure rules))")
  case True
  then show ?thesis using start_register_early [OF reg _ True] by auto
next
  case False
  then obtain hostname port insecure rules where hc: "w_Hostname w = Inr hostname"
    "w_Config w = Inr (AnyTLSConfig port insecure rules)"
    by (cases "w_Hostname w") auto
  have "\<not> sv_cancelled (Server_New cert n acl dir pad fs)" by simp
  note res = start_register_result [OF hc this reg]
  show ?thesis using res(1,2,4,5,7,9,13)
    by (auto simp: reuse_calls_def split: if_splits option.splits)
qed

text \<open>The calls of a run of \<open>Start\<close>: the configuration, at most one verification, at most one
  registration whose id is then the server's, at most one fetch and one heartbeat.\<close>

lemma Server_Start_calls:
  assumes "Server_Start w (Server_New cert n acl dir pad fs) = (r, s)"
  shows "\<not> sv_closeOnce s" "sv_closeErr s = None"
    and "CallRegister h p \<in> set (sv_calls s) \<Longrightarrow> w_Register w h p = Inr rid \<Longrightarrow> sv_registerID s = rid"
    and "sv_registerID s \<noteq> '''' \<Longrightarrow> sv_apiClient s"
    and "CallUnregister rid \<notin> set (sv_calls s)"
proof -
  let ?s0 = "Server_New cert n acl dir pad fs"
  obtain r1 s1 where reg: "start_register w ?s0 = (r1, s1)" by fastforce
  have rest: "s = s1 \<or> (r1 = None \<and> start_rest w s1 = (r, s))"
    using assms reg by (auto simp: Server_Start_def split: option.splits)
  note facts = start_register_fresh [OF reg]
  have keep: "s = s1 \<or> (same_life s1 s \<and> (\<exists>c \<in> later_calls (sv_serviceRegisterID s1). sv_calls s = sv_calls s1 @ c))"
    using rest start_rest_keeps by metis
  show "\<not> sv_closeOnce s" "sv_closeErr s = None" "sv_registerID s \<noteq> '''' \<Longrightarrow> sv_apiClient s"
    using keep facts by (auto simp: same_life_def)
  have ids: "sv_registerID s = sv_registerID s1" using keep by (auto simp: same_life_def)
  have old: "a \<in> set (sv_calls s1)" if "a \<in> set (sv_calls s)" "\<And>i. a \<noteq> CallUsers i" "\<And>i. a \<noteq> CallHeartbeat i" for a
    using keep that by (auto simp: later_calls_def)
  show "CallUnregister rid \<notin> set (sv_calls s)" using old [of "CallUnregister rid"] facts [of rid] by auto
  show "sv_registerID s = rid" if "CallRegister h p \<in> set (sv_calls s)" "w_Register w h p = Inr rid"
    using old [OF that(1)] facts [of _ h p rid] that(2) ids by simp
qed

section \<open>Properties\<close>

definition unregistered :: "api_call list \<Rightarrow> string list" where
  "unregistered calls = List.map_filter (\<lambda>a. case a of CallUnregister i \<Rightarrow> Some i | _ \<Rightarrow> None) calls"

lemma unregistered_append [simp]: "unregistered (xs @ ys) = unregistered xs @ unregistered ys"
  by (simp add: unregistered_def List.map_filter_def)

lemma unregistered_none: "(\<And>i. CallUnregister i \<notin> set xs) \<Longrightarrow> unregistered xs = []"
  by (induction xs) (force simp: unregistered_def List.map_filter_simps split: api_call.splits)+

text \<open>C12: No registration outlives the server: wherever \<open>Start\<close> stops, with an error or without, the
  id it got from the panel is the server's, and \<open>Close\<close> unregisters just that one, once; if
  the panel takes it back the saved state goes with it, and stays otherwise.\<close>

theorem registration_released:
  assumes "Server_Start w (Server_New cert n acl dir pad fs) = (r, s)"
  shows "(\<forall>h p rid. CallRegister h p \<in> set (sv_calls s) \<and> w_Register w h p = Inr rid \<longrightarrow> sv_registerID s = rid) \<and>
     unregistered (sv_calls (snd (Server_Close w' (snd (Server_Close w' s))))) =
       (if sv_registerID s = '''' then [] else [sv_registerID s]) \<and>
     (sv_registerID s \<noteq> '''' \<and> w_Unregister w' (sv_registerID s) = None \<and> fs_faults (sv_files s) = [] \<longrightarrow>
        state_in (w_json w) (sv_dataDir s) (fs_files (sv_files (snd (Server_Close w' s)))) = Inr None) \<and>
     (w_Unregister w' (sv_registerID s) \<noteq> None \<longrightarrow> sv_files (snd (Server_Close w' s)) = sv_files s)"
proof -
  note start = Server_Start_calls [OF assms]
  obtain e where close: "Server_Close w' s = (e, after_close w' e s)"
    using Server_Close_first [OF start(1), of w'] by (elim exE conjE) (rule that)
  have "unregistered (sv_calls s @ unregister_calls s) = (if sv_registerID s = '''' then [] else [sv_registerID s])"
    using start(4) unregistered_none [OF start(5)]
    by (simp add: unregister_calls_def) (simp add: unregistered_def List.map_filter_simps)
  moreover have "state_in (w_json w) (sv_dataDir s) (fs_files (files_after_close w' s)) = Inr None"
    if "sv_registerID s \<noteq> ''''" "w_Unregister w' (sv_registerID s) = None" "fs_faults (sv_files s) = []"
    using ClearState_fine [OF that(3), of "sv_dataDir s"] that(1,2) start(4)
    by (auto simp: files_after_close_def unregister_calls_def state_in_cleared)
  moreover have "files_after_close w' s = sv_files s" if "w_Unregister w' (sv_registerID s) \<noteq> None"
    using that by (auto simp: files_after_close_def)
  ultimately show ?thesis using start(3) by (auto simp: close after_close_def Server_Close_again)
qed

text \<open>A panel, an operating system and an engine on which everything works.\<close>

definition demo_server_engine :: "(unit, unit, unit, unit) engine" where
  "demo_server_engine = \<lparr>en_ToLower = id, en_NewDirect = \<lambda>_. (), en_NewDirectBindToIPs = \<lambda>_ _ _. Inr (),
     en_NewDirectBindToDevice = \<lambda>_ _. Inr (), en_NewSOCKS5 = \<lambda>_ _ _. (), en_NewHTTP = \<lambda>_ _. Inr (),
     en_RouterNew = \<lambda>_ _. Inr (), en_DialTCP = \<lambda>_ _. Inr (), en_DialUDP = \<lambda>_ _. Inr (), en_AddrString = addr_Host\<rparr>"

definition demo_world :: "(unit, unit, unit, unit) world" where
  "demo_world = \<lparr>w_Hostname = Inr ''h'', w_Config = Inr (AnyTLSConfig 443 1 ''''), w_Verify = \<lambda>_. Inr True,
     w_Register = \<lambda>_ _. Inr ''ab'', w_Unregister = \<lambda>_. None, w_Users = Inr [\<lparr>user_ID = 1, UUID = ''a''\<rparr>],
     w_LoadX509KeyPair = \<lambda>_ _. None, w_Executable = Inl ErrEOF, w_ReadInConfig = \<lambda>_. None, w_UnmarshalExt = Inl ErrEOF,
     w_Listen = \<lambda>net _. if net = ''tcp4'' then Inr 4 else Inl ErrEOF, w_CloseListener = \<lambda>_. None,
     w_json = demo_json, w_engine = demo_server_engine, w_md5 = string_of_bytes, w_sha256 = id, w_order = id\<rparr>"

definition demo_cert :: CertConfig where
  "demo_cert = \<lparr>CertFile = ''c'', KeyFile = ''k''\<rparr>"

definition demo_srv :: "files \<Rightarrow> unit Server" where
  "demo_srv fs = Server_New demo_cert 3 '''' ''d'' None fs"

definition no_files :: files where
  "no_files = \<lparr>fs_files = Map.empty, fs_faults = []\<rparr>"

lemma LoadState_none: "LoadState js dir no_files = (Inr None, no_files)"
  by (simp add: LoadState_def os_defs no_files_def)

text \<open>Its first registration, with an empty disk.\<close>

lemma demo_register:
  assumes "w = demo_world\<lparr>w_LoadX509KeyPair := tls\<rparr>"
  shows "\<exists>s. start_register w (demo_srv no_files) = (None, s) \<and> sv_registerID s = ''ab'' \<and>
     sv_serviceRegisterID s = ''ab'' \<and> sv_aclConfPath s = '''' \<and> sv_anyTLS s = Some (AnyTLSConfig 443 1 '''') \<and>
     sv_extConfig s = None \<and> sv_listeners s = [] \<and> \<not> sv_closeOnce s \<and> sv_dataDir s = ''d'' \<and>
     sv_files s = snd (SaveState demo_json ''d'' demo_state no_files)"
  by (simp add: assms start_register_def demo_world_def demo_srv_def Server_New_def LoadState_none under_ctx_def call_def
      reuse_saved_def register_new_def demo_state_def Let_def)

theorem registration_released_witness:
  "\<exists>r s. Server_Start (demo_world\<lparr>w_LoadX509KeyPair := \<lambda>_ _. Some ErrEOF\<rparr>) (demo_srv no_files) = (r, s) \<and> r \<noteq> None \<and>
     unregistered (sv_calls (snd (Server_Close demo_world (snd (Server_Close demo_world s))))) = [''ab'']"
proof -
  let ?w = "demo_world\<lparr>w_LoadX509KeyPair := \<lambda>_ _. Some ErrEOF\<rparr>"
  obtain s where s: "start_register ?w (demo_srv no_files) = (None, s)" "sv_registerID s = ''ab''"
    using demo_register [OF refl] by blast
  have start: "Server_Start ?w (Server_New demo_cert 3 '''' ''d'' None no_files) =
      (Some (ErrWrap ''failed to load TLS config'' ErrEOF), s)"
    using s(1) by (simp add: Server_Start_def start_rest_def demo_srv_def CertConfig_Load_def)
  show ?thesis
    using registration_released [OF start, of demo_world] s(2) start by (simp add: demo_srv_def)
qed

text \<open>A registration that succeeded can be found by the next process.\<close>

lemma registered_and_saved:
  assumes "fs_faults fs = []" and start: "start_register w (Server_New cert n acl dir pad fs) = (None, s)"
    and json: "\<And>hostname rid. w_Hostname w = Inr hostname \<Longrightarrow>
        json_ok (w_json w) \<lparr>RegisterID = rid, NodeID = n, Hostname = hostname\<rparr>"
  shows "fs_faults (sv_files s) = [] \<and>
    (\<exists>st. state_in (w_json w) (if dir = '''' then DefaultDataDir else dir) (fs_files (sv_files s)) = Inr (Some st) \<and>
       RegisterID st = sv_registerID s \<and> NodeID st = n)"
proof -
  let ?s0 = "Server_New cert n acl dir pad fs" and ?dir = "if dir = '''' then DefaultDataDir else dir"
  obtain hostname port insecure rules where hc: "w_Hostname w = Inr hostname"
    "w_Config w = Inr (AnyTLSConfig port insecure rules)"
    using start_register_early [OF start] by (cases "w_Hostname w") auto
  have "\<not> sv_cancelled ?s0" by simp
  note res = start_register_result(13) [OF hc this start]
  have load: "LoadState (w_json w) (sv_dataDir ?s0) (sv_files ?s0) = (state_in (w_json w) ?dir (fs_files fs), fs)"
    using LoadState_fine [OF assms(1)] by simp
  show ?thesis
  proof (cases "usable w ?s0 (saved_state w ?s0)")
    case True
    then obtain st where st: "saved_state w ?s0 = Some st" "NodeID st = n" by (auto simp: usable_def)
    then have "state_in (w_json w) ?dir (fs_files fs) = Inr (Some st)"
      unfolding saved_state_def load by (auto split: sum.splits)
    then show ?thesis using res True st assms(1) load by simp
  next
    case False
    have to_save: "fs_faults (files_to_save w ?s0) = []"
      using ClearState_fine [OF assms(1), of ?dir] assms(1) load by (auto simp: files_to_save_def Let_def)
    obtain rid where rid: "w_Register w hostname port = Inr rid" "sv_registerID s = rid"
      "sv_files s = snd (SaveState (w_json w) ?dir \<lparr>RegisterID = rid, NodeID = n, Hostname = hostname\<rparr> (files_to_save w ?s0))"
      using res False by (cases "w_Register w hostname port") (auto simp: new_state_def)
    from SaveState_saved [OF to_save json [OF hc(1), of rid], of ?dir] show ?thesis using rid by auto
  qed
qed



text \<open>\<open>Close\<close> works once: the first call unregisters the node if it is registered, cancels the
  server's context, calls \<open>Close\<close> on every listener in order and stops the user service; its
  error is that of a listener that did not close, a listener closed before being fine; any
  further call does nothing and returns the same.\<close>

theorem server_close_once:
  assumes "\<not> sv_closeOnce s"
  shows "case Server_Close w s of (e, s') \<Rightarrow>
     sv_calls s' = sv_calls s @ (if sv_registerID s \<noteq> '''' \<and> sv_apiClient s then [CallUnregister (sv_registerID s)] else []) \<and>
     sv_cancelled s' \<and> sv_closedListeners s' = sv_closedListeners s @ sv_listeners s \<and>
     (sv_userService s \<noteq> None \<longrightarrow> sv_usersClosed s') \<and>
     (e = None \<longleftrightarrow> sv_closeErr s = None \<and> (\<forall>ln \<in> set (sv_listeners s). close_fine w ln)) \<and>
     (\<forall>w'. Server_Close w' s' = (e, s'))"
  using Server_Close_first [OF assms, of w] by (auto simp: Server_Close_again unregister_calls_def after_close_def)

theorem server_close_once_witness:
  "sv_closedListeners (snd (Server_Close demo_world ((demo_srv no_files)\<lparr>sv_listeners := [4, 6]\<rparr>))) = [4, 6]"
proof -
  have "\<not> sv_closeOnce ((demo_srv no_files)\<lparr>sv_listeners := [4, 6]\<rparr>)" by (simp add: demo_srv_def)
  from server_close_once [OF this, of demo_world] show ?thesis unfolding split_beta by (elim conjE) (simp add: demo_srv_def)
qed

text \<open>A run of \<open>Start\<close> that got as far as the accept loops.\<close>

lemma Server_Start_ok:
  assumes "Server_Start w s0 = (None, s)"
  shows "\<exists>s1 s2. start_register w s0 = (None, s1) \<and> CertConfig_Load w (sv_certConfig s1) = Inr False \<and>
     start_serving w (sv_anyTLS s1) s2 = (None, s) \<and> same_life s1 s2 \<and> sv_calls s2 = sv_calls s1 \<and>
     sv_serviceRegisterID s2 = sv_serviceRegisterID s1 \<and> sv_tls s2 = Some False \<and> sv_padding s2 = sv_padding s1"
proof -
  obtain s1 where s1: "start_register w s0 = (None, s1)" "start_rest w s1 = (None, s)"
    using assms by (auto simp: Server_Start_def split: option.splits prod.splits)
  then have tls: "CertConfig_Load w (sv_certConfig s1) = Inr False"
    by (auto simp: start_rest_def dest: CertConfig_Load_Inr split: sum.splits)
  obtain s2 where "start_serving w (sv_anyTLS s1) s2 = (None, s)"
    "s2 = s1\<lparr>sv_tls := Some False, sv_userService := Some new_users\<rparr> \<or>
     (\<exists>c. s2 = s1\<lparr>sv_tls := Some False, sv_extConfig := Some c, sv_userService := Some new_users\<rparr>)"
    using s1(2) tls by (auto simp: start_rest_def Let_def split: if_splits sum.splits)
  then show ?thesis using s1 tls by (intro exI [of _ s1] exI [of _ s2]) (auto simp: same_life_def)
qed

lemma start_serving_ok:
  assumes "start_serving w (Some conf) s = (None, s')"
  shows "\<exists>port insecure rules us. conf = AnyTLSConfig port insecure rules \<and> 0 < port \<and> port \<le> 65535 \<and>
     w_Users w = Inr us \<and> sv_serviceRegisterID s \<noteq> '''' \<and> sv_tls s' = (if insecure = 1 then Some True else sv_tls s) \<and>
     listenDualStack w port = Inr (sv_listeners s') \<and>
     (\<exists>rt. sv_outbound s' = Some rt \<and> buildOutbound (w_engine w) (sv_extConfig s') = Inr rt) \<and>
     sv_padding s' = (if rules = '''' then sv_padding s
       else snd (UpdatePaddingScheme (w_md5 w) (w_order w) (bytes_of_string rules) (sv_padding s))) \<and>
     {TaskFetchUsers, TaskReportTraffics, TaskHeartbeat} \<subseteq> set (sv_tasks s') \<and>
     sv_userService s' = Some (snd (UsersService_init (w_sha256 w) (sv_serviceRegisterID s) (w_Users w) new_users))"
proof -
  obtain port insecure rules where conf: "conf = AnyTLSConfig port insecure rules" "0 < port" "port \<le> 65535"
    using assms by (cases conf) (auto simp: start_serving_def validateConfig_def split: if_splits)
  let ?s1 = "if insecure = 1 then s\<lparr>sv_tls := Some True\<rparr> else s"
  have valid: "validateConfig (Some conf) True (sv_tls s \<noteq> None) = None"
    using assms by (auto simp: start_serving_def split: option.splits)
  have main: "(case buildOutbound (w_engine w) (sv_extConfig ?s1) of
      Inl err \<Rightarrow> (Some (ErrWrap ''failed to build outbound'' err), ?s1)
    | Inr r \<Rightarrow>
        (case listenDualStack w port of
           Inl err \<Rightarrow> (Some (ErrWrap ''failed to listen'' err), ?s1\<lparr>sv_outbound := Some r\<rparr>)
         | Inr listeners \<Rightarrow> start_users w new_users (start_padding w rules
             (?s1\<lparr>sv_outbound := Some r, sv_listeners := listeners\<rparr>)))) = (None, s')"
    using assms by (simp only: start_serving_def conf(1) valid [unfolded conf(1)] Let_def option.case option.sel NodeConfig.sel)
  obtain rt where rt: "buildOutbound (w_engine w) (sv_extConfig ?s1) = Inr rt"
    using main by (auto split: sum.splits)
  obtain ls where ls: "listenDualStack w port = Inr ls"
    using main rt by (auto split: sum.splits)
  let ?s2 = "?s1\<lparr>sv_outbound := Some rt, sv_listeners := ls\<rparr>"
  have users: "start_users w new_users (start_padding w rules ?s2) = (None, s')"
    using main by (simp add: rt ls)
  obtain us1 where us1: "UsersService_init (w_sha256 w) (sv_serviceRegisterID s) (w_Users w) new_users = (None, us1)"
    using users by (auto simp: start_users_def UsersService_Start_def start_padding_keeps Let_def split: prod.splits option.splits if_splits)
  then obtain us where us: "w_Users w = Inr us" "sv_serviceRegisterID s \<noteq> ''''"
    by (auto simp: UsersService_init_def split: if_splits sum.splits)
  have "s' = (start_padding w rules ?s2)\<lparr>sv_userService := Some us1,
      sv_tasks := sv_tasks (start_padding w rules ?s2) @ [TaskFetchUsers, TaskReportTraffics, TaskHeartbeat],
      sv_calls := sv_calls (start_padding w rules ?s2) @
        [CallUsers (sv_serviceRegisterID s), CallHeartbeat (sv_serviceRegisterID s)]\<rparr>"
    using users us1 us(2) by (auto simp: start_users_def UsersService_Start_def HeartbeatTask_def start_padding_keeps)
  moreover have "sv_extConfig ?s1 = sv_extConfig s" by simp
  ultimately show ?thesis using conf rt ls us us1
    by (auto simp: call_def start_padding_def)
qed

lemma listenDualStack_ok:
  "listenDualStack w port =
     (let ls = List.map_filter (\<lambda>r. case r of Inl _ \<Rightarrow> None | Inr ln \<Rightarrow> Some ln)
        [w_Listen w ''tcp4'' (''0.0.0.0:'' @ FormatInt port), w_Listen w ''tcp6'' (''[::]:'' @ FormatInt port)]
      in if ls = [] then Inl (ErrMsg (''failed to listen on any address for port '' @ FormatInt port)) else Inr ls)"
  by (simp add: listenDualStack_def Let_def List.map_filter_simps split: sum.split)

definition padding_after :: "('o, 'r, 'c, 'u) world \<Rightarrow> string \<Rightarrow> PaddingFactory option \<Rightarrow> PaddingFactory option" where
  "padding_after w rules cur =
     (if rules = '''' then cur
      else case NewPaddingFactory (w_md5 w) (w_order w) (bytes_of_string rules) of None \<Rightarrow> cur | Some p \<Rightarrow> Some p)"

lemma new_users_auth:
  assumes "rid \<noteq> ''''"
  shows "AuthAndGetUserId h (snd (UsersService_init sha256 rid (Inr us) new_users)) \<noteq> None \<longleftrightarrow>
     (\<exists>u \<in> set us. h = user_key sha256 (UUID u))"
  using UsersService_init_inv [of new_users rid sha256 us] assms unfolding auth_dom
  by (auto simp: users_inv_def uuids_def UsersService_init_def new_users_def)


text \<open>When the panel and the system work, the first start of a node serves.\<close>

lemma demo_rest:
  assumes "sv_serviceRegisterID s = ''ab''" "sv_aclConfPath s = ''''" "sv_anyTLS s = Some (AnyTLSConfig 443 1 '''')"
    and "sv_extConfig s = None"
  shows "\<exists>s'. start_rest demo_world s = (None, s') \<and> sv_listeners s' = [4]"
proof -
  have "CertConfig_Load demo_world (sv_certConfig s) = Inr False" by (simp add: demo_world_def CertConfig_Load_def)
  moreover have "buildOutbound (w_engine demo_world) None = Inr ()"
    by (simp add: buildOutbound_def demo_world_def demo_server_engine_def)
  moreover have "listenDualStack demo_world 443 = Inr [4]"
    by (simp add: listenDualStack_ok demo_world_def List.map_filter_simps Let_def)
  ultimately show ?thesis using assms
    by (simp add: start_defs validateConfig_def UsersService_init_def call_def del: not_None_eq)
      (simp add: demo_world_def call_def)
qed

lemma demo_start: "\<exists>s. Server_Start demo_world (demo_srv no_files) = (None, s) \<and> sv_listeners s = [4]"
proof -
  have w: "demo_world = demo_world\<lparr>w_LoadX509KeyPair := \<lambda>_ _. None\<rparr>" by (simp add: demo_world_def)
  obtain s where "start_register demo_world (demo_srv no_files) = (None, s)" "sv_serviceRegisterID s = ''ab''"
    "sv_aclConfPath s = ''''" "sv_anyTLS s = Some (AnyTLSConfig 443 1 '''')" "sv_extConfig s = None"
    using demo_register [OF w] by auto
  then show ?thesis using demo_rest [of s] by (simp add: Server_Start_def)
qed


text \<open>\<open>Close\<close> works once even when it comes too early: called by the signal handler after the
  registration and before the listeners are there, it uses up the one run of its body; \<open>Start\<close>,
  which looks at no context from there on, goes on to open its listeners and serve, with the
  node unregistered, and the \<open>Close\<close> at the end of the program closes none of them.\<close>

theorem early_close_leaves_listeners:
  assumes "start_register w (Server_New cert n acl dir pad fs) = (None, s1)"
    and "start_rest w (snd (Server_Close w s1)) = (None, s2)"
  shows "sv_listeners s2 \<noteq> [] \<and> (sv_registerID s1 \<noteq> '''' \<longrightarrow> CallUnregister (sv_registerID s1) \<in> set (sv_calls s2)) \<and>
     (\<forall>w'. sv_closedListeners (snd (Server_Close w' s2)) = [])"
proof -
  let ?s0 = "Server_New cert n acl dir pad fs"
  obtain hostname port insecure rules where hc: "w_Hostname w = Inr hostname"
    "w_Config w = Inr (AnyTLSConfig port insecure rules)"
    using start_register_early [OF assms(1)] by (cases "w_Hostname w") auto
  have "\<not> sv_cancelled ?s0" by simp
  note reg = start_register_result(2,4,7,9,11) [OF hc this assms(1)]
  obtain e s1' where close: "Server_Close w s1 = (e, s1')" "sv_closeOnce s1'" "sv_closedListeners s1' = []"
    "sv_calls s1' = sv_calls s1 @ unregister_calls s1" "sv_anyTLS s1' = sv_anyTLS s1"
    using Server_Close_first [of s1 w] reg by (auto simp: after_close_def)
  have rest: "start_rest w s1' = (None, s2)" using assms(2) close(1) by simp
  have keep: "same_life s1' s2" "\<exists>c. sv_calls s2 = sv_calls s1' @ c" using start_rest_keeps [OF rest] by auto
  obtain b where "CertConfig_Load w (sv_certConfig s1') = Inr b" using rest by (auto simp: start_rest_def split: sum.splits)
  then obtain sx where "start_serving w (sv_anyTLS s1') sx = (None, s2)"
    using rest by (auto simp: start_rest_def Let_def split: if_splits sum.splits)
  then have "listenDualStack w port = Inr (sv_listeners s2)"
    using start_serving_ok [of w "AnyTLSConfig port insecure rules" sx s2] close(5) reg(5) by auto
  then have "sv_listeners s2 \<noteq> []" by (auto simp: listenDualStack_ok Let_def split: if_splits)
  moreover have "CallUnregister (sv_registerID s1) \<in> set (sv_calls s2)" if "sv_registerID s1 \<noteq> ''''"
    using keep(2) close(4) that reg(1) by (auto simp: unregister_calls_def)
  ultimately show ?thesis using keep(1) close(2,3) by (simp add: same_life_def Server_Close_again)
qed

theorem early_close_leaves_listeners_witness:
  "\<exists>s1 s2. start_register demo_world (Server_New demo_cert 3 '''' ''d'' None no_files) = (None, s1) \<and>
     start_rest demo_world (snd (Server_Close demo_world s1)) = (None, s2) \<and>
     sv_listeners s2 \<noteq> [] \<and> sv_closedListeners (snd (Server_Close demo_world s2)) = []"
proof -
  have w: "demo_world = demo_world\<lparr>w_LoadX509KeyPair := \<lambda>_ _. None\<rparr>" by (simp add: demo_world_def)
  obtain s where s: "start_register demo_world (Server_New demo_cert 3 '''' ''d'' None no_files) = (None, s)"
    "sv_serviceRegisterID s = ''ab''" "sv_aclConfPath s = ''''" "sv_anyTLS s = Some (AnyTLSConfig 443 1 '''')"
    "sv_extConfig s = None" "\<not> sv_closeOnce s"
    using demo_register [OF w] by (auto simp: demo_srv_def)
  obtain e where "snd (Server_Close demo_world s) = after_close demo_world e s"
    using Server_Close_first [OF s(6), of demo_world] by (elim exE conjE) (rule that, simp)
  moreover have "\<exists>s2. start_rest demo_world x = (None, s2)"
    if x: "sv_serviceRegisterID x = ''ab''" "sv_aclConfPath x = ''''" "sv_anyTLS x = Some (AnyTLSConfig 443 1 '''')"
    "sv_extConfig x = None" for x
    using demo_rest [OF x] by blast
  ultimately obtain s2 where "start_rest demo_world (snd (Server_Close demo_world s)) = (None, s2)"
    using s by (fastforce simp: after_close_def)
  then show ?thesis using early_close_leaves_listeners [OF s(1)] s(1) by blast
qed

end
