(* ===== verification/Program.thy ===== *)
theory Program
  imports Server
begin

text \<open>
  The program around the server, \<open>cmd/server/main.go\<close>: the table of flags with their environment
  variables and defaults, the check of the log level, the refresh of the geo databases and the
  action, which starts the server and closes it at its end or on a signal. The command line
  library and the loader of the databases are outside the repository and parameters here.
\<close>

section \<open>Flags\<close>

datatype FlagValue = StringValue string | IntValue int | DurationValue int | BoolValue bool

datatype Destination =
    DestAPIHost | DestToken | DestAclConfPath | DestCertFile | DestKeyFile | DestNodeID
  | DestFetchUserInterval | DestReportTrafficInterval | DestHeartbeatInterval
  | DestLogLevel | DestDataDir | DestIPVersion | DestRefreshGeoData

record Flag =
  fl_Name :: string
  fl_EnvVars :: "string list"
  fl_Value :: FlagValue
  fl_Required :: bool
  fl_Destination :: Destination

definition LogLevelDebug :: string where "LogLevelDebug = ''debug''"
definition LogLevelError :: string where "LogLevelError = ''error''"
definition LogLevelInfo :: string where "LogLevelInfo = ''info''"

text \<open>Durations in nanoseconds.\<close>

definition time_Second :: int where
  "time_Second = 1000000000"

definition flag :: "string \<Rightarrow> string list \<Rightarrow> FlagValue \<Rightarrow> bool \<Rightarrow> Destination \<Rightarrow> Flag" where
  "flag name env val required dest =
     \<lparr>fl_Name = name, fl_EnvVars = env, fl_Value = val, fl_Required = required, fl_Destination = dest\<rparr>"

definition app_Flags :: "Flag list" where
  "app_Flags =
     [flag ''api'' [''X_PANDA_ANYTLS_API'', ''API''] (StringValue '''') True DestAPIHost,
      flag ''token'' [''X_PANDA_ANYTLS_TOKEN'', ''TOKEN''] (StringValue '''') True DestToken,
      flag ''acl_conf_file'' [''X_PANDA_ANYTLS_ACL_CONF_FILE'', ''ACL_CONF_FILE''] (StringValue '''') False DestAclConfPath,
      flag ''cert_file'' [''X_PANDA_ANYTLS_CERT_FILE'', ''CERT_FILE''] (StringValue ''/root/.cert/server.crt'') False DestCertFile,
      flag ''key_file'' [''X_PANDA_ANYTLS_KEY_FILE'', ''KEY_FILE''] (StringValue ''/root/.cert/server.key'') False DestKeyFile,
      flag ''node'' [''X_PANDA_ANYTLS_NODE'', ''NODE''] (IntValue 0) True DestNodeID,
      flag ''fetch_users_interval, fui'' [''X_PANDA_ANYTLS_FETCH_USER_INTERVAL'', ''FETCH_USER_INTERVAL'']
        (DurationValue (time_Second * 60)) False DestFetchUserInterval,
      flag ''report_traffics_interval, fui'' [''X_PANDA_ANYTLS_FETCH_USER_INTERVAL'', ''REPORT_TRAFFICS_INTERVAL'']
        (DurationValue (time_Second * 80)) False DestReportTrafficInterval,
      flag ''heartbeat_interval, hi'' [''X_PANDA_ANYTLS_HEARTBEAT_INTERVAL'', ''HEARTBEAT_INTERVAL'']
        (DurationValue (time_Second * 180)) False DestHeartbeatInterval,
      flag ''log_mode'' [''X_PANDA_ANYTLS_LOG_LEVEL'', ''LOG_LEVEL''] (StringValue LogLevelError) False DestLogLevel,
      flag ''data_dir'' [''X_PANDA_ANYTLS_DATA_DIR'', ''DATA_DIR''] (StringValue ''/var/lib/anytls-node'') False DestDataDir,
      flag ''api_ip_version'' [''X_PANDA_ANYTLS_API_IP_VERSION'', ''API_IP_VERSION''] (StringValue ''v4'') False DestIPVersion,
      flag ''refresh_geodata'' [''X_PANDA_ANYTLS_REFRESH_GEODATA'', ''REFRESH_GEODATA''] (BoolValue False) False DestRefreshGeoData]"

definition flag_for :: "Destination \<Rightarrow> Flag option" where
  "flag_for dest = find (\<lambda>f. fl_Destination f = dest) app_Flags"

text \<open>
  What the command line library documents of a flag that is not on the command line: the first
  of its environment variables that is set gives its value, read by \<open>conv\<close>, else its default.
\<close>

definition env_rule ::
  "(Flag \<Rightarrow> FlagValue) \<Rightarrow> (Flag \<Rightarrow> bool) \<Rightarrow> (string \<rightharpoonup> string) \<Rightarrow> (FlagValue \<Rightarrow> string \<Rightarrow> FlagValue) \<Rightarrow> bool" where
  "env_rule val given env conv \<longleftrightarrow>
     (\<forall>f. \<not> given f \<longrightarrow> val f =
        (case find (\<lambda>v. env v \<noteq> None) (fl_EnvVars f) of None \<Rightarrow> fl_Value f | Some v \<Rightarrow> conv (fl_Value f) (the (env v))))"

text \<open>Every destination has one flag.\<close>

lemma flag_destinations: "distinct (map fl_Destination app_Flags)" "distinct (map fl_Name app_Flags)"
  by (simp_all add: app_Flags_def flag_def)

text \<open>The variable of the fetch interval also sets the report interval, and no flag reads the
  variable that the documentation names for the latter.\<close>

theorem interval_variable_shared:
  assumes "env_rule val given env conv" and "env ''X_PANDA_ANYTLS_FETCH_USER_INTERVAL'' = Some v"
    and "flag_for DestFetchUserInterval = Some f" and "flag_for DestReportTrafficInterval = Some g"
    and "\<not> given f" and "\<not> given g"
  shows "val f = conv (fl_Value f) v \<and> val g = conv (fl_Value g) v \<and>
     (\<forall>f \<in> set app_Flags. ''X_PANDA_ANYTLS_REPORT_TRAFFICS_INTERVAL'' \<notin> set (fl_EnvVars f))"
proof -
  have "hd (fl_EnvVars f) = ''X_PANDA_ANYTLS_FETCH_USER_INTERVAL'' \<and> fl_EnvVars f \<noteq> []"
    using assms(3) by (auto simp: flag_for_def app_Flags_def flag_def)
  moreover have "hd (fl_EnvVars g) = ''X_PANDA_ANYTLS_FETCH_USER_INTERVAL'' \<and> fl_EnvVars g \<noteq> []"
    using assms(4) by (auto simp: flag_for_def app_Flags_def flag_def)
  ultimately have "find (\<lambda>v. env v \<noteq> None) (fl_EnvVars f) = Some ''X_PANDA_ANYTLS_FETCH_USER_INTERVAL''"
    "find (\<lambda>v. env v \<noteq> None) (fl_EnvVars g) = Some ''X_PANDA_ANYTLS_FETCH_USER_INTERVAL''"
    using assms(2) by (cases "fl_EnvVars f"; cases "fl_EnvVars g"; auto)+
  then have "val f = conv (fl_Value f) v" "val g = conv (fl_Value g) v"
    using assms(1,2,5,6) by (simp_all add: env_rule_def)
  moreover have "\<forall>f \<in> set app_Flags. ''X_PANDA_ANYTLS_REPORT_TRAFFICS_INTERVAL'' \<notin> set (fl_EnvVars f)"
    by (simp add: app_Flags_def flag_def)
  ultimately show ?thesis by blast
qed

section \<open>Before\<close>

datatype Level = DebugLevel | InfoLevel | ErrorLevel

text \<open>The level and whether the caller is reported.\<close>

definition app_Before :: "string \<Rightarrow> go_error + Level \<times> bool" where
  "app_Before logLevel =
     (if logLevel = LogLevelDebug then Inr (DebugLevel, True)
      else if logLevel = LogLevelInfo then Inr (InfoLevel, False)
      else if logLevel = LogLevelError then Inr (ErrorLevel, False)
      else Inl (ErrMsg (''unsupported log level: '' @ logLevel)))"

section \<open>The geo databases\<close>

record geo_loader =
  geo_IPFilename :: string
  geo_SiteFilename :: string
  geo_LoadIP :: "string \<Rightarrow> files \<Rightarrow> go_error option \<times> files"
  geo_LoadSite :: "string \<Rightarrow> files \<Rightarrow> go_error option \<times> files"

definition forceRefreshGeoData :: "geo_loader \<Rightarrow> string \<Rightarrow> files \<Rightarrow> go_error option \<times> files" where
  "forceRefreshGeoData geo dataDir0 fs =
     (let dataDir = (if dataDir0 = '''' then DefaultDataDir else dataDir0)
      in case os_MkdirAll dataDir fs of
           (Some err, fs1) \<Rightarrow> (Some (ErrWrap ''failed to create data directory'' err), fs1)
         | (None, fs1) \<Rightarrow>
             (let fs2 = snd (os_Remove (Join2 dataDir (geo_IPFilename geo)) fs1);
                  fs3 = snd (os_Remove (Join2 dataDir (geo_SiteFilename geo)) fs2)
              in case geo_LoadIP geo dataDir fs3 of
                   (Some err, fs4) \<Rightarrow> (Some (ErrWrap ''failed to refresh geoip'' err), fs4)
                 | (None, fs4) \<Rightarrow>
                     (case geo_LoadSite geo dataDir fs4 of
                        (Some err, fs5) \<Rightarrow> (Some (ErrWrap ''failed to refresh geosite'' err), fs5)
                      | (None, fs5) \<Rightarrow> (None, fs5))))"

section \<open>The action\<close>

text \<open>When the signal comes, if it does: while \<open>Start\<close> is between the registration and the listeners,
  or while the node serves.\<close>

datatype signal = NoSignal | SignalEarly | SignalServing

record options =
  opt_refreshGeoData :: bool
  opt_certConfig :: CertConfig
  opt_NodeID :: int
  opt_aclConfPath :: string
  opt_dataDir :: string

definition shutdown :: "('o, 'r, 'c, 'u) world \<Rightarrow> 'r Server \<Rightarrow> 'r Server" where
  "shutdown w s = snd (Server_Close w s)"

text \<open>\<open>wg.Wait\<close> at the end of \<open>Start\<close>: an accept loop runs as long as its listener is open.\<close>

definition accepting :: "'r Server \<Rightarrow> bool" where
  "accepting s \<longleftrightarrow> (\<exists>ln \<in> set (sv_listeners s). ln \<notin> set (sv_closedListeners s))"

text \<open>
  What the action returns, \<open>None\<close> while it has not, and the server, if it got one. A signal is
  handled once: the goroutine that waits for it ends with its \<open>shutdown\<close>.
\<close>

definition app_Action ::
  "('o, 'r, 'c, 'u) world \<Rightarrow> geo_loader \<Rightarrow> options \<Rightarrow> PaddingFactory option \<Rightarrow> files \<Rightarrow> signal \<Rightarrow>
   go_error option option \<times> 'r Server option" where
  "app_Action w geo opts padding fs sig =
     (case (if opt_refreshGeoData opts then forceRefreshGeoData geo (opt_dataDir opts) fs else (None, fs)) of
        (Some err, fs1) \<Rightarrow> (Some (Some (ErrWrap ''failed to refresh geodata'' err)), None)
      | (None, fs1) \<Rightarrow>
          (case start_register w (Server_New (opt_certConfig opts) (opt_NodeID opts) (opt_aclConfPath opts) (opt_dataDir opts) padding fs1) of
             (Some err, s1) \<Rightarrow> (Some (Some err), Some (shutdown w s1))
           | (None, s1) \<Rightarrow>
               (case start_rest w (if sig = SignalEarly then shutdown w s1 else s1) of
                  (Some err, s2) \<Rightarrow> (Some (Some err), Some (shutdown w s2))
                | (None, s2) \<Rightarrow>
                    (let s3 = (if sig = SignalServing then shutdown w s2 else s2)
                     in if accepting s3 then (None, Some s3)
                        else (Some None, Some (shutdown w s3))))))"

section \<open>How the program ends\<close>

text \<open>A server that may be registered and has not been closed, and one that has been closed.\<close>

definition open_server :: "'r Server \<Rightarrow> bool" where
  "open_server s \<longleftrightarrow> \<not> sv_closeOnce s \<and> (sv_registerID s \<noteq> '''' \<longrightarrow> sv_apiClient s) \<and> unregistered (sv_calls s) = []"

definition closed_server :: "'r Server \<Rightarrow> bool" where
  "closed_server s \<longleftrightarrow> sv_closeOnce s \<and> sv_cancelled s \<and>
     unregistered (sv_calls s) = (if sv_registerID s = '''' then [] else [sv_registerID s])"

lemma start_register_open:
  "start_register w (Server_New cert n acl dir pad fs) = (r, s) \<Longrightarrow>
     open_server s \<and> sv_closedListeners s = [] \<and> sv_listeners s = []"
  using start_register_fresh [of w cert n acl dir pad fs r s] unregistered_none [of "sv_calls s"]
  by (simp add: open_server_def)

lemma unregistered_later: "c \<in> later_calls rid \<Longrightarrow> unregistered c = []"
  by (rule unregistered_none) (auto simp: later_calls_def)

lemma start_rest_inv:
  assumes "start_rest w s = (r, s')"
  shows "open_server s \<Longrightarrow> open_server s'" "closed_server s \<Longrightarrow> closed_server s'"
    "sv_closedListeners s' = sv_closedListeners s"
  using start_rest_keeps [OF assms] unregistered_later
  by (auto simp: open_server_def closed_server_def same_life_def)

lemma shutdown_open:
  assumes "open_server s"
  shows "closed_server (shutdown w s) \<and> \<not> accepting (shutdown w s)"
proof -
  have "\<not> sv_closeOnce s" using assms by (simp add: open_server_def)
  then obtain e where "shutdown w s = after_close w e s"
    using Server_Close_first [of s w] unfolding shutdown_def by (metis snd_conv)
  moreover have "unregistered (unregister_calls s) = (if sv_registerID s = '''' then [] else [sv_registerID s])"
    using assms by (simp add: unregister_calls_def open_server_def) (simp add: unregistered_def List.map_filter_simps)
  ultimately show ?thesis using assms by (simp add: closed_server_def open_server_def accepting_def after_close_def)
qed

lemma shutdown_closed: "closed_server s \<Longrightarrow> shutdown w s = s"
  by (simp add: closed_server_def shutdown_def Server_Close_again)

lemma start_rest_listens:
  assumes "start_rest w s = (None, s')" and "sv_anyTLS s = Some conf"
  shows "sv_listeners s' \<noteq> []"
proof -
  obtain b where "CertConfig_Load w (sv_certConfig s) = Inr b" using assms(1) by (auto simp: start_rest_def split: sum.splits)
  then obtain sx where "start_serving w (Some conf) sx = (None, s')"
    using assms by (auto simp: start_rest_def Let_def split: if_splits sum.splits)
  then obtain port where "listenDualStack w port = Inr (sv_listeners s')" using start_serving_ok by metis
  then show ?thesis by (auto simp: listenDualStack_ok Let_def split: if_splits)
qed

text \<open>A start that goes past the registration has the configuration.\<close>

lemma start_register_conf:
  assumes "start_register w (Server_New cert n acl dir pad fs) = (None, s)"
  shows "\<exists>conf. sv_anyTLS s = Some conf"
proof -
  obtain hostname port insecure rules where hc: "w_Hostname w = Inr hostname"
    "w_Config w = Inr (AnyTLSConfig port insecure rules)"
    using start_register_early [OF assms] by (cases "w_Hostname w") auto
  have "\<not> sv_cancelled (Server_New cert n acl dir pad fs)" by simp
  from start_register_result(11) [OF hc this assms] show ?thesis by simp
qed

lemma shutdown_listeners:
  "\<not> sv_closeOnce s \<Longrightarrow> sv_closedListeners (shutdown w s) = sv_closedListeners s @ sv_listeners s"
  using Server_Close_first [of s w] by (auto simp: shutdown_def after_close_def)

lemma shutdown_conf: "sv_anyTLS (shutdown w s) = sv_anyTLS s"
proof (cases "sv_closeOnce s")
  case True
  then show ?thesis by (simp add: shutdown_def Server_Close_again)
next
  case False
  then show ?thesis using Server_Close_first [OF False, of w] by (auto simp: shutdown_def after_close_def)
qed

text \<open>The action in terms of its three calls: what each returns, and the server after it.\<close>

lemma app_Action_phases:
  "\<exists>e0 fs1 r1 s1 r2 s2.
     start_register w (Server_New (opt_certConfig opts) (opt_NodeID opts) (opt_aclConfPath opts) (opt_dataDir opts) padding fs1) = (r1, s1) \<and>
     start_rest w (if sig = SignalEarly then shutdown w s1 else s1) = (r2, s2) \<and>
     app_Action w geo opts padding fs sig =
      (case e0 of
         Some err \<Rightarrow> (Some (Some (ErrWrap ''failed to refresh geodata'' err)), None)
       | None \<Rightarrow>
           (case r1 of
              Some err \<Rightarrow> (Some (Some err), Some (shutdown w s1))
            | None \<Rightarrow>
                (case r2 of
                   Some err \<Rightarrow> (Some (Some err), Some (shutdown w s2))
                 | None \<Rightarrow>
                     (let s3 = (if sig = SignalServing then shutdown w s2 else s2)
                      in if accepting s3 then (None, Some s3) else (Some None, Some (shutdown w s3))))))"
proof -
  obtain e0 fs1 where e0: "(if opt_refreshGeoData opts then forceRefreshGeoData geo (opt_dataDir opts) fs else (None, fs)) = (e0, fs1)"
    by fastforce
  let ?s0 = "Server_New (opt_certConfig opts) (opt_NodeID opts) (opt_aclConfPath opts) (opt_dataDir opts) padding fs1"
  obtain r1 s1 where r1: "start_register w ?s0 = (r1, s1)" by fastforce
  obtain r2 s2 where r2: "start_rest w (if sig = SignalEarly then shutdown w s1 else s1) = (r2, s2)" by fastforce
  show ?thesis
    by (rule exI [of _ e0], rule exI [of _ fs1], rule exI [of _ r1], rule exI [of _ s1], rule exI [of _ r2], rule exI [of _ s2],
        unfold app_Action_def e0 prod.case, cases e0; cases r1; cases r2)
      (simp_all only: option.case prod.case r1 r2 simp_thms)
qed

text \<open>A start that comes to its end accepts connections, even after an early signal.\<close>

lemma start_accepts:
  assumes reg: "start_register w (Server_New cert n acl dir pad fs) = (None, s1)"
    and rest: "start_rest w (if sig = SignalEarly then shutdown w s1 else s1) = (None, s2)"
  shows "accepting s2"
proof -
  have "\<exists>conf. sv_anyTLS s1 = Some conf" by (rule start_register_conf [OF reg])
  then obtain conf where "sv_anyTLS s1 = Some conf" by (elim exE) (rule that)
  then have "sv_anyTLS (if sig = SignalEarly then shutdown w s1 else s1) = Some conf" by (simp add: shutdown_conf)
  then have "sv_listeners s2 \<noteq> []" by (rule start_rest_listens [OF rest])
  moreover have "sv_closedListeners s2 = []"
    using start_rest_inv(3) [OF rest] start_register_open [OF reg] shutdown_listeners [of s1 w] by (auto simp: open_server_def)
  ultimately show ?thesis by (cases "sv_listeners s2") (auto simp: accepting_def)
qed

text \<open>How the program ends. If it is told to stop while it serves, it ends, without an error; it ends
  without an error in no other way, so a signal that comes before the listeners are there does
  not stop it. Whenever it ends, what the panel had registered has been unregistered, once, and
  but for such an early signal every listener is closed.\<close>

theorem program_end:
  "case app_Action w geo opts padding fs sig of (res, srv) \<Rightarrow>
     (sig = SignalServing \<longrightarrow> res \<noteq> None) \<and>
     (res = Some None \<longrightarrow> sig = SignalServing) \<and>
     (\<forall>s. res \<noteq> None \<and> srv = Some s \<longrightarrow>
        sv_cancelled s \<and> unregistered (sv_calls s) = (if sv_registerID s = '''' then [] else [sv_registerID s]) \<and>
        (sig \<noteq> SignalEarly \<longrightarrow> \<not> accepting s))"
proof -
  obtain e0 fs1 r1 s1 r2 s2 where
    r1: "start_register w (Server_New (opt_certConfig opts) (opt_NodeID opts) (opt_aclConfPath opts) (opt_dataDir opts) padding fs1) = (r1, s1)" and
    r2: "start_rest w (if sig = SignalEarly then shutdown w s1 else s1) = (r2, s2)" and
    run: "app_Action w geo opts padding fs sig =
      (case e0 of
         Some err \<Rightarrow> (Some (Some (ErrWrap ''failed to refresh geodata'' err)), None)
       | None \<Rightarrow>
           (case r1 of
              Some err \<Rightarrow> (Some (Some err), Some (shutdown w s1))
            | None \<Rightarrow>
                (case r2 of
                   Some err \<Rightarrow> (Some (Some err), Some (shutdown w s2))
                 | None \<Rightarrow>
                     (let s3 = (if sig = SignalServing then shutdown w s2 else s2)
                      in if accepting s3 then (None, Some s3) else (Some None, Some (shutdown w s3))))))"
    using app_Action_phases [of w opts padding sig geo fs] by (elim exE conjE) (rule that)
  note s1 = start_register_open [OF r1]
  have s2: "if sig = SignalEarly then closed_server s2 else open_server s2"
    using start_rest_inv [OF r2] s1 shutdown_open [of s1 w] by (auto split: if_splits)
  have end2: "closed_server (shutdown w s2)" "sig \<noteq> SignalEarly \<Longrightarrow> \<not> accepting (shutdown w s2)"
    using s2 shutdown_open [of s2 w] shutdown_closed [of s2 w] by (auto split: if_splits)
  show ?thesis
  proof (cases "e0 = None \<and> r1 = None \<and> r2 = None")
    case True
    then have "accepting s2" using start_accepts r1 r2 by blast
    then show ?thesis unfolding run using True end2 shutdown_closed [where w = w, OF end2(1)]
      by (auto simp: Let_def closed_server_def)
  next
    case False
    then show ?thesis unfolding run using end2 s1 shutdown_open [of s1 w]
      by (auto simp: closed_server_def split: option.split)
  qed
qed

definition demo_options :: options where
  "demo_options = \<lparr>opt_refreshGeoData = False, opt_certConfig = demo_cert, opt_NodeID = 3, opt_aclConfPath = '''', opt_dataDir = ''d''\<rparr>"

definition demo_geo :: geo_loader where
  "demo_geo = \<lparr>geo_IPFilename = ''geoip.db'', geo_SiteFilename = ''geosite.db'',
     geo_LoadIP = \<lambda>_ fs. (None, fs), geo_LoadSite = \<lambda>_ fs. (None, fs)\<rparr>"

theorem program_end_witness:
  "\<exists>e s. app_Action demo_world demo_geo demo_options None no_files SignalServing = (Some e, Some s) \<and>
     sv_registerID s = ''ab'' \<and> unregistered (sv_calls s) = [''ab''] \<and> \<not> accepting s"
proof -
  let ?run = "app_Action demo_world demo_geo demo_options None no_files"
  have w: "demo_world = demo_world\<lparr>w_LoadX509KeyPair := \<lambda>_ _. None\<rparr>" by (simp add: demo_world_def)
  obtain s1 where s1: "start_register demo_world (Server_New demo_cert 3 '''' ''d'' None no_files) = (None, s1)"
    "sv_registerID s1 = ''ab''" "sv_serviceRegisterID s1 = ''ab''" "sv_aclConfPath s1 = ''''"
    "sv_anyTLS s1 = Some (AnyTLSConfig 443 1 '''')" "sv_extConfig s1 = None"
    using demo_register [OF w] by (auto simp: demo_srv_def)
  obtain s2 where s2: "start_rest demo_world s1 = (None, s2)" using demo_rest [OF s1(3-6)] by blast
  have id2: "sv_registerID s2 = ''ab''" using start_rest_keeps [OF s2] s1(2) by (simp add: same_life_def)
  have id: "sv_registerID (shutdown demo_world s) = sv_registerID s" for s
    using Server_Close_first [of s demo_world]
    by (cases "sv_closeOnce s") (auto simp: shutdown_def after_close_def Server_Close_again)
  have "\<exists>r s. ?run SignalServing = (r, Some s) \<and> sv_registerID s = ''ab''"
    by (simp add: app_Action_def demo_options_def s1(1) s2 id id2 Let_def)
  then obtain r s where rs: "?run SignalServing = (r, Some s)" "sv_registerID s = ''ab''" by blast
  then show ?thesis
    using program_end [where w = demo_world and geo = demo_geo and opts = demo_options and padding = None
      and fs = no_files and sig = SignalServing] by (cases r) simp_all
qed

end
