(* ===== verification/Lifecycle.thy ===== *)
theory Lifecycle
  imports Program
begin

text \<open>
  The process as a concurrent program: the main goroutine in \<open>Start\<close> of
  \<open>internal/app/server/server.go\<close>, one step for every call that goes outside and every
  assignment the other goroutine can see, and the goroutine of \<open>cmd/server/main.go\<close> that waits
  for a signal and closes the server, at any moment. \<open>Close\<close> is stepped through too; whoever
  calls it second waits for the first (\<open>sync.Once\<close>). Reads and writes of the server's fields
  are sequentially consistent here, which the code, having no lock around them, only gets from
  a benign scheduler.
\<close>

section \<open>The main goroutine\<close>

text \<open>
  The point \<open>Start\<close> has reached, with the local variables it needs from there; then
  the accept loops, the deferred function of the action after a return and after a panic, and
  the end of the process with its exit status.
\<close>

datatype main_pc =
    PStart
  | PLoad string                       \<comment> \<open>hostname\<close>
  | PConfig string "State option"      \<comment> \<open>hostname, saved state\<close>
  | PVerify string int "State option"  \<comment> \<open>hostname, port, saved state\<close>
  | PClear string int
  | PRegister string int
  | PSave string string                \<comment> \<open>hostname, register id\<close>
  | PStore string
  | PCert
  | PAcl
  | PNewUsers
  | PCheck
  | PListen
  | PListening "nat list"
  | PPadding
  | PFetch
  | PHeartbeat
  | PWait
  | PDefer "go_error option"
  | PRecover
  | PExit nat

text \<open>A request of the user service runs under that service's own context.\<close>

definition under_users :: "'r Server \<Rightarrow> go_error + 'a \<Rightarrow> go_error + 'a" where
  "under_users s r = (if sv_usersClosed s then Inl (ErrMsg ''context canceled'') else r)"

definition in_Start :: "main_pc \<Rightarrow> bool" where
  "in_Start m \<longleftrightarrow> (case m of PWait \<Rightarrow> False | PDefer _ \<Rightarrow> False | PRecover \<Rightarrow> False | PExit _ \<Rightarrow> False | _ \<Rightarrow> True)"

fun main_step :: "('o, 'r, 'c, 'u) world \<Rightarrow> main_pc \<Rightarrow> 'r Server \<Rightarrow> main_pc \<times> 'r Server" where
  "main_step w PStart s =
     (case w_Hostname w of
        Inl err \<Rightarrow> (PDefer (Some (ErrWrap ''failed to get hostname'' err)), s\<lparr>sv_apiClient := True\<rparr>)
      | Inr hostname \<Rightarrow> (PLoad hostname, s\<lparr>sv_apiClient := True\<rparr>))"
| "main_step w (PLoad hostname) s =
     (case LoadState (w_json w) (sv_dataDir s) (sv_files s) of
        (loaded, fs) \<Rightarrow> (PConfig hostname (case loaded of Inl _ \<Rightarrow> None | Inr x \<Rightarrow> x), s\<lparr>sv_files := fs\<rparr>))"
| "main_step w (PConfig hostname saved) s =
     (case under_ctx s (w_Config w) of
        Inl err \<Rightarrow> (PDefer (Some (ErrWrap ''failed to get node config'' err)), call CallConfig s)
      | Inr OtherConfig \<Rightarrow> (PDefer (Some (ErrMsg ''unexpected node config type'')), call CallConfig s)
      | Inr (AnyTLSConfig port insecure rules) \<Rightarrow>
          (PVerify hostname port saved, (call CallConfig s)\<lparr>sv_anyTLS := Some (AnyTLSConfig port insecure rules)\<rparr>))"
| "main_step w (PVerify hostname port saved) s =
     (case saved of
        None \<Rightarrow> (PRegister hostname port, s)
      | Some st \<Rightarrow>
          if RegisterID st \<noteq> '''' \<and> NodeID st = sv_nodeID s then
            (case under_ctx s (w_Verify w (RegisterID st)) of
               Inl err \<Rightarrow> (PClear hostname port, call (CallVerify (RegisterID st)) s)
             | Inr isValid \<Rightarrow>
                 ((if isValid then PStore (RegisterID st) else PClear hostname port), call (CallVerify (RegisterID st)) s))
          else (PRegister hostname port, s))"
| "main_step w (PClear hostname port) s = (PRegister hostname port, clear_state s)"
| "main_step w (PRegister hostname port) s =
     (case under_ctx s (w_Register w hostname port) of
        Inl err \<Rightarrow> (PDefer (Some (ErrWrap ''failed to register node'' err)), call (CallRegister hostname port) s)
      | Inr registerID \<Rightarrow> (PSave hostname registerID, call (CallRegister hostname port) s))"
| "main_step w (PSave hostname registerID) s =
     (PStore registerID,
      s\<lparr>sv_files := snd (SaveState (w_json w) (sv_dataDir s)
          \<lparr>RegisterID = registerID, NodeID = sv_nodeID s, Hostname = hostname\<rparr> (sv_files s))\<rparr>)"
| "main_step w (PStore registerID) s = (PCert, s\<lparr>sv_registerID := registerID, sv_serviceRegisterID := registerID\<rparr>)"
| "main_step w PCert s =
     (case CertConfig_Load w (sv_certConfig s) of
        Inl err \<Rightarrow> (PDefer (Some (ErrWrap ''failed to load TLS config'' err)), s)
      | Inr tls \<Rightarrow> (PAcl, s\<lparr>sv_tls := Some tls\<rparr>))"
| "main_step w PAcl s =
     (if sv_aclConfPath s \<noteq> '''' then
        (case load_acl w (sv_aclConfPath s) of
           Inl err \<Rightarrow> (PDefer (Some err), s)
         | Inr c \<Rightarrow> (PNewUsers, s\<lparr>sv_extConfig := Some c\<rparr>))
      else (PNewUsers, s))"
| "main_step w PNewUsers s = (PCheck, s\<lparr>sv_userService := Some new_users\<rparr>)"
| "main_step w PCheck s =
     (case validateConfig (sv_anyTLS s) True (sv_tls s \<noteq> None) of
        Some err \<Rightarrow> (PDefer (Some (ErrWrap ''invalid configuration'' err)), s)
      | None \<Rightarrow>
          (let s1 = (if AllowInsecure (the (sv_anyTLS s)) = 1 then s\<lparr>sv_tls := Some True\<rparr> else s)
           in case buildOutbound (w_engine w) (sv_extConfig s1) of
                Inl err \<Rightarrow> (PDefer (Some (ErrWrap ''failed to build outbound'' err)), s1)
              | Inr r \<Rightarrow> (PListen, s1\<lparr>sv_outbound := Some r\<rparr>)))"
| "main_step w PListen s =
     (case listenDualStack w (ServerPort (the (sv_anyTLS s))) of
        Inl err \<Rightarrow> (PDefer (Some (ErrWrap ''failed to listen'' err)), s)
      | Inr listeners \<Rightarrow> (PListening listeners, s))"
| "main_step w (PListening listeners) s = (PPadding, s\<lparr>sv_listeners := listeners\<rparr>)"
| "main_step w PPadding s = (PFetch, start_padding w (PaddingRules (the (sv_anyTLS s))) s)"
| "main_step w PFetch s =
     (let s1 = (if sv_serviceRegisterID s = '''' then s else call (CallUsers (sv_serviceRegisterID s)) s)
      in case UsersService_init (w_sha256 w) (sv_serviceRegisterID s) (under_users s (w_Users w)) (the (sv_userService s)) of
           (Some err, us) \<Rightarrow> (PDefer (Some (ErrWrap ''failed to start user service'' err)), s1\<lparr>sv_userService := Some us\<rparr>)
         | (None, us) \<Rightarrow>
             (PHeartbeat,
              s1\<lparr>sv_userService := Some us, sv_tasks := sv_tasks s @ [TaskFetchUsers, TaskReportTraffics]\<rparr>))"
| "main_step w PHeartbeat s =
     (PWait, s\<lparr>sv_calls := sv_calls s @ HeartbeatTask (sv_serviceRegisterID s), sv_tasks := sv_tasks s @ [TaskHeartbeat]\<rparr>)"
| "main_step w m s = (m, s)"

section \<open>Close\<close>

datatype close_pc = KIdle | KUnregister | KClear | KCancel | KRange | KListeners "nat list" | KUsers | KDone

fun close_step :: "('o, 'r, 'c, 'u) world \<Rightarrow> close_pc \<Rightarrow> 'r Server \<Rightarrow> close_pc \<times> 'r Server" where
  "close_step w KUnregister s =
     (if sv_registerID s \<noteq> '''' \<and> sv_apiClient s then
        ((case w_Unregister w (sv_registerID s) of Some err \<Rightarrow> KCancel | None \<Rightarrow> KClear),
         call (CallUnregister (sv_registerID s)) s)
      else (KCancel, s))"
| "close_step w KClear s = (KCancel, clear_state s)"
| "close_step w KCancel s = (KRange, s\<lparr>sv_cancelled := True\<rparr>)"
| "close_step w KRange s = (KListeners (sv_listeners s), s)"
| "close_step w (KListeners (ln # lns)) s = (KListeners lns, close_listener w s ln)"
| "close_step w (KListeners []) s = (KUsers, s)"
| "close_step w KUsers s = (KDone, close_users s)"
| "close_step w k s = (k, s)"

definition closing :: "close_pc \<Rightarrow> bool" where
  "closing k \<longleftrightarrow> k \<noteq> KIdle \<and> k \<noteq> KDone"

section \<open>The process\<close>

text \<open>
  The goroutine of the signal, waiting, in its \<open>shutdown\<close> and gone. For the properties only, the
  points the main goroutine was at when \<open>Close\<close> read the register id and the listeners.
\<close>

datatype signal_pc = SigWaiting | SigClosing | SigDone

record 'r process =
  pr_srv :: "'r Server"
  pr_main :: main_pc
  pr_close :: close_pc
  pr_sig :: signal_pc
  g_looked :: "main_pc option"
  g_ranged :: "main_pc option"

definition is_exit :: "main_pc \<Rightarrow> bool" where
  "is_exit m \<longleftrightarrow> (case m of PExit _ \<Rightarrow> True | _ \<Rightarrow> False)"

definition in_defer :: "main_pc \<Rightarrow> bool" where
  "in_defer m \<longleftrightarrow> (case m of PDefer _ \<Rightarrow> True | PRecover \<Rightarrow> True | _ \<Rightarrow> False)"

definition exit_status :: "main_pc \<Rightarrow> nat" where
  "exit_status m = (case m of PDefer None \<Rightarrow> 0 | _ \<Rightarrow> 1)"

inductive life_step :: "('o, 'r, 'c, 'u) world \<Rightarrow> 'r process \<Rightarrow> 'r process \<Rightarrow> bool" for w where
  l_main: "in_Start (pr_main p) \<Longrightarrow> main_step w (pr_main p) (pr_srv p) = (m, s) \<Longrightarrow>
     life_step w p (p\<lparr>pr_main := m, pr_srv := s\<rparr>)"
| l_panic: "in_Start (pr_main p) \<Longrightarrow> life_step w p (p\<lparr>pr_main := PRecover\<rparr>)"
| l_served: "pr_main p = PWait \<Longrightarrow> \<not> accepting (pr_srv p) \<Longrightarrow> life_step w p (p\<lparr>pr_main := PDefer None\<rparr>)"
| l_signal: "\<not> is_exit (pr_main p) \<Longrightarrow> pr_sig p = SigWaiting \<Longrightarrow> life_step w p (p\<lparr>pr_sig := SigClosing\<rparr>)"
| l_begin: "pr_sig p = SigClosing \<or> in_defer (pr_main p) \<Longrightarrow> \<not> is_exit (pr_main p) \<Longrightarrow> pr_close p = KIdle \<Longrightarrow>
     life_step w p (p\<lparr>pr_close := KUnregister, pr_srv := (pr_srv p)\<lparr>sv_closeOnce := True\<rparr>\<rparr>)"
| l_close: "\<not> is_exit (pr_main p) \<Longrightarrow> closing (pr_close p) \<Longrightarrow> close_step w (pr_close p) (pr_srv p) = (k, s) \<Longrightarrow>
     life_step w p (p\<lparr>pr_close := k, pr_srv := s,
       g_looked := (if pr_close p = KUnregister then Some (pr_main p) else g_looked p),
       g_ranged := (if pr_close p = KRange then Some (pr_main p) else g_ranged p)\<rparr>)"
| l_sig_done: "\<not> is_exit (pr_main p) \<Longrightarrow> pr_sig p = SigClosing \<Longrightarrow> pr_close p = KDone \<Longrightarrow>
     life_step w p (p\<lparr>pr_sig := SigDone\<rparr>)"
| l_exit: "in_defer (pr_main p) \<Longrightarrow> pr_close p = KDone \<Longrightarrow>
     life_step w p (p\<lparr>pr_main := PExit (exit_status (pr_main p))\<rparr>)"

definition process_init :: "'r Server \<Rightarrow> 'r process" where
  "process_init s = \<lparr>pr_srv = s, pr_main = PStart, pr_close = KIdle, pr_sig = SigWaiting, g_looked = None, g_ranged = None\<rparr>"

text \<open>A process is made by \<open>New\<close>.\<close>

inductive life_reach :: "('o, 'r, 'c, 'u) world \<Rightarrow> 'r process \<Rightarrow> bool" for w where
  life_init: "life_reach w (process_init (Server_New cert n acl dir pad fs))"
| life_more: "life_reach w p \<Longrightarrow> life_step w p p' \<Longrightarrow> life_reach w p'"

inductive_cases life_stepE: "life_step w p p'"

section \<open>Start run on its own\<close>

text \<open>The main goroutine with nobody interfering.\<close>

definition main_rel :: "('o, 'r, 'c, 'u) world \<Rightarrow> main_pc \<times> 'r Server \<Rightarrow> main_pc \<times> 'r Server \<Rightarrow> bool" where
  "main_rel w x y \<longleftrightarrow> in_Start (fst x) \<and> main_step w (fst x) (snd x) = y"

definition after_Start :: "go_error option \<times> 'r Server \<Rightarrow> main_pc \<times> 'r Server" where
  "after_Start x = ((case fst x of None \<Rightarrow> PWait | Some err \<Rightarrow> PDefer (Some err)), snd x)"

lemma main_into: "in_Start m \<Longrightarrow> (main_rel w)\<^sup>*\<^sup>* (main_step w m s) y \<Longrightarrow> (main_rel w)\<^sup>*\<^sup>* (m, s) y"
  by (rule converse_rtranclp_into_rtranclp [of _ _ "main_step w m s"]) (simp_all add: main_rel_def)

lemma main_stop: "x = y \<Longrightarrow> (main_rel w)\<^sup>*\<^sup>* x y"
  by simp

lemma fetch_alone:
  assumes "\<not> sv_usersClosed s" and "sv_userService s = Some us"
  shows "(main_rel w)\<^sup>*\<^sup>* (PFetch, s) (after_Start (start_users w us s))"
proof -
  obtain e us1 where init: "UsersService_init (w_sha256 w) (sv_serviceRegisterID s) (w_Users w) us = (e, us1)" by fastforce
  show ?thesis
  proof (cases e)
    case (Some err)
    show ?thesis
      by (rule main_into, simp add: in_Start_def, rule main_stop)
        (simp add: assms init Some under_users_def start_users_def UsersService_Start_def HeartbeatTask_def after_Start_def call_def Let_def)
  next
    case None
    then have rid: "sv_serviceRegisterID s \<noteq> ''''" using init by (auto simp: UsersService_init_def)
    show ?thesis
      by (rule main_into, simp add: in_Start_def)
        (simp add: assms init None rid under_users_def Let_def,
         rule main_into, simp add: in_Start_def, rule main_stop,
         simp add: assms init None rid start_users_def UsersService_Start_def HeartbeatTask_def after_Start_def call_def Let_def)
  qed
qed

lemma listen_alone:
  assumes "listenDualStack w (ServerPort (the (sv_anyTLS t))) = Inr ls"
    and "\<not> sv_usersClosed t" and "sv_userService t = Some us"
  shows "(main_rel w)\<^sup>*\<^sup>* (PListen, t)
    (after_Start (start_users w us (start_padding w (PaddingRules (the (sv_anyTLS t))) (t\<lparr>sv_listeners := ls\<rparr>))))"
proof -
  let ?t = "start_padding w (PaddingRules (the (sv_anyTLS t))) (t\<lparr>sv_listeners := ls\<rparr>)"
  have "(main_rel w)\<^sup>*\<^sup>* (PFetch, ?t) (after_Start (start_users w us ?t))"
    by (rule fetch_alone) (use assms(2,3) in \<open>simp_all add: start_padding_def\<close>)
  then have "(main_rel w)\<^sup>*\<^sup>* (PPadding, t\<lparr>sv_listeners := ls\<rparr>) (after_Start (start_users w us ?t))"
    by (intro main_into [of PPadding]) (simp_all add: in_Start_def)
  then have "(main_rel w)\<^sup>*\<^sup>* (PListening ls, t) (after_Start (start_users w us ?t))"
    by (intro main_into [of "PListening ls"]) (simp_all add: in_Start_def)
  then show ?thesis
    by (intro main_into [of PListen]) (simp_all add: in_Start_def assms(1))
qed

lemma serving_alone:
  assumes "\<not> sv_usersClosed s" and "sv_userService s = Some new_users"
  shows "(main_rel w)\<^sup>*\<^sup>* (PCheck, s) (after_Start (start_serving w (sv_anyTLS s) s))"
proof -
  let ?conf = "sv_anyTLS s"
  let ?s1 = "if AllowInsecure (the ?conf) = 1 then s\<lparr>sv_tls := Some True\<rparr> else s"
  have s1: "\<not> sv_usersClosed ?s1" "sv_userService ?s1 = Some new_users" "sv_anyTLS ?s1 = ?conf"
    using assms by simp_all
  show ?thesis
  proof (cases "validateConfig ?conf True (sv_tls s \<noteq> None)")
    case (Some err)
    show ?thesis
      by (rule main_into, simp add: in_Start_def, rule main_stop)
        (simp only: main_step.simps start_serving_def Some option.case after_Start_def prod.sel)
  next
    case valid: None
    show ?thesis
    proof (cases "buildOutbound (w_engine w) (sv_extConfig ?s1)")
      case (Inl err)
      show ?thesis
        by (rule main_into, simp add: in_Start_def, rule main_stop)
          (simp only: main_step.simps start_serving_def valid Inl option.case sum.case after_Start_def prod.sel Let_def)
    next
      case rt: (Inr rt)
      have check: "main_step w PCheck s = (PListen, ?s1\<lparr>sv_outbound := Some rt\<rparr>)"
        by (simp only: main_step.simps valid rt option.case sum.case Let_def)
      show ?thesis
      proof (cases "listenDualStack w (ServerPort (the ?conf))")
        case (Inl err)
        have "start_serving w ?conf s = (Some (ErrWrap ''failed to listen'' err), ?s1\<lparr>sv_outbound := Some rt\<rparr>)"
          by (simp only: start_serving_def valid rt Inl option.case sum.case Let_def)
        then have "main_step w PListen (?s1\<lparr>sv_outbound := Some rt\<rparr>) =
            after_Start (start_serving w ?conf s)"
          by (simp add: Inl after_Start_def)
        then show ?thesis
          by (intro main_into [of PCheck], simp add: in_Start_def, subst check)
            (rule main_into, simp add: in_Start_def, rule main_stop)
      next
        case ls: (Inr ls)
        let ?s2 = "start_padding w (PaddingRules (the ?conf)) (?s1\<lparr>sv_outbound := Some rt, sv_listeners := ls\<rparr>)"
        have serve: "start_serving w ?conf s = start_users w new_users ?s2"
          by (simp only: start_serving_def valid rt ls option.case sum.case Let_def)
        have "(main_rel w)\<^sup>*\<^sup>* (PListen, ?s1\<lparr>sv_outbound := Some rt\<rparr>) (after_Start (start_users w new_users ?s2))"
          using listen_alone [of w "?s1\<lparr>sv_outbound := Some rt\<rparr>" ls new_users] ls s1 by simp
        then show ?thesis
          unfolding serve by (intro main_into [of PCheck]) (simp_all only: check, simp add: in_Start_def)
      qed
    qed
  qed
qed

lemma rest_alone:
  assumes "\<not> sv_usersClosed s"
  shows "(main_rel w)\<^sup>*\<^sup>* (PCert, s) (after_Start (start_rest w s))"
proof (cases "CertConfig_Load w (sv_certConfig s)")
  case (Inl err)
  show ?thesis
    by (rule main_into, simp add: in_Start_def, rule main_stop) (simp add: Inl start_rest_def after_Start_def)
next
  case tls: (Inr tls)
  have serve: "(main_rel w)\<^sup>*\<^sup>* (PNewUsers, u) (after_Start (start_serving w (sv_anyTLS u) (u\<lparr>sv_userService := Some new_users\<rparr>)))"
    if "\<not> sv_usersClosed u" for u
    using serving_alone [of "u\<lparr>sv_userService := Some new_users\<rparr>" w] that
    by (intro main_into [of PNewUsers]) (simp_all add: in_Start_def)
  show ?thesis
  proof (cases "sv_aclConfPath s = ''''")
    case True
    then show ?thesis
      using serve [of "s\<lparr>sv_tls := Some tls\<rparr>"] assms
      by (intro main_into [of PCert], simp add: in_Start_def)
        (simp add: tls, rule main_into, simp add: in_Start_def, simp add: start_rest_def tls)
  next
    case acl: False
    show ?thesis
    proof (cases "load_acl w (sv_aclConfPath s)")
      case (Inl err)
      then show ?thesis using acl
        by (intro main_into [of PCert], simp add: in_Start_def)
          (simp add: tls, rule main_into, simp add: in_Start_def, rule main_stop, simp add: start_rest_def tls after_Start_def)
    next
      case (Inr c)
      then show ?thesis
        using serve [of "s\<lparr>sv_tls := Some tls, sv_extConfig := Some c\<rparr>"] assms acl
        by (intro main_into [of PCert], simp add: in_Start_def)
          (simp add: tls, rule main_into, simp add: in_Start_def, simp add: start_rest_def tls)
    qed
  qed
qed

lemma save_alone:
  assumes "under_ctx s (w_Register w hostname port) = Inr rid" and "\<not> sv_usersClosed s"
    and "register_new w hostname port s = (Inr rid, s1)"
  shows "(main_rel w)\<^sup>*\<^sup>* (PRegister hostname port, s)
    (after_Start (start_rest w (s1\<lparr>sv_registerID := rid, sv_serviceRegisterID := rid\<rparr>)))"
proof -
  let ?s2 = "s1\<lparr>sv_registerID := rid, sv_serviceRegisterID := rid\<rparr>"
  have s1: "s1 = (call (CallRegister hostname port) s)\<lparr>sv_files := snd (SaveState (w_json w) (sv_dataDir s)
      \<lparr>RegisterID = rid, NodeID = sv_nodeID s, Hostname = hostname\<rparr> (sv_files s))\<rparr>"
    using assms(1,3) by (auto simp: register_new_def call_def Let_def)
  have "\<not> sv_usersClosed ?s2" using assms(2) by (simp add: s1 call_def)
  from rest_alone [OF this] have "(main_rel w)\<^sup>*\<^sup>* (PStore rid, s1) (after_Start (start_rest w ?s2))"
    by (intro main_into [of "PStore rid"]) (simp_all add: in_Start_def)
  then have "(main_rel w)\<^sup>*\<^sup>* (PSave hostname rid, call (CallRegister hostname port) s) (after_Start (start_rest w ?s2))"
    by (intro main_into [of "PSave hostname rid"]) (simp_all add: in_Start_def s1 call_def)
  then show ?thesis
    by (intro main_into [of "PRegister hostname port"]) (simp_all add: in_Start_def assms(1))
qed

lemma register_alone:
  assumes "\<not> sv_usersClosed s"
  shows "(main_rel w)\<^sup>*\<^sup>* (PRegister hostname port, s)
    (after_Start (case register_new w hostname port s of
       (Inl err, s1) \<Rightarrow> (Some err, s1)
     | (Inr rid, s1) \<Rightarrow> start_rest w (s1\<lparr>sv_registerID := rid, sv_serviceRegisterID := rid\<rparr>)))"
proof (cases "under_ctx s (w_Register w hostname port)")
  case (Inl err)
  then show ?thesis
    by (intro main_into [of "PRegister hostname port"] main_stop)
      (simp_all add: in_Start_def register_new_def after_Start_def Let_def)
next
  case (Inr rid)
  then obtain s1 where "register_new w hostname port s = (Inr rid, s1)" by (simp add: register_new_def Let_def)
  then show ?thesis using save_alone [OF Inr assms] by simp
qed

lemma verify_alone:
  assumes "\<not> sv_usersClosed s" and reuse: "reuse_saved w saved s = (rid, s1)"
  shows "(main_rel w)\<^sup>*\<^sup>* (PVerify hostname port saved, s)
    (after_Start (if rid \<noteq> '''' then start_rest w (s1\<lparr>sv_registerID := rid, sv_serviceRegisterID := rid\<rparr>)
       else (case register_new w hostname port s1 of
               (Inl err, s2) \<Rightarrow> (Some err, s2)
             | (Inr i, s2) \<Rightarrow> start_rest w (s2\<lparr>sv_registerID := i, sv_serviceRegisterID := i\<rparr>))))"
proof -
  have open1: "\<not> sv_usersClosed s1"
    using assms by (auto simp: reuse_saved_def call_def clear_state_def split: option.splits if_splits sum.splits)
  note new = register_alone [OF open1, of w hostname port]
  consider (plain) "rid = ''''" "s1 = s" "main_step w (PVerify hostname port saved) s = (PRegister hostname port, s)"
    | (keep) "rid \<noteq> ''''" "main_step w (PVerify hostname port saved) s = (PStore rid, s1)"
    | (drop) u where "rid = ''''" "s1 = clear_state u" "main_step w (PVerify hostname port saved) s = (PClear hostname port, u)"
    using reuse by (auto simp: reuse_saved_def split: option.splits if_splits sum.splits)
  then show ?thesis
  proof cases
    case plain
    then show ?thesis using new
      by (intro main_into [of "PVerify hostname port saved"]) (simp_all only: in_Start_def main_pc.case simp_thms if_False)
  next
    case keep
    have "\<not> sv_usersClosed (s1\<lparr>sv_registerID := rid, sv_serviceRegisterID := rid\<rparr>)" using open1 by simp
    from rest_alone [OF this, of w] have "(main_rel w)\<^sup>*\<^sup>* (PStore rid, s1)
        (after_Start (start_rest w (s1\<lparr>sv_registerID := rid, sv_serviceRegisterID := rid\<rparr>)))"
      by (intro main_into [of "PStore rid"]) (simp_all add: in_Start_def)
    then show ?thesis using keep
      by (intro main_into [of "PVerify hostname port saved"]) (simp_all only: in_Start_def main_pc.case simp_thms if_True)
  next
    case (drop u)
    have "(main_rel w)\<^sup>*\<^sup>* (PClear hostname port, u) y" if "(main_rel w)\<^sup>*\<^sup>* (PRegister hostname port, s1) y" for y
      using that drop(2) by (intro main_into [of "PClear hostname port"]) (simp_all add: in_Start_def)
    from this [OF new] show ?thesis using drop(1,3)
      by (intro main_into [of "PVerify hostname port saved"]) (simp_all only: in_Start_def main_pc.case simp_thms if_False)
  qed
qed

text \<open>All of \<open>Start\<close>: undisturbed, the main goroutine does what \<open>Server_Start\<close> says.\<close>

lemma start_alone:
  assumes "\<not> sv_usersClosed s"
  shows "(main_rel w)\<^sup>*\<^sup>* (PStart, s) (after_Start (Server_Start w s))"
proof (cases "w_Hostname w")
  case (Inl err)
  then show ?thesis
    by (intro main_into [of PStart] main_stop)
      (simp_all add: in_Start_def Server_Start_def start_register_def after_Start_def)
next
  case host: (Inr hostname)
  obtain loaded fs where load: "LoadState (w_json w) (sv_dataDir s) (sv_files s) = (loaded, fs)" by fastforce
  let ?saved = "case loaded of Inl _ \<Rightarrow> None | Inr x \<Rightarrow> x"
  let ?s1 = "s\<lparr>sv_apiClient := True, sv_files := fs\<rparr>"
  have into: "(main_rel w)\<^sup>*\<^sup>* (PStart, s) y" if "(main_rel w)\<^sup>*\<^sup>* (PConfig hostname ?saved, ?s1) y" for y
  proof -
    have "(main_rel w)\<^sup>*\<^sup>* (PLoad hostname, s\<lparr>sv_apiClient := True\<rparr>) y"
      using that by (intro main_into [of "PLoad hostname"]) (simp_all add: in_Start_def load)
    then show ?thesis by (intro main_into [of PStart]) (simp_all add: in_Start_def host)
  qed
  have ctx: "under_ctx ?s1 x = under_ctx s x" for x :: "go_error + NodeConfig" by (simp add: under_ctx_def)
  show ?thesis
  proof (cases "\<exists>port insecure rules. under_ctx s (w_Config w) = Inr (AnyTLSConfig port insecure rules)")
    case False
    have "main_step w (PConfig hostname ?saved) ?s1 = after_Start (Server_Start w s)"
      using False by (auto simp: ctx Server_Start_def start_register_def host load after_Start_def call_def Let_def
          split: sum.split NodeConfig.split)
    then show ?thesis by (intro into main_into [of "PConfig hostname ?saved"]) (simp_all add: in_Start_def)
  next
    case True
    then obtain port insecure rules where conf: "under_ctx s (w_Config w) = Inr (AnyTLSConfig port insecure rules)" by blast
    let ?s2 = "(call CallConfig ?s1)\<lparr>sv_anyTLS := Some (AnyTLSConfig port insecure rules)\<rparr>"
    obtain rid s3 where reuse: "reuse_saved w ?saved ?s2 = (rid, s3)" by fastforce
    obtain r s4 where reg: "register_new w hostname port s3 = (r, s4)" by fastforce
    have whole: "Server_Start w s =
        (if rid \<noteq> '''' then start_rest w (s3\<lparr>sv_registerID := rid, sv_serviceRegisterID := rid\<rparr>)
         else (case (r, s4) of
                 (Inl err, s2) \<Rightarrow> (Some err, s2)
               | (Inr i, s2) \<Rightarrow> start_rest w (s2\<lparr>sv_registerID := i, sv_serviceRegisterID := i\<rparr>)))"
      by (cases r) (simp_all add: Server_Start_def start_register_def host load conf reuse reg Let_def)
    have "\<not> sv_usersClosed ?s2" using assms by (simp add: call_def)
    from verify_alone [OF this reuse, of hostname port]
    have "(main_rel w)\<^sup>*\<^sup>* (PVerify hostname port ?saved, ?s2) (after_Start (Server_Start w s))"
      by (simp only: whole reg)
    then show ?thesis
      by (intro into main_into [of "PConfig hostname ?saved"]) (simp_all add: in_Start_def ctx conf)
  qed
qed

section \<open>What a step changes\<close>

text \<open>Before the register id is stored, and before the listeners are.\<close>

definition before_id :: "main_pc \<Rightarrow> bool" where
  "before_id m \<longleftrightarrow>
     (case m of PStart \<Rightarrow> True | PLoad _ \<Rightarrow> True | PConfig _ _ \<Rightarrow> True | PVerify _ _ _ \<Rightarrow> True | PClear _ _ \<Rightarrow> True
      | PRegister _ _ \<Rightarrow> True | PSave _ _ \<Rightarrow> True | PStore _ \<Rightarrow> True | _ \<Rightarrow> False)"

definition before_listeners :: "main_pc \<Rightarrow> bool" where
  "before_listeners m \<longleftrightarrow>
     before_id m \<or>
     (case m of PCert \<Rightarrow> True | PAcl \<Rightarrow> True | PNewUsers \<Rightarrow> True | PCheck \<Rightarrow> True | PListen \<Rightarrow> True
      | PListening _ \<Rightarrow> True | _ \<Rightarrow> False)"

lemmas pc_defs = in_Start_def before_id_def before_listeners_def is_exit_def in_defer_def

lemma pc_ends [simp]:
  "\<not> before_id PWait" "\<not> before_id (PDefer r)" "\<not> before_id PRecover" "\<not> before_id (PExit n)"
  "\<not> before_listeners PWait" "\<not> before_listeners (PDefer r)" "\<not> before_listeners PRecover" "\<not> before_listeners (PExit n)"
  by (simp_all add: pc_defs)

lemma call_fields [simp]:
  "sv_registerID (call a s) = sv_registerID s" "sv_listeners (call a s) = sv_listeners s"
  "sv_cancelled (call a s) = sv_cancelled s" "sv_closedListeners (call a s) = sv_closedListeners s"
  "sv_apiClient (call a s) = sv_apiClient s" "sv_calls (call a s) = sv_calls s @ [a]"
  "sv_closeOnce (call a s) = sv_closeOnce s" "sv_userService (call a s) = sv_userService s"
  by (simp_all add: call_def)

lemma clear_state_fields [simp]:
  "sv_registerID (clear_state s) = sv_registerID s" "sv_listeners (clear_state s) = sv_listeners s"
  "sv_cancelled (clear_state s) = sv_cancelled s" "sv_closedListeners (clear_state s) = sv_closedListeners s"
  "sv_apiClient (clear_state s) = sv_apiClient s" "sv_calls (clear_state s) = sv_calls s"
  "sv_closeOnce (clear_state s) = sv_closeOnce s"
  by (simp_all add: clear_state_def)

lemma close_users_fields [simp]:
  "sv_registerID (close_users s) = sv_registerID s" "sv_listeners (close_users s) = sv_listeners s"
  "sv_cancelled (close_users s) = sv_cancelled s" "sv_closedListeners (close_users s) = sv_closedListeners s"
  "sv_apiClient (close_users s) = sv_apiClient s" "sv_calls (close_users s) = sv_calls s"
  by (simp_all add: close_users_eq)

lemma unregistered_heartbeat [simp]: "unregistered (HeartbeatTask i) = []"
  by (simp add: HeartbeatTask_def unregistered_def List.map_filter_simps)

lemma start_padding_fields [simp]:
  "sv_registerID (start_padding w r s) = sv_registerID s" "sv_listeners (start_padding w r s) = sv_listeners s"
  "sv_cancelled (start_padding w r s) = sv_cancelled s" "sv_closedListeners (start_padding w r s) = sv_closedListeners s"
  "sv_apiClient (start_padding w r s) = sv_apiClient s" "sv_calls (start_padding w r s) = sv_calls s"
  "sv_closeOnce (start_padding w r s) = sv_closeOnce s"
  by (simp_all add: start_padding_def)

lemma unregistered_single [simp]:
  "unregistered [CallConfig] = []" "unregistered [CallVerify i] = []" "unregistered [CallRegister h q] = []"
  "unregistered [CallUsers i] = []" "unregistered [CallHeartbeat i] = []" "unregistered [CallUnregister i] = [i]"
  "unregistered [] = []"
  by (simp_all add: unregistered_def List.map_filter_simps)

text \<open>The main goroutine leaves to \<open>Close\<close> what is its.\<close>

lemma main_step_frame:
  assumes "main_step w m s = (m', s')" and "in_Start m"
  shows "sv_cancelled s' = sv_cancelled s" "sv_closedListeners s' = sv_closedListeners s"
    "sv_closeOnce s' = sv_closeOnce s" "unregistered (sv_calls s') = unregistered (sv_calls s)" "\<not> is_exit m'"
    "set (sv_calls s) \<subseteq> set (sv_calls s')"
  using assms
  by (cases m; auto simp: pc_defs Let_def split: sum.splits prod.splits option.splits NodeConfig.splits if_splits)+

text \<open>It stores the id once and the listeners once.\<close>

lemma main_step_id:
  assumes "main_step w m s = (m', s')" and "in_Start m"
  shows "before_id m' \<Longrightarrow> before_id m" "before_id m' \<or> \<not> before_id m \<Longrightarrow> sv_registerID s' = sv_registerID s"
    "sv_apiClient s \<or> m = PStart \<Longrightarrow> sv_apiClient s'" "m' \<noteq> PStart"
  using assms
  by (cases m; auto simp: pc_defs Let_def split: sum.splits prod.splits option.splits NodeConfig.splits if_splits)+

lemma main_step_listeners:
  assumes "main_step w m s = (m', s')" and "in_Start m"
  shows "before_listeners m' \<Longrightarrow> before_listeners m"
    "before_listeners m' \<or> \<not> before_listeners m \<Longrightarrow> sv_listeners s' = sv_listeners s"
  using assms
  by (cases m; auto simp: pc_defs Let_def split: sum.splits prod.splits option.splits NodeConfig.splits if_splits)+

lemma close_listener_fields:
  "sv_registerID (close_listener w s ln) = sv_registerID s \<and> sv_listeners (close_listener w s ln) = sv_listeners s \<and>
   sv_cancelled (close_listener w s ln) = sv_cancelled s \<and> sv_apiClient (close_listener w s ln) = sv_apiClient s \<and>
   sv_closedListeners (close_listener w s ln) = sv_closedListeners s @ [ln] \<and>
   sv_calls (close_listener w s ln) = sv_calls s \<and> sv_closeOnce (close_listener w s ln) = sv_closeOnce s"
  by (simp add: close_listener_def Let_def split: option.split)

text \<open>\<open>Close\<close> leaves the id, the client and the listeners to the main goroutine.\<close>

lemma close_step_frame:
  assumes "close_step w k s = (k', s')" and "closing k"
  shows "sv_registerID s' = sv_registerID s" "sv_listeners s' = sv_listeners s" "sv_apiClient s' = sv_apiClient s"
    "set (sv_calls s) \<subseteq> set (sv_calls s')"
    "k \<noteq> KUnregister \<Longrightarrow> sv_calls s' = sv_calls s"
    "k = KUnregister \<Longrightarrow> unregistered (sv_calls s') = unregistered (sv_calls s) @
       (if sv_registerID s \<noteq> '''' \<and> sv_apiClient s then [sv_registerID s] else [])"
  using assms close_listener_fields [where w = w and s = s]
  by (cases k; (cases "case k of KListeners lns \<Rightarrow> lns | _ \<Rightarrow> []")?; auto simp: closing_def split: if_splits option.splits)+

lemma close_step_next: "closing k \<Longrightarrow> close_step w k s = (k', s') \<Longrightarrow> k' \<noteq> KIdle \<and> k' \<noteq> KUnregister"
  by (cases k; (cases "case k of KListeners lns \<Rightarrow> lns | _ \<Rightarrow> []")?)
    (auto simp: closing_def split: if_splits option.splits)

section \<open>Invariant\<close>

text \<open>
  How far \<open>Close\<close> is shows in the server: the id it looked at is unregistered unless it looked
  too early, the listeners it found are closed one after the other.
\<close>

definition id_inv :: "'r process \<Rightarrow> bool" where
  "id_inv p \<longleftrightarrow>
     (before_id (pr_main p) \<longrightarrow> sv_registerID (pr_srv p) = '''') \<and>
     (sv_registerID (pr_srv p) \<noteq> '''' \<or> before_id (pr_main p) \<and> pr_main p \<noteq> PStart \<longrightarrow> sv_apiClient (pr_srv p)) \<and>
     (g_looked p = None \<longleftrightarrow> pr_close p = KIdle \<or> pr_close p = KUnregister) \<and>
     (case g_looked p of
        None \<Rightarrow> unregistered (sv_calls (pr_srv p)) = []
      | Some m \<Rightarrow> (before_id m \<or> \<not> before_id (pr_main p)) \<and>
          unregistered (sv_calls (pr_srv p)) =
            (if before_id m \<or> sv_registerID (pr_srv p) = '''' then [] else [sv_registerID (pr_srv p)]))"

definition to_close :: "'r process \<Rightarrow> nat list" where
  "to_close p = (case g_ranged p of Some m \<Rightarrow> if before_listeners m then [] else sv_listeners (pr_srv p) | None \<Rightarrow> [])"

definition listener_inv :: "'r process \<Rightarrow> bool" where
  "listener_inv p \<longleftrightarrow>
     (before_listeners (pr_main p) \<longrightarrow> sv_listeners (pr_srv p) = []) \<and>
     (g_ranged p \<noteq> None \<longleftrightarrow> pr_close p = KUsers \<or> pr_close p = KDone \<or> (\<exists>lns. pr_close p = KListeners lns)) \<and>
     (\<forall>m. g_ranged p = Some m \<longrightarrow> before_listeners m \<or> \<not> before_listeners (pr_main p)) \<and>
     to_close p = sv_closedListeners (pr_srv p) @ (case pr_close p of KListeners lns \<Rightarrow> lns | _ \<Rightarrow> [])"

definition end_inv :: "'r process \<Rightarrow> bool" where
  "end_inv p \<longleftrightarrow>
     (sv_cancelled (pr_srv p) \<longleftrightarrow> \<not> (pr_close p \<in> {KIdle, KUnregister, KClear, KCancel})) \<and>
     (is_exit (pr_main p) \<longrightarrow> pr_close p = KDone) \<and> (pr_sig p = SigDone \<longrightarrow> pr_close p = KDone)"

lemma id_inv_step:
  assumes "life_step w p p'" and "id_inv p"
  shows "id_inv p'"
  using assms(1)
proof (cases rule: life_step.cases)
  case (l_main m s)
  note frame = main_step_frame(4) [OF l_main(3,2)] and step = main_step_id [OF l_main(3,2)]
  have id: "before_id m \<or> \<not> before_id (pr_main p) \<Longrightarrow> sv_registerID s = sv_registerID (pr_srv p)"
    by (rule step(2))
  have a: "before_id m \<longrightarrow> sv_registerID s = ''''"
    using assms(2) step(1) id by (auto simp: id_inv_def)
  have b: "sv_registerID s \<noteq> '''' \<or> before_id m \<and> m \<noteq> PStart \<longrightarrow> sv_apiClient s"
    using assms(2) step(1,3) id by (cases "before_id (pr_main p)"; cases "pr_main p = PStart") (auto simp: id_inv_def)
  have c: "unregistered (sv_calls s) = (if before_id n \<or> sv_registerID s = '''' then [] else [sv_registerID s])"
    if "g_looked p = Some n" for n
    using assms(2) that id by (auto simp: id_inv_def frame)
  show ?thesis using assms(2) a b c step(1) unfolding l_main(1)
    by (auto simp: id_inv_def frame split: option.split)
next
  case (l_close k s)
  note facts = close_step_frame [OF l_close(4,3)]
  have start: "pr_main p = PStart \<Longrightarrow> before_id (pr_main p)" by (simp add: before_id_def)
  have next_pc: "k \<noteq> KIdle \<and> k \<noteq> KUnregister"
    using l_close(3,4) by (rule close_step_next)
  show ?thesis
  proof (cases "pr_close p = KUnregister")
    case True
    then show ?thesis using assms(2) facts(1-3) facts(6) [OF True] next_pc start unfolding l_close(1) id_inv_def
      by auto
  next
    case False
    have "pr_close p \<noteq> KIdle" using l_close(3) by (simp add: closing_def)
    then show ?thesis using assms(2) facts(1-3) facts(5) [OF False] next_pc False unfolding l_close(1) id_inv_def
      by auto
  qed
qed (use assms(2) in \<open>auto simp: id_inv_def split: option.splits\<close>)

text \<open>The steps of \<open>Close\<close> over the listeners.\<close>

lemma close_step_closed:
  assumes "close_step w k s = (k', s')" and "closing k" and "k \<noteq> KRange"
  shows "(\<exists>lns. k = KListeners lns) \<or> k = KUsers \<longleftrightarrow> k' = KUsers \<or> k' = KDone \<or> (\<exists>lns. k' = KListeners lns)"
    "sv_closedListeners s' @ (case k' of KListeners lns \<Rightarrow> lns | _ \<Rightarrow> []) =
     sv_closedListeners s @ (case k of KListeners lns \<Rightarrow> lns | _ \<Rightarrow> [])"
  using assms close_listener_fields [where w = w and s = s]
  by (cases k; (cases "case k of KListeners lns \<Rightarrow> lns | _ \<Rightarrow> []")?; auto simp: closing_def split: if_splits option.splits)+

lemma close_step_cancelled:
  assumes "close_step w k s = (k', s')" and "closing k"
  shows "sv_cancelled s' \<longleftrightarrow> sv_cancelled s \<or> k = KCancel" "k = KCancel \<longleftrightarrow> k' = KRange"
    "k' \<in> {KIdle, KUnregister, KClear, KCancel} \<longleftrightarrow> k \<in> {KUnregister, KClear}"
  using assms close_listener_fields [where w = w and s = s]
  by (cases k; (cases "case k of KListeners lns \<Rightarrow> lns | _ \<Rightarrow> []")?; auto simp: closing_def split: if_splits option.splits)+

lemma listener_inv_step:
  assumes "life_step w p p'" and "listener_inv p"
  shows "listener_inv p'"
  using assms(1)
proof (cases rule: life_step.cases)
  case (l_main m s)
  note step = main_step_listeners [OF l_main(3,2)] and closed = main_step_frame(2) [OF l_main(3,2)]
  have same: "sv_listeners s = sv_listeners (pr_srv p)" if "g_ranged p = Some n" "\<not> before_listeners n" for n
    using assms(2) that step(2) by (auto simp: listener_inv_def)
  have "to_close p' = to_close p" using same by (auto simp: l_main(1) to_close_def split: option.split)
  moreover have "before_listeners m \<longrightarrow> sv_listeners s = []" using assms(2) step by (auto simp: listener_inv_def)
  ultimately show ?thesis using assms(2) closed step(1) by (auto simp: l_main(1) listener_inv_def)
next
  case (l_close k s)
  note frame = close_step_frame(2) [OF l_close(4,3)]
  show ?thesis
  proof (cases "pr_close p = KRange")
    case True
    then have "k = KListeners (sv_listeners (pr_srv p))" "s = pr_srv p" using l_close(4) by auto
    moreover have "to_close p = []" using assms(2) True by (auto simp: listener_inv_def to_close_def)
    ultimately show ?thesis using assms(2) True by (auto simp: l_close(1) listener_inv_def to_close_def)
  next
    case False
    note closed = close_step_closed [OF l_close(4,3) False]
    have "pr_close p \<noteq> KDone" using l_close(3) by (simp add: closing_def)
    moreover have "to_close p' = to_close p"
      using False frame by (auto simp: l_close(1) to_close_def split: option.split)
    ultimately show ?thesis using assms(2) closed frame False unfolding l_close(1) listener_inv_def by auto
  qed
qed (use assms(2) in \<open>auto simp: listener_inv_def to_close_def split: option.splits\<close>)

lemma end_inv_step:
  assumes "life_step w p p'" and "end_inv p"
  shows "end_inv p'"
  using assms(1)
proof (cases rule: life_step.cases)
  case (l_main m s)
  show ?thesis using assms(2) main_step_frame(1,5) [OF l_main(3,2)] by (simp add: l_main(1) end_inv_def)
next
  case (l_close k s)
  note cancelled = close_step_cancelled [OF l_close(4,3)]
  have "pr_close p \<noteq> KIdle" "pr_close p \<noteq> KDone" using l_close(3) by (simp_all add: closing_def)
  then show ?thesis using assms(2) cancelled l_close(2) unfolding l_close(1) end_inv_def by auto
qed (use assms(2) in \<open>auto simp: end_inv_def is_exit_def\<close>)

definition life_inv :: "'r process \<Rightarrow> bool" where
  "life_inv p \<longleftrightarrow> id_inv p \<and> listener_inv p \<and> end_inv p"

lemma life_inv_step: "life_step w p p' \<Longrightarrow> life_inv p \<Longrightarrow> life_inv p'"
  using id_inv_step listener_inv_step end_inv_step by (auto simp: life_inv_def)

lemma life_inv_init: "life_inv (process_init (Server_New cert n acl dir pad fs))"
  by (auto simp: life_inv_def id_inv_def listener_inv_def end_inv_def to_close_def process_init_def pc_defs Server_New_def
      split: option.splits)

lemma life_reach_inv: "life_reach w p \<Longrightarrow> life_inv p"
  by (induction rule: life_reach.induct) (auto intro: life_inv_init life_inv_step)

section \<open>Where an id comes from\<close>

text \<open>The panel gave the id out in this process, or called the saved one valid.\<close>

definition granted :: "('o, 'r, 'c, 'u) world \<Rightarrow> api_call list \<Rightarrow> string \<Rightarrow> bool" where
  "granted w calls rid \<longleftrightarrow>
     (\<exists>h port. CallRegister h port \<in> set calls \<and> w_Register w h port = Inr rid) \<or>
     (CallVerify rid \<in> set calls \<and> w_Verify w rid = Inr True)"

lemma grantedI:
  "w_Register w h port = Inr rid \<Longrightarrow> granted w (calls @ [CallRegister h port]) rid"
  "w_Verify w rid = Inr True \<Longrightarrow> granted w (calls @ [CallVerify rid]) rid"
  by (auto simp: granted_def)

lemma granted_mono: "granted w calls rid \<Longrightarrow> set calls \<subseteq> set calls' \<Longrightarrow> granted w calls' rid"
  by (auto simp: granted_def)

text \<open>Past the registration, in \<open>Start\<close> and while it serves.\<close>

definition registered :: "main_pc \<Rightarrow> bool" where
  "registered m \<longleftrightarrow> \<not> before_id m \<and> (in_Start m \<or> m = PWait)"

definition granted_inv :: "('o, 'r, 'c, 'u) world \<Rightarrow> 'r process \<Rightarrow> bool" where
  "granted_inv w p \<longleftrightarrow>
     (\<forall>rid. (\<exists>h. pr_main p = PSave h rid) \<or> pr_main p = PStore rid \<or>
        sv_registerID (pr_srv p) = rid \<and> (rid \<noteq> '''' \<or> registered (pr_main p)) \<longrightarrow>
        granted w (sv_calls (pr_srv p)) rid)"

lemma registered_ends [simp]: "\<not> registered (PDefer r)" "\<not> registered PRecover" "\<not> registered (PExit n)"
  by (simp_all add: registered_def in_Start_def)

lemma main_step_registered:
  assumes "main_step w m s = (m', s')" and "in_Start m" and "registered m'"
  shows "registered m \<or> m = PStore (sv_registerID s')"
  using assms
  by (cases m) (auto simp: registered_def pc_defs Let_def split: sum.splits prod.splits option.splits
      NodeConfig.splits if_splits)

lemma main_step_granted:
  assumes "main_step w m s = (m', s')" and "in_Start m"
    and "(\<exists>h. m' = PSave h rid) \<or> m' = PStore rid \<or> sv_registerID s' = rid \<and> sv_registerID s \<noteq> rid"
  shows "granted w (sv_calls s') rid \<or> (\<exists>h. m = PSave h rid) \<or> m = PStore rid"
  using assms
  by (cases m) (auto simp: pc_defs under_ctx_def Let_def intro: grantedI split: sum.splits prod.splits option.splits
      NodeConfig.splits if_splits)

lemma granted_inv_step:
  assumes "life_step w p p'" and "granted_inv w p"
  shows "granted_inv w p'"
  using assms(1)
proof (cases rule: life_step.cases)
  case (l_main m s)
  note grow = main_step_frame(6) [OF l_main(3,2)]
  have "granted w (sv_calls s) rid"
    if "(\<exists>h. m = PSave h rid) \<or> m = PStore rid \<or> sv_registerID s = rid \<and> (rid \<noteq> '''' \<or> registered m)" for rid
  proof (cases "sv_registerID (pr_srv p) = rid \<and> (rid \<noteq> '''' \<or> registered (pr_main p)) \<or>
      (\<exists>h. pr_main p = PSave h rid) \<or> pr_main p = PStore rid")
    case True
    then show ?thesis using assms(2) granted_mono [OF _ grow] by (auto simp: granted_inv_def)
  next
    case False
    have "(\<exists>h. m = PSave h rid) \<or> m = PStore rid \<or> sv_registerID s = rid \<and> sv_registerID (pr_srv p) \<noteq> rid"
    proof (cases "sv_registerID (pr_srv p) = rid \<and> sv_registerID s = rid \<and> registered m")
      case True
      then show ?thesis using False main_step_registered [OF l_main(3,2)] by auto
    next
      case False
      then show ?thesis using \<open>\<not> (sv_registerID (pr_srv p) = rid \<and> _ \<or> _)\<close> that by auto
    qed
    from main_step_granted [OF l_main(3,2) this] show ?thesis using False by blast
  qed
  then show ?thesis by (auto simp: l_main(1) granted_inv_def)
next
  case (l_close k s)
  note frame = close_step_frame(1,4) [OF l_close(4,3)]
  show ?thesis using assms(2) frame(1) granted_mono [OF _ frame(2)] by (auto simp: l_close(1) granted_inv_def)
next
  case l_panic
  then show ?thesis using assms(2) by (auto simp: granted_inv_def)
next
  case l_served
  then show ?thesis using assms(2) by (auto simp: granted_inv_def)
next
  case l_exit
  then show ?thesis using assms(2) by (auto simp: granted_inv_def)
qed (use assms(2) in \<open>simp_all add: granted_inv_def\<close>)

lemma life_reach_granted: "life_reach w p \<Longrightarrow> granted_inv w p"
proof (induction rule: life_reach.induct)
  case (life_init cert n acl dir pad fs)
  show ?case by (simp add: granted_inv_def process_init_def Server_New_def registered_def before_id_def)
next
  case (life_more p p')
  then show ?case by (blast intro: granted_inv_step)
qed

section \<open>The end\<close>

text \<open>Serving needs a listener, and without a signal nobody but the main goroutine closes.\<close>

definition serve_inv :: "'r process \<Rightarrow> bool" where
  "serve_inv p \<longleftrightarrow>
     length (sv_listeners (pr_srv p)) \<le> 2 \<and>
     (\<forall>lns. pr_main p = PListening lns \<longrightarrow> lns \<noteq> [] \<and> length lns \<le> 2) \<and>
     (pr_main p \<in> {PPadding, PFetch, PHeartbeat, PWait} \<longrightarrow> sv_listeners (pr_srv p) \<noteq> []) \<and>
     (pr_sig p = SigWaiting \<and> \<not> in_defer (pr_main p) \<and> \<not> is_exit (pr_main p) \<longrightarrow> pr_close p = KIdle) \<and>
     (pr_main p = PDefer None \<or> pr_main p = PExit 0 \<longrightarrow> pr_sig p \<noteq> SigWaiting)"

lemma listenDualStack_length: "listenDualStack w port = Inr lns \<Longrightarrow> lns \<noteq> [] \<and> length lns \<le> 2"
  by (auto simp: listenDualStack_ok Let_def List.map_filter_simps split: if_splits sum.splits)

lemma main_step_serve:
  assumes "main_step w m s = (m', s')" and "in_Start m"
  shows "\<forall>lns. m' = PListening lns \<longrightarrow> lns \<noteq> [] \<and> length lns \<le> 2" "m' \<noteq> PDefer None" "m' \<noteq> PExit 0" "\<not> in_defer m"
    "sv_listeners s' = (case m of PListening lns \<Rightarrow> lns | _ \<Rightarrow> sv_listeners s)"
    "m' \<in> {PPadding, PFetch, PHeartbeat, PWait} \<Longrightarrow> m \<in> {PPadding, PFetch, PHeartbeat} \<or> (\<exists>lns. m = PListening lns)"
  using assms
  by (cases m; auto simp: pc_defs Let_def dest: listenDualStack_length
      split: sum.splits prod.splits option.splits NodeConfig.splits if_splits)+

lemma serve_inv_step:
  assumes "life_step w p p'" and "serve_inv p" and "life_inv p"
  shows "serve_inv p'"
  using assms(1)
proof (cases rule: life_step.cases)
  case (l_main m s)
  note step = main_step_serve [OF l_main(3,2)] and alive = main_step_frame(5) [OF l_main(3,2)]
  have not_end: "\<not> is_exit (pr_main p)" using l_main(2) by (cases "pr_main p") (simp_all add: pc_defs)
  have short: "length (sv_listeners s) \<le> 2"
    using assms(2) unfolding step(5) by (cases "pr_main p") (simp_all add: serve_inv_def)
  have some: "m \<in> {PPadding, PFetch, PHeartbeat, PWait} \<longrightarrow> sv_listeners s \<noteq> []"
    using assms(2) step(6) unfolding step(5) serve_inv_def by fastforce
  have quiet: "pr_sig p = SigWaiting \<longrightarrow> pr_close p = KIdle"
    using assms(2) step(4) not_end by (simp add: serve_inv_def)
  have no_end: "\<not> (m = PDefer None \<or> m = PExit 0)" using step(2,3) by simp
  show ?thesis unfolding l_main(1) serve_inv_def
    using short some quiet no_end step(1) by simp
next
  case l_served
  have "pr_sig p \<noteq> SigWaiting"
  proof
    assume "pr_sig p = SigWaiting"
    then have "pr_close p = KIdle" "sv_listeners (pr_srv p) \<noteq> []"
      using assms(2) l_served by (simp_all add: serve_inv_def pc_defs)
    then have "sv_closedListeners (pr_srv p) = []" "sv_listeners (pr_srv p) \<noteq> []"
      using assms(3) by (auto simp: life_inv_def listener_inv_def to_close_def)
    then show False using l_served(3) by (cases "sv_listeners (pr_srv p)") (auto simp: accepting_def)
  qed
  then show ?thesis using assms(2) by (auto simp: l_served(1) serve_inv_def)
next
  case (l_close k s)
  then show ?thesis using assms(2) close_step_frame(2) [OF l_close(4,3)]
    by (auto simp: serve_inv_def closing_def)
next
  case l_exit
  then show ?thesis using assms(2)
    by (auto simp: serve_inv_def pc_defs exit_status_def split: main_pc.splits option.splits)
qed (use assms(2) in \<open>auto simp: serve_inv_def pc_defs\<close>)

lemma life_reach_serve: "life_reach w p \<Longrightarrow> serve_inv p"
proof (induction rule: life_reach.induct)
  case (life_init cert n acl dir pad fs)
  show ?case by (simp add: serve_inv_def process_init_def Server_New_def)
next
  case (life_more p p')
  then show ?case by (blast intro: serve_inv_step life_reach_inv)
qed

text \<open>Every step brings the end nearer.\<close>

fun main_rank :: "main_pc \<Rightarrow> nat" where
  "main_rank PStart = 20" | "main_rank (PLoad _) = 19" | "main_rank (PConfig _ _) = 18"
| "main_rank (PVerify _ _ _) = 17" | "main_rank (PClear _ _) = 16" | "main_rank (PRegister _ _) = 15"
| "main_rank (PSave _ _) = 14" | "main_rank (PStore _) = 13" | "main_rank PCert = 12" | "main_rank PAcl = 11"
| "main_rank PNewUsers = 10" | "main_rank PCheck = 9" | "main_rank PListen = 8" | "main_rank (PListening _) = 7"
| "main_rank PPadding = 6" | "main_rank PFetch = 5" | "main_rank PHeartbeat = 4" | "main_rank PWait = 3"
| "main_rank (PDefer _) = 2" | "main_rank PRecover = 2" | "main_rank (PExit _) = 0"

fun close_rank :: "close_pc \<Rightarrow> nat" where
  "close_rank KIdle = 9" | "close_rank KUnregister = 8" | "close_rank KClear = 7" | "close_rank KCancel = 6"
| "close_rank KRange = 5" | "close_rank (KListeners lns) = 2 + length lns" | "close_rank KUsers = 1" | "close_rank KDone = 0"

fun sig_rank :: "signal_pc \<Rightarrow> nat" where
  "sig_rank SigWaiting = 2" | "sig_rank SigClosing = 1" | "sig_rank SigDone = 0"

definition life_rank :: "'r process \<Rightarrow> nat" where
  "life_rank p = main_rank (pr_main p) + close_rank (pr_close p) + sig_rank (pr_sig p)"

lemma main_step_rank: "in_Start m \<Longrightarrow> main_step w m s = (m', s') \<Longrightarrow> main_rank m' < main_rank m"
  by (cases m) (auto simp: pc_defs Let_def split: sum.splits prod.splits option.splits NodeConfig.splits if_splits)

lemma in_Start_rank: "in_Start m \<Longrightarrow> main_rank m > 2"
  by (cases m) (auto simp: in_Start_def)

lemma close_step_rank:
  "closing k \<Longrightarrow> close_step w k s = (k', s') \<Longrightarrow> length (sv_listeners s) \<le> 2 \<Longrightarrow> close_rank k' < close_rank k"
  by (cases k; (cases "case k of KListeners lns \<Rightarrow> lns | _ \<Rightarrow> []")?)
    (auto simp: closing_def split: if_splits option.splits)

lemma life_step_rank:
  assumes "life_step w p p'" and "serve_inv p"
  shows "life_rank p' < life_rank p"
  using assms(1)
proof (cases rule: life_step.cases)
  case (l_main m s)
  then show ?thesis using main_step_rank [OF l_main(2,3)] by (simp add: life_rank_def)
next
  case l_panic
  then show ?thesis using in_Start_rank [of "pr_main p"] by (simp add: life_rank_def)
next
  case (l_close k s)
  then show ?thesis using close_step_rank [OF l_close(3,4)] assms(2) by (simp add: life_rank_def serve_inv_def)
next
  case l_exit
  then show ?thesis by (auto simp: life_rank_def in_defer_def split: main_pc.splits)
qed (simp_all add: life_rank_def)

lemma life_run_rank: "(life_step w ^^ n) p p' \<Longrightarrow> life_reach w p \<Longrightarrow> life_reach w p' \<and> life_rank p' + n \<le> life_rank p"
proof (induction n arbitrary: p')
  case 0
  then show ?case by simp
next
  case (Suc n)
  then obtain q where q: "(life_step w ^^ n) p q" "life_step w q p'" by auto
  then have "life_reach w q \<and> life_rank q + n \<le> life_rank p" using Suc by blast
  then show ?case using life_step_rank [OF q(2)] life_reach_serve q(2) life_more by force
qed

lemma life_rank_init: "life_rank (process_init s) = 31"
  by (simp add: life_rank_def process_init_def)

text \<open>A process that can do nothing has ended, or serves listeners that \<open>Close\<close> came too early for.\<close>

lemma life_stuck:
  assumes "life_reach w p" and stuck: "\<nexists>p'. life_step w p p'"
  shows "is_exit (pr_main p) \<or>
    pr_main p = PWait \<and> accepting (pr_srv p) \<and> pr_sig p = SigDone \<and> (\<exists>m. g_ranged p = Some m \<and> before_listeners m)"
proof (cases "is_exit (pr_main p)")
  case alive: False
  have inv: "listener_inv p" "end_inv p" using life_reach_inv [OF assms(1)] by (simp_all add: life_inv_def)
  have "\<not> closing (pr_close p)"
    using stuck alive l_close [of p w] by (metis surj_pair)
  moreover have idle: "\<not> (pr_sig p = SigClosing \<or> in_defer (pr_main p))" if "pr_close p = KIdle"
    using stuck alive l_begin [of p w] that by blast
  moreover have "\<not> in_defer (pr_main p)" "pr_sig p \<noteq> SigClosing" if "pr_close p = KDone"
    using stuck alive l_exit [of p w] l_sig_done [of p w] that by blast+
  moreover have "pr_sig p \<noteq> SigWaiting" using stuck alive l_signal [of p w] by blast
  ultimately have done_: "pr_sig p = SigDone" "\<not> in_defer (pr_main p)" "pr_close p = KDone"
    using inv(2) by (cases "pr_sig p"; auto simp: closing_def end_inv_def)+
  have "\<not> in_Start (pr_main p)" using stuck l_main [of p w] by (metis surj_pair)
  then have wait: "pr_main p = PWait" using alive done_(2) by (auto simp: pc_defs split: main_pc.splits)
  then have acc: "accepting (pr_srv p)" using stuck l_served [of p w] by blast
  then have "to_close p \<noteq> sv_listeners (pr_srv p)"
    using inv(1) done_(3) by (auto simp: listener_inv_def accepting_def)
  then have "\<exists>m. g_ranged p = Some m \<and> before_listeners m"
    using inv(1) done_(3) by (auto simp: listener_inv_def to_close_def split: option.splits if_splits)
  with wait acc done_ show ?thesis by blast
qed simp

section \<open>Runs\<close>

lemma life_reach_run: "(life_step w)\<^sup>*\<^sup>* p p' \<Longrightarrow> life_reach w p \<Longrightarrow> life_reach w p'"
  by (induction rule: rtranclp_induct) (auto intro: life_more)

text \<open>Whatever state a process is in, it can be run to one where it can do nothing more.\<close>

lemma life_settles: "life_reach w p \<Longrightarrow> \<exists>p'. (life_step w)\<^sup>*\<^sup>* p p' \<and> (\<nexists>q. life_step w p' q)"
proof (induction "life_rank p" arbitrary: p rule: less_induct)
  case less
  show ?case
  proof (cases "\<exists>q. life_step w p q")
    case True
    then obtain q where q: "life_step w p q" by blast
    then have "life_rank q < life_rank p" "life_reach w q"
      using life_step_rank life_reach_serve [OF less.prems] life_more [OF less.prems] by blast+
    from less.hyps [OF this] show ?thesis using q by (meson converse_rtranclp_into_rtranclp)
  qed blast
qed

lemma life_main_run:
  "(main_rel w)\<^sup>*\<^sup>* x y \<Longrightarrow> pr_main p = fst x \<Longrightarrow> pr_srv p = snd x \<Longrightarrow>
   (life_step w)\<^sup>*\<^sup>* p (p\<lparr>pr_main := fst y, pr_srv := snd y\<rparr>)"
proof (induction rule: rtranclp_induct)
  case base
  then show ?case by (metis process.surjective process.update_convs(1,2) rtranclp.rtrancl_refl)
next
  case (step y z)
  have "life_step w (p\<lparr>pr_main := fst y, pr_srv := snd y\<rparr>) (p\<lparr>pr_main := fst z, pr_srv := snd z\<rparr>)"
    using l_main [of "p\<lparr>pr_main := fst y, pr_srv := snd y\<rparr>" w "fst z" "snd z"] step.hyps(2) by (simp add: main_rel_def)
  then show ?case using step by (meson rtranclp.rtrancl_into_rtrancl)
qed

text \<open>Past its deferred function a process only closes and exits.\<close>

definition ending :: "string \<Rightarrow> 'r process \<Rightarrow> bool" where
  "ending rid p \<longleftrightarrow> (in_defer (pr_main p) \<or> is_exit (pr_main p)) \<and> sv_registerID (pr_srv p) = rid"

lemma ending_step: "life_step w p p' \<Longrightarrow> ending rid p \<Longrightarrow> ending rid p'"
proof (erule life_stepE)
  fix k s assume a: "closing (pr_close p)" "close_step w (pr_close p) (pr_srv p) = (k, s)" "ending rid p"
    "p' = p\<lparr>pr_close := k, pr_srv := s, g_looked := (if pr_close p = KUnregister then Some (pr_main p) else g_looked p),
      g_ranged := (if pr_close p = KRange then Some (pr_main p) else g_ranged p)\<rparr>"
  then show "ending rid p'" using close_step_frame(1) [OF a(2,1)] by (simp add: ending_def)
qed (auto simp: ending_def pc_defs split: main_pc.splits)

text \<open>A process in its deferred function has an exit ahead, with the id it has now.\<close>

lemma life_exits:
  assumes "life_reach w p" and "in_defer (pr_main p)"
  shows "\<exists>p'. (life_step w)\<^sup>*\<^sup>* p p' \<and> is_exit (pr_main p') \<and> sv_registerID (pr_srv p') = sv_registerID (pr_srv p)"
proof -
  obtain p' where p': "(life_step w)\<^sup>*\<^sup>* p p'" "\<nexists>q. life_step w p' q" using life_settles [OF assms(1)] by blast
  have "ending (sv_registerID (pr_srv p)) p" using assms(2) by (simp add: ending_def)
  with p'(1) have e: "ending (sv_registerID (pr_srv p)) p'"
    by (induction rule: rtranclp_induct) (auto intro: ending_step)
  have "pr_main p' \<noteq> PWait" using e by (auto simp: ending_def pc_defs)
  then have "is_exit (pr_main p')" using life_stuck [OF life_reach_run [OF p'(1) assms(1)] p'(2)] by blast
  then show ?thesis using p'(1) e by (auto simp: ending_def)
qed

section \<open>Properties\<close>


text \<open>C11: A signal at any moment, and a panic anywhere in \<open>Start\<close>: at most one id is unregistered, and
  it is the server's own, which the panel gave it or confirmed, as it did with the id of a server
  that serves; when the process has ended,
  \<open>Close\<close> has run to its end, with the context cancelled, the server's id unregistered and all
  its listeners closed, unless \<open>Close\<close> looked at them before \<open>Start\<close> had stored them; and it ends
  with status 0 only if there was a signal.\<close>

theorem lifecycle_safe:
  assumes "life_reach w p"
  shows "(unregistered (sv_calls (pr_srv p)) = [] \<or>
          unregistered (sv_calls (pr_srv p)) = [sv_registerID (pr_srv p)] \<and> sv_registerID (pr_srv p) \<noteq> '''' \<and>
          granted w (sv_calls (pr_srv p)) (sv_registerID (pr_srv p))) \<and>
     (pr_main p = PWait \<longrightarrow> granted w (sv_calls (pr_srv p)) (sv_registerID (pr_srv p))) \<and>
     (is_exit (pr_main p) \<longrightarrow>
        pr_close p = KDone \<and> sv_cancelled (pr_srv p) \<and>
        (\<exists>m. g_looked p = Some m \<and> (before_id m \<or> sv_registerID (pr_srv p) = '''' \<or>
           unregistered (sv_calls (pr_srv p)) = [sv_registerID (pr_srv p)])) \<and>
        (\<exists>m. g_ranged p = Some m \<and> (before_listeners m \<or> sv_closedListeners (pr_srv p) = sv_listeners (pr_srv p)))) \<and>
     (pr_main p = PExit 0 \<longrightarrow> pr_sig p \<noteq> SigWaiting)"
proof -
  have inv: "id_inv p" "listener_inv p" "end_inv p" "granted_inv w p" "serve_inv p"
    using life_reach_inv [OF assms] life_reach_granted [OF assms] life_reach_serve [OF assms]
    by (simp_all add: life_inv_def)
  have grant: "granted w (sv_calls (pr_srv p)) (sv_registerID (pr_srv p))" if "sv_registerID (pr_srv p) \<noteq> ''''"
    using inv(4) that by (simp add: granted_inv_def)
  have serving: "granted w (sv_calls (pr_srv p)) (sv_registerID (pr_srv p))" if "pr_main p = PWait"
    using inv(4) that by (simp add: granted_inv_def registered_def)
  have once: "unregistered (sv_calls (pr_srv p)) = [] \<or>
      unregistered (sv_calls (pr_srv p)) = [sv_registerID (pr_srv p)] \<and> sv_registerID (pr_srv p) \<noteq> ''''"
    using inv(1) by (auto simp: id_inv_def split: option.splits if_splits)
  have exit: "pr_close p = KDone \<and> sv_cancelled (pr_srv p)" if "is_exit (pr_main p)"
    using inv(3) that by (simp add: end_inv_def)
  have status: "pr_main p = PExit 0 \<longrightarrow> pr_sig p \<noteq> SigWaiting" using inv(5) by (simp add: serve_inv_def)
  have ended: "\<exists>m. g_looked p = Some m \<and> (before_id m \<or> sv_registerID (pr_srv p) = '''' \<or>
           unregistered (sv_calls (pr_srv p)) = [sv_registerID (pr_srv p)])"
    "\<exists>m. g_ranged p = Some m \<and> (before_listeners m \<or> sv_closedListeners (pr_srv p) = sv_listeners (pr_srv p))"
    if "pr_close p = KDone"
    using inv(1,2) that by (auto simp: id_inv_def listener_inv_def to_close_def split: option.splits if_splits)
  show ?thesis
  proof (intro conjI impI)
    show "pr_close p = KDone" "sv_cancelled (pr_srv p)" if "is_exit (pr_main p)"
      using exit [OF that] by simp_all
  qed (use once grant serving exit ended status in blast)+
qed

text \<open>C13: The process comes to an end: however signal, panics, \<open>Start\<close> and \<open>Close\<close> interleave, no run takes
  more than 31 steps, and one that can go no further has ended, or it serves, having been
  told to stop so early that \<open>Close\<close> found no listeners to close.\<close>

theorem lifecycle_ends:
  assumes "life_reach w p"
  shows "(\<forall>n p'. (life_step w ^^ n) p p' \<longrightarrow> n \<le> life_rank p) \<and>
     life_rank (process_init s) = 31 \<and>
     ((\<nexists>p'. life_step w p p') \<longrightarrow>
        is_exit (pr_main p) \<or>
        pr_main p = PWait \<and> accepting (pr_srv p) \<and> pr_sig p = SigDone \<and> (\<exists>m. g_ranged p = Some m \<and> before_listeners m))"
  using life_run_rank [OF _ assms] life_stuck [OF assms] life_rank_init by (metis add_leD2)

text \<open>A run for the witnesses: a certificate that does not load ends the start of a registered node.\<close>

definition no_cert_world :: "(unit, unit, unit, unit) world" where
  "no_cert_world = demo_world\<lparr>w_LoadX509KeyPair := \<lambda>_ _. Some ErrEOF\<rparr>"

lemma no_cert_start: "\<exists>s e. Server_Start no_cert_world (demo_srv no_files) = (Some e, s) \<and> sv_registerID s = ''ab''"
proof -
  obtain s where s: "start_register no_cert_world (demo_srv no_files) = (None, s)" "sv_registerID s = ''ab''"
    using demo_register [OF no_cert_world_def] by blast
  then show ?thesis by (simp add: Server_Start_def start_rest_def CertConfig_Load_def no_cert_world_def)
qed

theorem lifecycle_safe_witness:
  "\<exists>p. life_reach no_cert_world p \<and> is_exit (pr_main p) \<and> sv_registerID (pr_srv p) = ''ab'' \<and> pr_close p = KDone \<and>
     sv_cancelled (pr_srv p)"
proof -
  let ?p0 = "process_init (demo_srv no_files)"
  obtain s e where s: "Server_Start no_cert_world (demo_srv no_files) = (Some e, s)" "sv_registerID s = ''ab''"
    using no_cert_start by blast
  have r0: "life_reach no_cert_world ?p0" unfolding demo_srv_def by (rule life_init)
  have "(life_step no_cert_world)\<^sup>*\<^sup>* ?p0 (?p0\<lparr>pr_main := PDefer (Some e), pr_srv := s\<rparr>)"
    using life_main_run [OF start_alone, of "demo_srv no_files" ?p0 no_cert_world]
    by (simp add: s(1) after_Start_def process_init_def) (simp add: demo_srv_def Server_New_def)
  then have r1: "life_reach no_cert_world (?p0\<lparr>pr_main := PDefer (Some e), pr_srv := s\<rparr>)" using r0 by (rule life_reach_run)
  obtain p where p: "(life_step no_cert_world)\<^sup>*\<^sup>* (?p0\<lparr>pr_main := PDefer (Some e), pr_srv := s\<rparr>) p"
    "is_exit (pr_main p)" "sv_registerID (pr_srv p) = ''ab''"
    using life_exits [OF r1] s(2) by (auto simp: in_defer_def)
  have "life_reach no_cert_world p" using p(1) r1 by (rule life_reach_run)
  then show ?thesis using lifecycle_safe [of no_cert_world p] p(2,3) by blast
qed

theorem lifecycle_ends_witness:
  "\<exists>p. (life_step demo_world)\<^sup>*\<^sup>* (process_init (demo_srv no_files)) p \<and>
     (is_exit (pr_main p) \<or> pr_main p = PWait \<and> accepting (pr_srv p) \<and> pr_sig p = SigDone)"
proof -
  let ?p0 = "process_init (demo_srv no_files)"
  have r0: "life_reach demo_world ?p0" unfolding demo_srv_def by (rule life_init)
  obtain p where p: "(life_step demo_world)\<^sup>*\<^sup>* ?p0 p" "\<nexists>q. life_step demo_world p q"
    using life_settles [OF r0] by blast
  then show ?thesis using lifecycle_ends [OF life_reach_run [OF p(1) r0]] by blast
qed

text \<open>What \<open>Close\<close> has seen it does not look at again.\<close>

lemma looked_stable:
  "(life_step w)\<^sup>*\<^sup>* p p' \<Longrightarrow> life_reach w p \<Longrightarrow> g_looked p = Some m \<Longrightarrow> g_looked p' = Some m"
proof (induction rule: rtranclp_induct)
  case (step q r)
  then have "id_inv q" "g_looked q = Some m"
    using life_reach_inv [OF life_reach_run [OF step.hyps(1) step.prems(1)]] by (simp_all add: life_inv_def)
  then show ?case using step.hyps(2) by (auto simp: id_inv_def elim: life_stepE)
qed

text \<open>A registration can be left behind: if the signal comes while \<open>Start\<close> is saving the id the panel
  has just given out, \<open>Close\<close> finds no id to unregister, and when the process ends, here
  because the certificate does not load, nobody has unregistered it.\<close>

theorem early_signal_leaks_registration:
  "\<exists>p. life_reach no_cert_world p \<and> is_exit (pr_main p) \<and> sv_registerID (pr_srv p) = ''ab'' \<and>
     granted no_cert_world (sv_calls (pr_srv p)) ''ab'' \<and> unregistered (sv_calls (pr_srv p)) = []"
proof -
  let ?w = no_cert_world
  let ?s1 = "(demo_srv no_files)\<lparr>sv_apiClient := True, sv_anyTLS := Some (AnyTLSConfig 443 1 ''''),
    sv_calls := [CallConfig, CallRegister ''h'' 443]\<rparr>"
  let ?p0 = "process_init (demo_srv no_files)"
  let ?p1 = "?p0\<lparr>pr_main := PSave ''h'' ''ab'', pr_srv := ?s1\<rparr>"
  note world = no_cert_world_def demo_world_def and srv = demo_srv_def Server_New_def
  have "(main_rel ?w)\<^sup>*\<^sup>* (PStart, demo_srv no_files) (PSave ''h'' ''ab'', ?s1)"
    by (rule main_into, simp add: in_Start_def, simp add: world, rule main_into, simp add: in_Start_def,
        simp add: LoadState_none srv, rule main_into, simp add: in_Start_def, simp add: world under_ctx_def call_def,
        rule main_into, simp add: in_Start_def, simp, rule main_into, simp add: in_Start_def)
      (simp add: world under_ctx_def call_def)
  from life_main_run [OF this, of ?p0] have "(life_step ?w)\<^sup>*\<^sup>* ?p0 ?p1" by (simp add: process_init_def)
  then have r1: "life_reach ?w ?p1" unfolding demo_srv_def by (rule life_reach_run [OF _ life_init])
  let ?p2 = "?p1\<lparr>pr_sig := SigClosing\<rparr>"
  have r2: "life_reach ?w ?p2"
    by (rule life_more [OF r1 l_signal]) (simp_all add: process_init_def is_exit_def)
  let ?p3 = "?p2\<lparr>pr_close := KUnregister, pr_srv := ?s1\<lparr>sv_closeOnce := True\<rparr>\<rparr>"
  have r3: "life_reach ?w ?p3"
    using life_more [OF r2 l_begin] by (simp add: process_init_def is_exit_def)
  let ?p4 = "?p3\<lparr>pr_close := KCancel, g_looked := Some (PSave ''h'' ''ab'')\<rparr>"
  have "life_step ?w ?p3 ?p4"
    using l_close [of ?p3 ?w KCancel "?s1\<lparr>sv_closeOnce := True\<rparr>"]
    by (simp add: process_init_def is_exit_def closing_def srv)
  then have r4: "life_reach ?w ?p4" by (rule life_more [OF r3])
  let ?s5 = "?s1\<lparr>sv_closeOnce := True, sv_files := snd (SaveState (w_json ?w) (sv_dataDir ?s1)
    \<lparr>RegisterID = ''ab'', NodeID = sv_nodeID ?s1, Hostname = ''h''\<rparr> (sv_files ?s1)),
    sv_registerID := ''ab'', sv_serviceRegisterID := ''ab''\<rparr>"
  have "(main_rel ?w)\<^sup>*\<^sup>* (PSave ''h'' ''ab'', ?s1\<lparr>sv_closeOnce := True\<rparr>)
      (PDefer (Some (ErrWrap ''failed to load TLS config'' ErrEOF)), ?s5)"
    by (rule main_into, simp add: in_Start_def, simp, rule main_into, simp add: in_Start_def, simp,
        rule main_into, simp add: in_Start_def) (simp add: world CertConfig_Load_def)
  from life_main_run [OF this, of ?p4]
  have run5: "(life_step ?w)\<^sup>*\<^sup>* ?p4 (?p4\<lparr>pr_main := PDefer (Some (ErrWrap ''failed to load TLS config'' ErrEOF)), pr_srv := ?s5\<rparr>)"
    by (simp add: process_init_def)
  let ?p5 = "?p4\<lparr>pr_main := PDefer (Some (ErrWrap ''failed to load TLS config'' ErrEOF)), pr_srv := ?s5\<rparr>"
  have r5: "life_reach ?w ?p5" using run5 r4 by (rule life_reach_run)
  obtain p where p: "(life_step ?w)\<^sup>*\<^sup>* ?p5 p" "is_exit (pr_main p)" "sv_registerID (pr_srv p) = ''ab''"
    using life_exits [OF r5] by (auto simp: in_defer_def)
  have r: "life_reach ?w p" using p(1) r5 by (rule life_reach_run)
  have "g_looked p = Some (PSave ''h'' ''ab'')" by (rule looked_stable [OF p(1) r5]) simp
  then have "unregistered (sv_calls (pr_srv p)) = []"
    using life_reach_inv [OF r] by (simp add: life_inv_def id_inv_def before_id_def)
  moreover have "granted ?w (sv_calls (pr_srv p)) ''ab''"
    using life_reach_granted [OF r] p(3) by (simp add: granted_inv_def)
  ultimately show ?thesis using r p(2,3) by blast
qed

end
