(* ===== verification/KeyPair.thy ===== *)
theory KeyPair
  imports Prelude
begin

text \<open>
  \<open>internal/pkg/util/mkcert.go\<close>: a self-signed certificate for a server name. Keys, random
  numbers, X.509 and PEM are libraries, here the record \<open>crypto\<close>; the clock is a function of how
  often it has been read. Times are in nanoseconds.
\<close>

section \<open>The libraries\<close>

datatype KeyUsage = KeyUsageKeyEncipherment | KeyUsageDigitalSignature

datatype ExtKeyUsage = ExtKeyUsageServerAuth

record Certificate =
  SerialNumber :: nat
  NotBefore :: int
  NotAfter :: int
  cert_KeyUsage :: "KeyUsage set"
  cert_ExtKeyUsage :: "ExtKeyUsage list"
  BasicConstraintsValid :: bool
  Subject_CommonName :: string
  DNSNames :: "string list"

record ('k, 'p, 'c) crypto =
  cr_Now :: "nat \<Rightarrow> int"
  cr_GenerateKey :: "nat \<Rightarrow> go_error + 'k"
  cr_Int :: "nat \<Rightarrow> go_error + nat"
  cr_Public :: "'k \<Rightarrow> 'p"
  cr_CreateCertificate :: "Certificate \<Rightarrow> Certificate \<Rightarrow> 'p \<Rightarrow> 'k \<Rightarrow> go_error + byte list"
  cr_MarshalPKCS8PrivateKey :: "'k \<Rightarrow> go_error + byte list"
  cr_EncodeToMemory :: "string \<Rightarrow> byte list \<Rightarrow> byte list"
  cr_X509KeyPair :: "byte list \<Rightarrow> byte list \<Rightarrow> go_error + 'c"

section \<open>The key pair\<close>

definition time_Hour :: int where
  "time_Hour = 3600 * 1000000000"

text \<open>The template, with the two readings of the clock it is made from.\<close>

definition certificate_template :: "nat \<Rightarrow> int \<Rightarrow> int \<Rightarrow> string \<Rightarrow> Certificate" where
  "certificate_template serialNumber now1 now2 serverName =
     \<lparr>SerialNumber = serialNumber, NotBefore = now1 + time_Hour * - 1, NotAfter = now2 + time_Hour,
      cert_KeyUsage = {KeyUsageKeyEncipherment, KeyUsageDigitalSignature}, cert_ExtKeyUsage = [ExtKeyUsageServerAuth],
      BasicConstraintsValid = True, Subject_CommonName = serverName, DNSNames = [serverName]\<rparr>"

definition GenerateKeyPair ::
  "('k, 'p, 'c) crypto \<Rightarrow> (nat \<Rightarrow> int) option \<Rightarrow> string \<Rightarrow> go_error + 'c" where
  "GenerateKeyPair cr timeFunc0 serverName =
     (let timeFunc = (case timeFunc0 of None \<Rightarrow> cr_Now cr | Some f \<Rightarrow> f)
      in case cr_GenerateKey cr 2048 of
           Inl err \<Rightarrow> Inl err
         | Inr key \<Rightarrow>
             (case cr_Int cr (2 ^ 128) of
                Inl err \<Rightarrow> Inl err
              | Inr serialNumber \<Rightarrow>
                  (let template = certificate_template serialNumber (timeFunc 0) (timeFunc 1) serverName
                   in case cr_CreateCertificate cr template template (cr_Public cr key) key of
                        Inl err \<Rightarrow> Inl err
                      | Inr publicDer \<Rightarrow>
                          (case cr_MarshalPKCS8PrivateKey cr key of
                             Inl err \<Rightarrow> Inl err
                           | Inr privateDer \<Rightarrow>
                               cr_X509KeyPair cr (cr_EncodeToMemory cr ''CERTIFICATE'' publicDer)
                                 (cr_EncodeToMemory cr ''PRIVATE KEY'' privateDer)))))"

section \<open>What is made\<close>

text \<open>What is documented of the libraries: \<open>rand.Int\<close> stays below its bound, and a clock does not
  go back.\<close>

definition crypto_laws :: "('k, 'p, 'c) crypto \<Rightarrow> bool" where
  "crypto_laws cr \<longleftrightarrow> (\<forall>n i. cr_Int cr n = Inr i \<longrightarrow> i < n) \<and> mono (cr_Now cr)"

text \<open>A key pair that is made is self-signed, for the server's name and the key whose private
  half goes with it, with a serial number of at most 128 bits, and valid at the time it is
  made, for an hour to either side.\<close>

theorem generated_pair_valid:
  assumes "crypto_laws cr" and "GenerateKeyPair cr None serverName = Inr pair"
  shows "\<exists>key cert publicDer privateDer.
     cr_GenerateKey cr 2048 = Inr key \<and> cr_CreateCertificate cr cert cert (cr_Public cr key) key = Inr publicDer \<and>
     cr_MarshalPKCS8PrivateKey cr key = Inr privateDer \<and>
     cr_X509KeyPair cr (cr_EncodeToMemory cr ''CERTIFICATE'' publicDer)
       (cr_EncodeToMemory cr ''PRIVATE KEY'' privateDer) = Inr pair \<and>
     SerialNumber cert < 2 ^ 128 \<and> DNSNames cert = [serverName] \<and> Subject_CommonName cert = serverName \<and>
     (\<forall>t \<in> {cr_Now cr 0 .. cr_Now cr 1}. NotBefore cert + time_Hour \<le> t \<and> t \<le> NotAfter cert - time_Hour)"
proof -
  obtain key where key: "cr_GenerateKey cr 2048 = Inr key"
    using assms(2) by (auto simp: GenerateKeyPair_def Let_def simp del: power_numeral split: sum.splits)
  obtain i where i: "cr_Int cr (2 ^ 128) = Inr i"
    using assms(2) key by (auto simp: GenerateKeyPair_def Let_def simp del: power_numeral split: sum.splits)
  let ?cert = "certificate_template i (cr_Now cr 0) (cr_Now cr 1) serverName"
  have "i < 2 ^ 128" using assms(1) i by (simp only: crypto_laws_def)
  moreover obtain pub priv where "cr_CreateCertificate cr ?cert ?cert (cr_Public cr key) key = Inr pub"
    "cr_MarshalPKCS8PrivateKey cr key = Inr priv"
    "cr_X509KeyPair cr (cr_EncodeToMemory cr ''CERTIFICATE'' pub) (cr_EncodeToMemory cr ''PRIVATE KEY'' priv) = Inr pair"
    using assms(2) by (auto simp: GenerateKeyPair_def key i Let_def simp del: power_numeral split: sum.splits)
  ultimately show ?thesis using key
    by (intro exI [of _ key] exI [of _ ?cert] exI [of _ pub] exI [of _ priv])
      (simp add: certificate_template_def del: power_numeral)
qed

definition demo_crypto :: "(unit, unit, string) crypto" where
  "demo_crypto = \<lparr>cr_Now = int, cr_GenerateKey = \<lambda>_. Inr (), cr_Int = \<lambda>n. if n = 0 then Inl ErrEOF else Inr (n - 1),
     cr_Public = \<lambda>_. (), cr_CreateCertificate = \<lambda>_ _ _ _. Inr [1], cr_MarshalPKCS8PrivateKey = \<lambda>_. Inr [2],
     cr_EncodeToMemory = \<lambda>_ b. b, cr_X509KeyPair = \<lambda>_ _. Inr ''pair''\<rparr>"

theorem generated_pair_valid_witness:
  "\<exists>cert :: Certificate. SerialNumber cert < 2 ^ 128 \<and> DNSNames cert = [''example''] \<and>
     NotBefore cert + time_Hour \<le> 0 \<and> GenerateKeyPair demo_crypto None ''example'' = Inr ''pair''"
proof -
  have laws: "crypto_laws demo_crypto" by (auto simp: crypto_laws_def demo_crypto_def mono_def)
  have g: "GenerateKeyPair demo_crypto None ''example'' = Inr ''pair''"
    by (simp add: GenerateKeyPair_def demo_crypto_def Let_def)
  have now: "0 \<in> {cr_Now demo_crypto 0 .. cr_Now demo_crypto 1}" by (simp add: demo_crypto_def)
  obtain cert :: Certificate where "SerialNumber cert < 2 ^ 128" "DNSNames cert = [''example'']"
    "\<forall>t \<in> {cr_Now demo_crypto 0 .. cr_Now demo_crypto 1}. NotBefore cert + time_Hour \<le> t \<and> t \<le> NotAfter cert - time_Hour"
    using generated_pair_valid [OF laws g] by (elim exE conjE) (rule that; assumption)
  then show ?thesis using g now by blast
qed

end
