(* ===== verification/Spec2Isabelle.thy ===== *)
theory Spec2Isabelle
  imports Padding PipeQueue Loop Protocol StreamOps Watcher ClientInv NodeTraffic Routine Lifecycle KeyPair
begin

text \<open>
  Verification library for the AnyTLS node \<open>server-anytls\<close>.

  The program. A node accepts TLS connections, checks a password hash and some padding at the
  head of each, and runs a session on it: streams multiplexed in frames of a seven byte
  header. A stream's received bytes wait in a pipe for its user, the stream's handler, which
  dials the destination through the configured outbounds and copies bytes. A panel gives the
  node its configuration and its users and takes back their traffic counters.

  The parts and their theories.
    \<^item> \<open>Prelude\<close>: machine integers, Go's errors, panics, lemmas on lists and maps. \<open>GoStd\<close> and
      \<open>GoNet\<close>: what the code uses of Go's standard library.
    \<^item> \<open>StringMap\<close> (\<open>util/string_map.go\<close>), \<open>Padding\<close> (\<open>proxy/padding\<close>): settings and padding
      schemes, with parser, drawing of sizes and the global factory.
    \<^item> \<open>Deadline\<close>, \<open>Pipe\<close>, \<open>PipeConc\<close> (\<open>proxy/pipe\<close>): deadlines with their timers, the pipe's
      operations, and reader, writer, closers and timers interleaved at every critical
      section and channel operation (\<open>pstep\<close>). \<open>PipeQueue\<close>: the abstract queue with two ends
      (\<open>qstep\<close>) that they implement.
    \<^item> \<open>Simulation\<close>: refinement between step relations, as an interface.
    \<^item> \<open>Frame\<close>, \<open>SessionState\<close>, \<open>SessionWrite\<close>, \<open>WritePath\<close>, \<open>StreamOps\<close>, \<open>Recv\<close>, \<open>RecvInv\<close>,
      \<open>Delivery\<close>, \<open>Loop\<close>, \<open>Protocol\<close> (\<open>proxy/session\<close>: \<open>frame.go\<close>, \<open>session.go\<close>, \<open>stream.go\<close>):
      the wire format, the session record with its stream objects in a store, writing with
      padding, the operations of streams, and the receive loop as a thread among the
      session's users (\<open>sys_step\<close>).
    \<^item> \<open>ClientPool\<close>, \<open>ClientInv\<close> (\<open>client.go\<close>): the client's pool of idle sessions. \<open>Watcher\<close>
      (\<open>util/deadline.go\<close>): the timer that closes a session whose stream is not acknowledged.
    \<^item> \<open>Users\<close>, \<open>Traffic\<close>, \<open>Routine\<close> (\<open>service/users.go\<close>, \<open>util/routine.go\<close>): users and their
      connections, counters and their report, the periodic tasks.
    \<^item> \<open>Outbound\<close>, \<open>Inbound\<close>, \<open>Node\<close> (\<open>app/server\<close>: \<open>outbound.go\<close>, \<open>utils.go\<close>,
      \<open>outbound_adapter.go\<close>, \<open>outbound_tcp.go\<close>, \<open>inbound_tcp.go\<close>, \<open>model.go\<close>, \<open>errors.go\<close>): the
      outbounds, the head of a connection and the handler of a stream, and all connections
      of a node together with the fetches of the user list (\<open>node_step\<close>). \<open>NodeTraffic\<close>: the
      same with the streams' request counts and the report task (\<open>serving_step\<close>).
    \<^item> \<open>ServerState\<close>, \<open>Server\<close>, \<open>Program\<close> (\<open>state.go\<close>, \<open>server.go\<close>, \<open>cmd/server/main.go\<close>): the
      state file, start and end of the server, flags and the program around it. \<open>Lifecycle\<close>:
      the process as threads, \<open>Start\<close> and \<open>Close\<close> call by call with a signal at any moment,
      panics, the deferred close and the exit status (\<open>life_step\<close>).
    \<^item> \<open>KeyPair\<close> (\<open>util/mkcert.go\<close>): the self-signed certificate.

  How the code is rendered. A struct is a record with the code's field names, a \<open>[]byte\<close> a
  list of 8-bit words, a Go string a list of characters, a map an association list or a
  partial map; where the iteration order of a map shows, the order is an argument. A
  function returns its results and the new state; a Go error is \<open>go_error option\<close> or the left
  of a sum; a function that can panic returns an option, and one that can also block an
  \<open>outcome\<close>. A section under one lock is one step. Goroutines are program counters of an
  \<open>inductive\<close> step relation. Code outside the repository is an argument: MD5, SHA-256 and
  random numbers, the connection (\<open>conn\<close>), the skip list (\<open>skiplist_laws\<close>), the packet buffer
  (\<open>buflib_laws\<close>), the calls of a stream's handler (\<open>outside_laws\<close>), the acl-engine (\<open>engine\<close>),
  the panel and the system (\<open>world\<close>), JSON (\<open>json_ok\<close>), the command line (\<open>env_rule\<close>),
  keys and certificates (\<open>crypto\<close>).

  Interfaces. \<open>bounded_fifo\<close> is the queue a pipe's user relies on, interpreted on the pipe's
  buffer (\<open>pipeq\<close>); \<open>stream_codec\<close> a self-delimiting code, interpreted on frames (\<open>wire\<close>);
  \<open>conn_registry\<close> the registry of a user's connections, interpreted on the connection
  manager (\<open>conns\<close>); \<open>forward_simulation\<close> a refinement of step relations, interpreted on the
  pipe's threads over the abstract queue (\<open>pq\<close>) and on the whole node over its counters and
  their report task (\<open>counters\<close>), so that what holds of the abstract machine holds of the code.

  What is shown. Data: settings and frames survive their round trip, a scheme only yields sizes
  in bounds, addresses are read back as printed. Writing: padding is transparent and of the
  drawn size, and what one session writes the other's loop delivers to the same stream.
  Concurrency: the pipe refines an abstract queue in every interleaving and loses no
  wake-up, a session stays well formed and never panics, deadlines close no channel twice,
  and on a whole node at work no traffic is lost between connections, counters and panel.
  Life cycles: streams and sessions close once, the loop ends within a step count bounded by
  its input, a refused destination is answered, the live connections of a node are the
  registered ones. The server: the saved state is old or new whatever fails, a registration
  is reused by the next process and released by the end, a started server is what the panel
  configured, and users follow the panel's lists. The process: its steps, undisturbed, are
  the function \<open>Server_Start\<close>; whenever a signal or a panic comes, one id is unregistered at
  most, and it ends within 31 steps or goes on serving because it was told to stop before it
  listened. Several theorems that are not part of these guarantees exhibit what the code
  does wrong: \<open>padding_order_dependent\<close>, \<open>oversized_control_frame_desync\<close>,
  \<open>late_syn_leaks_stream\<close>, \<open>renumbered_user_escapes\<close>, \<open>removed_user_admitted\<close>,
  \<open>early_close_leaves_listeners\<close>, \<open>early_signal_leaks_registration\<close>, \<open>done_overtaken\<close>,
  \<open>interval_variable_shared\<close>.

  Bounds. \<open>decode_all\<close> has the length of its input as fuel, as each frame takes seven bytes or
  more. \<open>SaveState\<close> runs five steps, the number of its calls (\<open>SaveState_run\<close>). \<open>v6_groups\<close> has
  the eight groups of an address as fuel. Every other recursion is structural or has a
  measure, and \<open>recv_run\<close> is related to its step count by \<open>recv_loop_ends\<close>.

  Not modelled. \<open>proxy/system_dialer.go\<close> is one library value and \<open>util/type.go\<close> declares a type.
  \<open>WithServer\<close> is never called, and \<open>NewExportedTrafficManager\<close> and
  \<open>NewUsersServiceWithTrafficManager\<close> only by the tests. Logging has no effect on what is
  modelled. The sniffing options are read from the configuration and used nowhere. Steps of
  goroutines are sequentially consistent: a data race shows as an interleaving, not as a torn
  or a stale value. \<open>app_Action\<close> has its signal at two points, between the registration and the
  rest of the start and while the node serves; \<open>life_step\<close> has it anywhere. TLS, the copying of
  bytes between connections and the parsing of a destination belong to libraries.
\<close>

end
